(* ===== verification/Prelude.thy ===== *)
theory Prelude
  imports Main "HOL-Library.Word" "HOL-Library.Sublist"
begin

text \<open>
  Shared vocabulary of the development: machine integers under the names the C++ sources use,
  memory buffers as byte lists, results of fallible code, the byte-buffer operations
  (\<open>memcpy\<close> into a buffer, bounds-checked reads) and the interface of a binary codec, which every
  serializer of the system implements.
\<close>

unbundle bit_operations_syntax

section \<open>Machine types\<close>

type_synonym uint8 = "8 word"
type_synonym uint16 = "16 word"
type_synonym uint32 = "32 word"
type_synonym uint64 = "64 word"

type_synonym bytes = "uint8 list"

text \<open>Collections: facts that evaluate byte codecs, and facts that carry invariants.\<close>

named_theorems codec_simps
named_theorems inv_intros

section \<open>Results of fallible code\<close>

text \<open>A C decoding function returns the number of bytes consumed, 0 when the buffer is too short and
  -1 when the data are corrupt; \<open>DecOverrun\<close> is the outcome of a read outside of the buffer, which
  in C++ is undefined behaviour.\<close>

datatype 'a decode_result = DecOk nat 'a | DecNotEnough | DecCorrupt | DecOverrun

fun map_decode :: "('a \<Rightarrow> 'b) \<Rightarrow> 'a decode_result \<Rightarrow> 'b decode_result" where
  "map_decode f (DecOk n x) = DecOk n (f x)"
| "map_decode f DecNotEnough = DecNotEnough"
| "map_decode f DecCorrupt = DecCorrupt"
| "map_decode f DecOverrun = DecOverrun"

section \<open>Byte buffers\<close>

text \<open>\<open>src[p]\<close> with the bounds made explicit.\<close>

definition byte_at :: "'a list \<Rightarrow> nat \<Rightarrow> 'a option" where
  "byte_at src p = (if p < length src then Some (src ! p) else None)"

text \<open>\<open>memcpy(buf + off, data, length data)\<close>.\<close>

definition splice :: "'a list \<Rightarrow> nat \<Rightarrow> 'a list \<Rightarrow> 'a list" where
  "splice buf off data = take off buf @ data @ drop (off + length data) buf"

text \<open>\<open>memcpy(dst, buf + off, n)\<close>.\<close>

definition slice :: "'a list \<Rightarrow> nat \<Rightarrow> nat \<Rightarrow> 'a list" where
  "slice buf off n = take n (drop off buf)"

lemma byte_at_append_left [simp]:
  "p < length xs \<Longrightarrow> byte_at (xs @ ys) p = Some (xs ! p)"
  by (simp add: byte_at_def nth_append)

lemma byte_at_Cons_0 [simp]: "byte_at (x # xs) 0 = Some x"
  by (simp add: byte_at_def)

lemma byte_at_Cons_Suc [simp]: "byte_at (x # xs) (Suc p) = byte_at xs p"
  by (simp add: byte_at_def)

lemma byte_at_Some_iff: "byte_at xs p = Some b \<longleftrightarrow> p < length xs \<and> b = xs ! p"
  by (auto simp: byte_at_def)

lemma length_splice [simp]:
  "off + length data \<le> length buf \<Longrightarrow> length (splice buf off data) = length buf"
  by (simp add: splice_def)

lemma length_slice [simp]: "off + n \<le> length buf \<Longrightarrow> length (slice buf off n) = n"
  by (simp add: slice_def)

lemma slice_splice_same [simp]:
  "off + length data \<le> length buf \<Longrightarrow> n = length data \<Longrightarrow> slice (splice buf off data) off n = data"
  by (simp add: slice_def splice_def)

lemma slice_splice_before:
  assumes "p + n \<le> off" and "off + length data \<le> length buf"
  shows "slice (splice buf off data) p n = slice buf p n"
proof -
  have "take (p + n) (splice buf off data) = take (p + n) buf"
    using assms by (simp add: splice_def)
  then show ?thesis
    by (simp add: slice_def take_drop add.commute)
qed

lemma slice_splice_after:
  assumes "off + length data \<le> p" and "off + length data \<le> length buf"
  shows "slice (splice buf off data) p n = slice buf p n"
  using assms by (simp add: slice_def splice_def)

lemma slice_splice_disjoint:
  assumes "p + n \<le> off \<or> off + length data \<le> p" and "off + length data \<le> length buf"
  shows "slice (splice buf off data) p n = slice buf p n"
  using assms slice_splice_before slice_splice_after by blast

lemma nth_splice:
  assumes "off + length data \<le> length buf" and "p < length buf"
  shows "splice buf off data ! p =
    (if off \<le> p \<and> p < off + length data then data ! (p - off) else buf ! p)"
  using assms by (auto simp: splice_def nth_append min_def)

section \<open>Words\<close>

lemma unat_lt: "unat (w::'a::len word) < 2 ^ LENGTH('a)"
  by (rule unsigned_less)

lemma unat_byte_lt [simp]: "unat (b::uint8) < 256"
  using unat_lt [of b] by simp

lemma byte_div_128: "n < 256 \<Longrightarrow> (n::nat) div 128 = (if n < 128 then 0 else 1)"
  by (simp add: div_nat_eqI)

lemma byte_mod_128: "n < 256 \<Longrightarrow> (n::nat) mod 128 = (if n < 128 then n else n - 128)"
  by (simp add: mod_if)

lemma unat_drop_bit_div: "unat (drop_bit n w) = unat w div 2 ^ n"
  unfolding unat_drop_bit_eq by (rule drop_bit_eq_div)

lemma unat_ucast_mod: "unat (ucast (w::'a::len word) :: 'b::len word) = unat w mod 2 ^ LENGTH('b)"
  by (simp add: unsigned_ucast_eq take_bit_eq_mod)

lemma nat_or_low_mod:
  fixes m :: nat
  shows "m mod 256 OR 128 = m mod 128 + 128"
proof -
  have b128: "bit (128::nat) n \<longleftrightarrow> n = 7" for n
    using bit_exp_iff [of 7 n, where 'a = nat] by auto
  have "take_bit 8 m OR 128 = take_bit 7 m OR 128"
    by (rule bit_eqI) (auto simp: bit_take_bit_iff bit_or_iff b128)
  also have "\<dots> = take_bit 7 m + 128"
    by (rule disjunctive_add_eq_or [symmetric], rule bit_eqI)
      (auto simp: bit_take_bit_iff bit_and_iff b128)
  finally show ?thesis by (simp add: take_bit_eq_mod)
qed

lemma slice_nth: "off < length buf \<Longrightarrow> slice buf off 1 = [buf ! off]"
  by (simp add: slice_def take_Suc_conv_app_nth Cons_nth_drop_Suc [symmetric])

lemma length_takeWhile_drop:
  "k \<le> length (takeWhile P xs) \<Longrightarrow>
    length (takeWhile P (drop k xs)) = length (takeWhile P xs) - k"
  by (induction xs arbitrary: k) (auto simp: drop_Cons' split: if_splits)

lemma takeWhile_length_less:
  "length (takeWhile P xs) < length xs \<longleftrightarrow> (\<exists>x \<in> set xs. \<not> P x)"
  by (induction xs) auto

lemma or_push_bit:
  assumes "n < 2 ^ k"
  shows "(of_nat n :: 'a::len word) OR push_bit k w = of_nat n + w * 2 ^ k"
proof -
  have "(of_nat n :: 'a word) = take_bit k (of_nat n)"
    using assms by (simp add: take_bit_of_nat take_bit_nat_eq_self)
  then have "bit (of_nat n :: 'a word) i \<Longrightarrow> i < k" for i
    by (metis bit_take_bit_iff)
  then have "(of_nat n :: 'a word) AND push_bit k w = 0"
    by (intro bit_word_eqI) (auto simp: bit_and_iff bit_push_bit_iff dest!: leD)
  then show ?thesis
    by (simp add: disjunctive_add_eq_or [symmetric] push_bit_eq_mult)
qed

section \<open>The interface of a binary codec\<close>

text \<open>Outcome of a decoder reduced to what a caller that succeeds sees: the value and the number of
  bytes consumed.\<close>

fun ok_of_decode :: "'a decode_result \<Rightarrow> ('a \<times> nat) option" where
  "ok_of_decode (DecOk n x) = Some (x, n)"
| "ok_of_decode _ = None"

fun ok_of_sum :: "'e + 'a \<Rightarrow> 'a option" where
  "ok_of_sum (Inr x) = Some x"
| "ok_of_sum (Inl _) = None"

text \<open>The data that follow an encoded object.  The variable-length decoders need either ten bytes in
  the buffer or a buffer whose last byte has no continuation bit.\<close>

definition varint_tail :: "bytes \<Rightarrow> bool" where
  "varint_tail rest \<longleftrightarrow> rest = [] \<or> last rest < 0x80 \<or> 9 \<le> length rest"

fun des_seq :: "(bytes \<Rightarrow> ('a \<times> nat) option) \<Rightarrow> nat \<Rightarrow> bytes \<Rightarrow> ('a list \<times> nat) option" where
  "des_seq des 0 buf = Some ([], 0)"
| "des_seq des (Suc k) buf = (case des buf of
      None \<Rightarrow> None
    | Some (x, n) \<Rightarrow> (case des_seq des k (drop n buf) of
        None \<Rightarrow> None
      | Some (xs, n') \<Rightarrow> Some (x # xs, n + n')))"

text \<open>The decoding idiom of the record classes: decode a field at \<open>buffer + totalConsumed\<close> from
  \<open>dataSize - totalConsumed\<close> bytes, fail if nothing was consumed, advance.\<close>

type_synonym 'a decoder = "bytes \<Rightarrow> ('a \<times> nat) option"

definition p_return :: "'a \<Rightarrow> 'a decoder" where
  "p_return x buf = Some (x, 0)"

fun advance :: "nat \<Rightarrow> ('a \<times> nat) option \<Rightarrow> ('a \<times> nat) option" where
  "advance n None = None"
| "advance n (Some (y, m)) = Some (y, n + m)"

definition p_bind :: "'a decoder \<Rightarrow> ('a \<Rightarrow> 'b decoder) \<Rightarrow> 'b decoder" where
  "p_bind p f buf = (case p buf of
      None \<Rightarrow> None
    | Some (x, n) \<Rightarrow> advance n (f x (drop n buf)))"

definition p_byte :: "uint8 decoder" where
  "p_byte buf = (case buf of [] \<Rightarrow> None | b # _ \<Rightarrow> Some (b, 1))"

text \<open>A codec: the announced size is the number of bytes written, and reading back what was written
  gives the value and consumes exactly those bytes, whatever follows them.\<close>

locale codec =
  fixes ser :: "'a \<Rightarrow> bytes"
    and des :: "bytes \<Rightarrow> ('a \<times> nat) option"
    and ser_size :: "'a \<Rightarrow> nat"
    and valid :: "'a \<Rightarrow> bool"
  assumes length_ser: "valid x \<Longrightarrow> length (ser x) = ser_size x"
    and des_ser: "valid x \<Longrightarrow> varint_tail rest \<Longrightarrow> des (ser x @ rest) = Some (x, ser_size x)"
begin

lemma des_ser_exact: "valid x \<Longrightarrow> des (ser x) = Some (x, ser_size x)"
  using des_ser [of x "[]"] by (simp add: varint_tail_def)

lemma ser_inject: "valid x \<Longrightarrow> valid y \<Longrightarrow> ser x = ser y \<Longrightarrow> x = y"
  by (metis des_ser_exact option.inject prod.inject)

lemma ser_unique_parse:
  assumes "valid x" "valid y" "varint_tail r" "varint_tail r'" "ser x @ r = ser y @ r'"
  shows "x = y \<and> r = r'"
  using des_ser [OF assms(1,3)] des_ser [OF assms(2,4)] assms(5) by auto

end

lemma p_return_simp [simp]: "p_return x buf = Some (x, 0)"
  by (simp add: p_return_def)

lemma advance_eq_Some: "advance n r = Some (y, k) \<longleftrightarrow> (\<exists>m. r = Some (y, m) \<and> k = n + m)"
  by (cases r; cases "the r") auto

lemma p_bind_append:
  "p (s @ rest) = Some (x, length s) \<Longrightarrow> p_bind p f (s @ rest) = advance (length s) (f x rest)"
  by (simp add: p_bind_def)

lemma p_bind_byte [codec_simps]: "p_bind p_byte f (b # rest) = advance 1 (f b rest)"
  by (simp add: p_bind_def p_byte_def)

lemma p_bind_bound:
  assumes "p_bind p f buf = Some (y, k)"
    and "\<And>b x n. p b = Some (x, n) \<Longrightarrow> n \<le> length b"
    and "\<And>x b z n. f x b = Some (z, n) \<Longrightarrow> n \<le> length b"
  shows "k \<le> length buf"
proof -
  obtain x n m where x: "p buf = Some (x, n)" "f x (drop n buf) = Some (y, m)" "k = n + m"
    using assms(1) by (auto simp: p_bind_def advance_eq_Some split: option.splits)
  from assms(2) [OF x(1)] assms(3) [OF x(2)] x(3) show ?thesis by simp
qed

lemma varint_tail_Nil [simp]: "varint_tail []"
  by (simp add: varint_tail_def)

lemma varint_tail_Cons: "varint_tail rest \<Longrightarrow> rest \<noteq> [] \<Longrightarrow> varint_tail (b # rest)"
  by (auto simp: varint_tail_def)

lemma varint_tail_append:
  "varint_tail a \<Longrightarrow> varint_tail b \<Longrightarrow> varint_tail (a @ b)"
  "varint_tail b \<Longrightarrow> b \<noteq> [] \<Longrightarrow> varint_tail (a @ b)"
  by (auto simp: varint_tail_def last_append)

text \<open>Codecs that can be concatenated: what they write does not look like an unfinished group to a reader
  that stands before it, because it is long enough or because of its last byte.\<close>

locale tail_codec = codec +
  assumes ser_nonempty: "valid x \<Longrightarrow> ser x \<noteq> []"
    and ser_tail: "valid x \<Longrightarrow> varint_tail (ser x)"
begin

lemma varint_tail_ser: "valid x \<Longrightarrow> varint_tail rest \<Longrightarrow> varint_tail (ser x @ rest)"
  using ser_tail [of x] ser_nonempty [of x] by (auto simp: varint_tail_def last_append)

lemma varint_tail_concat:
  "\<forall>x \<in> set xs. valid x \<Longrightarrow> varint_tail rest \<Longrightarrow> varint_tail (concat (map ser xs) @ rest)"
  by (induction xs) (simp_all add: varint_tail_ser)

lemma des_seq_concat:
  "\<forall>x \<in> set xs. valid x \<Longrightarrow> varint_tail rest \<Longrightarrow>
    des_seq des (length xs) (concat (map ser xs) @ rest) = Some (xs, sum_list (map ser_size xs))"
proof (induction xs)
  case (Cons x xs)
  then have "des (ser x @ concat (map ser xs) @ rest) = Some (x, ser_size x)"
    by (intro des_ser varint_tail_concat) auto
  moreover have "drop (ser_size x) (ser x @ concat (map ser xs) @ rest) = concat (map ser xs) @ rest"
    using Cons.prems length_ser [of x] by simp
  ultimately show ?case using Cons by simp
qed simp

lemma p_bind_seq:
  assumes "\<forall>x \<in> set xs. valid x" and "varint_tail rest" and "n = length xs"
  shows "p_bind (des_seq des n) f (concat (map ser xs) @ rest) = advance (sum_list (map ser_size xs)) (f xs rest)"
proof -
  have "length (concat (map ser xs)) = sum_list (map ser_size xs)"
    using assms(1) by (induction xs) (simp_all add: length_ser)
  then show ?thesis
    using p_bind_append [of "des_seq des n" "concat (map ser xs)" rest xs f] des_seq_concat [OF assms(1,2)] assms(3)
    by simp
qed

end

locale seq_codec = codec +
  assumes ser_last: "valid x \<Longrightarrow> ser x \<noteq> [] \<and> last (ser x) < 0x80"

sublocale seq_codec \<subseteq> tail_codec
  by unfold_locales (simp_all add: varint_tail_def ser_last)

section \<open>Decoders on truncated data\<close>

text \<open>A coherent decoder consumes no more than it is given, and when it succeeds on a prefix of some data
  it gives the same result there as on the data.\<close>

definition coherent :: "'a decoder \<Rightarrow> bool" where
  "coherent p \<longleftrightarrow> (\<forall>b x n. p b = Some (x, n) \<longrightarrow> n \<le> length b) \<and>
    (\<forall>b k r r'. p b = Some r \<longrightarrow> p (take k b) = Some r' \<longrightarrow> r = r')"

lemma coherent_bound: "coherent p \<Longrightarrow> p b = Some (x, n) \<Longrightarrow> n \<le> length b"
  by (simp add: coherent_def)

lemma coherent_eq: "coherent p \<Longrightarrow> p b = Some r \<Longrightarrow> p (take k b) = Some r' \<Longrightarrow> r = r'"
  unfolding coherent_def by blast

lemma coherent_return [inv_intros]: "coherent (p_return x)"
  by (simp add: coherent_def)

lemma coherent_byte [inv_intros]: "coherent p_byte"
  unfolding coherent_def p_byte_def by (auto simp: take_Cons' split: list.splits if_splits)

lemma coherent_bind [inv_intros]:
  assumes "coherent p" and "\<And>x. coherent (f x)"
  shows "coherent (p_bind p f)"
  unfolding coherent_def
proof (intro conjI allI impI)
  fix b y n
  assume "p_bind p f b = Some (y, n)"
  then show "n \<le> length b"
    using coherent_bound [OF assms(1)] coherent_bound [OF assms(2)] by (rule p_bind_bound) auto
next
  fix b k r r'
  assume a: "p_bind p f b = Some r" "p_bind p f (take k b) = Some r'"
  obtain y m y' m' where r: "r = (y, m)" "r' = (y', m')" by (cases r, cases r')
  from a(1) obtain x n j where x: "p b = Some (x, n)" "f x (drop n b) = Some (y, j)" "m = n + j"
    by (auto simp: r p_bind_def advance_eq_Some split: option.splits)
  from a(2) obtain x' n' j' where x': "p (take k b) = Some (x', n')"
      "f x' (drop n' (take k b)) = Some (y', j')" "m' = n' + j'"
    by (auto simp: r p_bind_def advance_eq_Some split: option.splits)
  have "x' = x" "n' = n" using coherent_eq [OF assms(1) x(1) x'(1)] by auto
  then have "f x (take (k - n) (drop n b)) = Some (y', j')" using x'(2) by (simp add: drop_take)
  from coherent_eq [OF assms(2) x(2) this] show "r = r'"
    using x(3) x'(3) \<open>n' = n\<close> by (simp add: r)
qed

lemma coherent_seq [inv_intros]: "coherent p \<Longrightarrow> coherent (des_seq p n)"
proof (induction n)
  case 0
  then show ?case by (simp add: coherent_def)
next
  case (Suc n)
  have "des_seq p (Suc n) = p_bind p (\<lambda>x. p_bind (des_seq p n) (\<lambda>xs. p_return (x # xs)))"
    by (rule ext) (auto simp: p_bind_def split: option.splits)
  moreover have "coherent \<dots>" by (intro inv_intros Suc)
  ultimately show ?case by simp
qed

lemma coherent_truncated:
  assumes "coherent p" "p b = Some (x, length b)" "k < length b"
  shows "p (take k b) = None"
proof (rule ccontr)
  assume "p (take k b) \<noteq> None"
  then obtain y m where y: "p (take k b) = Some (y, m)" by auto
  from coherent_eq [OF assms(1,2) y] coherent_bound [OF assms(1) y] assms(3) show False by simp
qed

end
