(* ===== verification/PlainBinary.thy ===== *)
theory PlainBinary
  imports Prelude
begin

text \<open>
  Plain binary encoding of fixed-width integers and of length-prefixed strings
  (\<open>PlainBinaryEncoding.h\<close>, \<open>PlainBinaryEncoding.c\<close>).  Every function of the header has two bodies,
  selected by the preprocessor: a native one that stores the integer as it is in memory on a platform
  with unaligned access (x86, little-endian), and a portable one that works byte by byte.  Both are
  modelled.  An encoder returns the bytes it stores; a decoder returns the value and the number of
  bytes it advances, \<open>None\<close> standing for a read outside of the buffer, which the C code does not test.
\<close>

section \<open>Native stores and loads\<close>

text \<open>The memory image of an integer of \<open>n\<close> bytes on a little-endian machine.\<close>

definition mem_bytes :: "nat \<Rightarrow> 'a::len word \<Rightarrow> bytes" where
  "mem_bytes n w = map (\<lambda>i. ucast (drop_bit (8 * i) w)) [0..<n]"

fun mem_word :: "bytes \<Rightarrow> 'a::len word" where
  "mem_word [] = 0"
| "mem_word (b # bs) = ucast b OR push_bit 8 (mem_word bs)"

definition native_load :: "nat \<Rightarrow> bytes \<Rightarrow> ('a::len word \<times> nat) option" where
  "native_load n buf = (if n \<le> length buf then Some (mem_word (take n buf), n) else None)"

section \<open>Portable encoders\<close>

definition pbeEncodeInt16 :: "uint16 \<Rightarrow> bytes" where
  "pbeEncodeInt16 v = [ucast (v AND 0xFF), ucast (signed_drop_bit 8 v AND 0xFF)]"

definition pbeEncodeInt32 :: "uint32 \<Rightarrow> bytes" where
  "pbeEncodeInt32 v =
    [ucast (v AND 0xFF), ucast (signed_drop_bit 8 v AND 0xFF),
     ucast (signed_drop_bit 16 v AND 0xFF), ucast (signed_drop_bit 24 v AND 0xFF)]"

definition pbeEncodeUInt16 :: "uint16 \<Rightarrow> bytes" where
  "pbeEncodeUInt16 v = [ucast (v AND 0xFF), ucast (drop_bit 8 v AND 0xFF)]"

definition pbeEncodeUInt32 :: "uint32 \<Rightarrow> bytes" where
  "pbeEncodeUInt32 v =
    [ucast (v AND 0xFF), ucast (drop_bit 8 v AND 0xFF),
     ucast (drop_bit 16 v AND 0xFF), ucast (drop_bit 24 v AND 0xFF)]"

text \<open>The 64-bit encoders go through two signed 32-bit halves.\<close>

definition pbeEncodeInt64 :: "uint64 \<Rightarrow> bytes" where
  "pbeEncodeInt64 value =
    (let v = (ucast (value AND 0xFFFFFFFF) :: uint32);
         v' = (ucast (signed_drop_bit 32 value AND 0xFFFFFFFF) :: uint32) in
     [ucast (v AND 0xFF), ucast (signed_drop_bit 8 v AND 0xFF),
      ucast (signed_drop_bit 16 v AND 0xFF), ucast (signed_drop_bit 24 v AND 0xFF),
      ucast (v' AND 0xFF), ucast (signed_drop_bit 8 v' AND 0xFF),
      ucast (signed_drop_bit 16 v' AND 0xFF), ucast (signed_drop_bit 24 v' AND 0xFF)])"

definition pbeEncodeUInt64 :: "uint64 \<Rightarrow> bytes" where
  "pbeEncodeUInt64 value =
    (let v = (ucast (value AND 0xFFFFFFFF) :: uint32);
         v' = (ucast (drop_bit 32 value AND 0xFFFFFFFF) :: uint32) in
     [ucast (v AND 0xFF), ucast (signed_drop_bit 8 v AND 0xFF),
      ucast (signed_drop_bit 16 v AND 0xFF), ucast (signed_drop_bit 24 v AND 0xFF),
      ucast (v' AND 0xFF), ucast (signed_drop_bit 8 v' AND 0xFF),
      ucast (signed_drop_bit 16 v' AND 0xFF), ucast (signed_drop_bit 24 v' AND 0xFF)])"

text \<open>Floating point numbers travel as their bit patterns.\<close>

definition pbeEncodeFloat :: "uint32 \<Rightarrow> bytes" where
  "pbeEncodeFloat v = pbeEncodeUInt32 v"

definition pbeEncodeDouble :: "uint64 \<Rightarrow> bytes" where
  "pbeEncodeDouble v = pbeEncodeUInt64 v"

text \<open>The zero encoders as updates of the buffer they are given; \<open>None\<close> is a store past its end.\<close>

fun store_zeros :: "nat list \<Rightarrow> bytes \<Rightarrow> bytes option" where
  "store_zeros [] buf = Some buf"
| "store_zeros (i # is) buf = (if i < length buf then store_zeros is (buf[i := 0]) else None)"

definition pbeEncodeZero16 :: "bytes \<Rightarrow> bytes option" where
  "pbeEncodeZero16 buf = store_zeros [0, 1] buf"

definition pbeEncodeZero32 :: "bytes \<Rightarrow> bytes option" where
  "pbeEncodeZero32 buf = store_zeros [0, 1, 3, 4] buf"

definition pbeEncodeZero64 :: "bytes \<Rightarrow> bytes option" where
  "pbeEncodeZero64 buf = store_zeros [0, 1, 3, 4, 5, 6, 7, 8] buf"

definition pbeEncodeBinary :: "bytes \<Rightarrow> bytes" where
  "pbeEncodeBinary data = data"

section \<open>Portable decoders\<close>

definition join16 :: "uint8 \<Rightarrow> uint8 \<Rightarrow> uint16" where
  "join16 b0 b1 = ucast b0 OR push_bit 8 (ucast b1)"

definition join32 :: "uint8 \<Rightarrow> uint8 \<Rightarrow> uint8 \<Rightarrow> uint8 \<Rightarrow> uint32" where
  "join32 b0 b1 b2 b3 =
    ucast b0 OR push_bit 8 (ucast b1) OR push_bit 16 (ucast b2) OR push_bit 24 (ucast b3)"

definition join64 :: "uint32 \<Rightarrow> uint32 \<Rightarrow> uint64" where
  "join64 lo hi = push_bit 32 (ucast hi) OR ucast lo"

fun pbeDecodeInt16 :: "bytes \<Rightarrow> (uint16 \<times> nat) option" where
  "pbeDecodeInt16 (b0 # b1 # _) = Some (join16 b0 b1, 2)"
| "pbeDecodeInt16 _ = None"

fun pbeDecodeUInt16 :: "bytes \<Rightarrow> (uint16 \<times> nat) option" where
  "pbeDecodeUInt16 (b0 # b1 # _) = Some (join16 b0 b1, 2)"
| "pbeDecodeUInt16 _ = None"

fun pbeDecodeInt32 :: "bytes \<Rightarrow> (uint32 \<times> nat) option" where
  "pbeDecodeInt32 (b0 # b1 # b2 # b3 # _) = Some (join32 b0 b1 b2 b3, 4)"
| "pbeDecodeInt32 _ = None"

fun pbeDecodeUInt32 :: "bytes \<Rightarrow> (uint32 \<times> nat) option" where
  "pbeDecodeUInt32 (b0 # b1 # b2 # b3 # _) = Some (join32 b0 b1 b2 b3, 4)"
| "pbeDecodeUInt32 _ = None"

fun pbeDecodeInt64 :: "bytes \<Rightarrow> (uint64 \<times> nat) option" where
  "pbeDecodeInt64 (b0 # b1 # b2 # b3 # b4 # b5 # b6 # b7 # _) =
    Some (join64 (join32 b0 b1 b2 b3) (join32 b4 b5 b6 b7), 8)"
| "pbeDecodeInt64 _ = None"

fun pbeDecodeUInt64 :: "bytes \<Rightarrow> (uint64 \<times> nat) option" where
  "pbeDecodeUInt64 (b0 # b1 # b2 # b3 # b4 # b5 # b6 # b7 # _) =
    Some (join64 (join32 b0 b1 b2 b3) (join32 b4 b5 b6 b7), 8)"
| "pbeDecodeUInt64 _ = None"

definition pbeDecodeFloat :: "bytes \<Rightarrow> (uint32 \<times> nat) option" where
  "pbeDecodeFloat buf = pbeDecodeUInt32 buf"

definition pbeDecodeDouble :: "bytes \<Rightarrow> (uint64 \<times> nat) option" where
  "pbeDecodeDouble buf = pbeDecodeUInt64 buf"

definition pbeDecodeBinary :: "bytes \<Rightarrow> nat \<Rightarrow> (bytes \<times> nat) option" where
  "pbeDecodeBinary buf sz = (if sz \<le> length buf then Some (take sz buf, sz) else None)"

section \<open>Length-prefixed strings\<close>

text \<open>A C string is its bytes without the terminator.  \<open>None\<close> is the null pointer the encoders return
  when the string is too long.\<close>

definition pbeEncodeTinyString :: "bytes \<Rightarrow> bytes option" where
  "pbeEncodeTinyString s =
    (if length s > 0xFF then None else Some (of_nat (length s) # s))"

definition pbeEncodeShortString :: "bytes \<Rightarrow> bytes option" where
  "pbeEncodeShortString s =
    (if length s > 0xFFFF then None else Some (pbeEncodeUInt16 (of_nat (length s)) @ s))"

definition pbeEncodeLongString :: "bytes \<Rightarrow> bytes option" where
  "pbeEncodeLongString s =
    (if length s > 0xFFFFFFFF then None else Some (pbeEncodeUInt32 (of_nat (length s)) @ s))"

text \<open>The decoders get the size of the destination; they leave it with the terminator in place.\<close>

datatype string_result = StrOk bytes nat | StrNull | StrOverrun

definition decode_string_body :: "nat \<Rightarrow> nat \<Rightarrow> bytes \<Rightarrow> nat \<Rightarrow> string_result" where
  "decode_string_body pre len buf sz =
    (if sz = 0 then StrNull
     else if len > sz - 1 then StrNull
     else if pre + len \<le> length buf
     then StrOk (take len (drop pre buf) @ [0]) (pre + len)
     else StrOverrun)"

definition pbeDecodeTinyString :: "bytes \<Rightarrow> nat \<Rightarrow> string_result" where
  "pbeDecodeTinyString buf sz = (case buf of
      [] \<Rightarrow> StrOverrun
    | b # _ \<Rightarrow> decode_string_body 1 (unat b) buf sz)"

definition pbeDecodeShortString :: "bytes \<Rightarrow> nat \<Rightarrow> string_result" where
  "pbeDecodeShortString buf sz = (case pbeDecodeUInt16 buf of
      None \<Rightarrow> StrOverrun
    | Some (len, n) \<Rightarrow> decode_string_body n (unat len) buf sz)"

definition pbeDecodeLongString :: "bytes \<Rightarrow> nat \<Rightarrow> string_result" where
  "pbeDecodeLongString buf sz = (case pbeDecodeUInt32 buf of
      None \<Rightarrow> StrOverrun
    | Some (len, n) \<Rightarrow> decode_string_body n (unat len) buf sz)"

section \<open>The portable bodies compute the native ones\<close>

lemma and_FF: "(w :: 'a::len word) AND 0xFF = take_bit 8 w"
proof -
  have "mask 8 = (0xFF :: 'a word)" by (simp add: mask_eq_exp_minus_1)
  then show ?thesis by (simp add: take_bit_eq_mask)
qed

lemma and_FFFFFFFF: "(w :: 'a::len word) AND 0xFFFFFFFF = take_bit 32 w"
proof -
  have "mask 32 = (0xFFFFFFFF :: 'a word)" by (simp add: mask_eq_exp_minus_1)
  then show ?thesis by (simp add: take_bit_eq_mask)
qed

lemma ucast_and_FF: "(ucast ((w::'a::len word) AND 0xFF) :: uint8) = ucast w"
  unfolding and_FF by (rule bit_word_eqI) (auto simp: bit_unsigned_iff bit_take_bit_iff)

lemma ucast_and_FFFFFFFF: "(ucast ((w::uint64) AND 0xFFFFFFFF) :: uint32) = ucast w"
  unfolding and_FFFFFFFF by (rule bit_word_eqI) (auto simp: bit_unsigned_iff bit_take_bit_iff)

lemma ucast_signed:
  "n + 8 \<le> LENGTH('a::len) \<Longrightarrow> (ucast (signed_drop_bit n (w::'a word)) :: uint8) = ucast (drop_bit n w)"
  by (rule bit_word_eqI) (simp only: bit_unsigned_iff bit_signed_drop_bit_iff bit_drop_bit_eq, auto)

lemma ucast_signed_32: "(ucast (signed_drop_bit 32 (w::uint64)) :: uint32) = ucast (drop_bit 32 w)"
  by (rule bit_word_eqI) (simp only: bit_unsigned_iff bit_signed_drop_bit_iff bit_drop_bit_eq, auto)

lemma ucast_ucast_byte: "(ucast (ucast (w::uint64) :: uint32) :: uint8) = ucast w"
  by (rule bit_word_eqI) (auto simp: bit_unsigned_iff)

lemma join16_bytes: "join16 (ucast w) (ucast (drop_bit 8 w)) = w"
  by (rule bit_word_eqI)
    (auto simp: join16_def bit_or_iff bit_push_bit_iff bit_unsigned_iff bit_drop_bit_eq not_less
      simp del: push_bit_of_1)

lemma join32_bytes:
  "join32 (ucast w) (ucast (drop_bit 8 w)) (ucast (drop_bit 16 w)) (ucast (drop_bit 24 w)) = w"
proof (rule bit_word_eqI)
  fix i :: nat
  assume "i < LENGTH(32)"
  then consider "i < 8" | "8 \<le> i" "i < 16" | "16 \<le> i" "i < 24" | "24 \<le> i" "i < 32" by fastforce
  then show "bit (join32 (ucast w) (ucast (drop_bit 8 w)) (ucast (drop_bit 16 w))
      (ucast (drop_bit 24 w))) i = bit w i"
    by cases (auto simp: join32_def bit_or_iff bit_push_bit_iff bit_unsigned_iff bit_drop_bit_eq)
qed

lemma join64_halves: "join64 (ucast w) (ucast (drop_bit 32 w)) = w"
  by (rule bit_word_eqI)
    (auto simp: join64_def bit_or_iff bit_push_bit_iff bit_unsigned_iff bit_drop_bit_eq not_less)

lemma ucast_drop_half:
  "n + 8 \<le> 32 \<Longrightarrow> (ucast (drop_bit n (ucast (w::uint64) :: uint32)) :: uint8) = ucast (drop_bit n w)"
  by (rule bit_word_eqI) (auto simp: bit_unsigned_iff bit_drop_bit_eq)

lemma ucast_drop_high:
  "(ucast (drop_bit n (ucast (drop_bit 32 (w::uint64)) :: uint32)) :: uint8) = ucast (drop_bit (32 + n) w)" if "n + 8 \<le> 32"
  using that by (intro bit_word_eqI) (auto simp: bit_unsigned_iff bit_drop_bit_eq algebra_simps)

lemmas pbe_byte_simps = ucast_and_FF ucast_and_FFFFFFFF ucast_signed ucast_signed_32 ucast_ucast_byte ucast_drop_half ucast_drop_high

lemma upt_8: "[0..<8] = [0, 1, 2, 3, 4, 5, 6, 7::nat]" by (simp add: upt_rec)

lemma upt_4: "[0..<4] = [0, 1, 2, 3::nat]" by (simp add: upt_rec)

lemma upt_2: "[0..<2] = [0, 1::nat]" by (simp add: upt_rec)

lemma pbe_native:
  "pbeEncodeInt16 a = mem_bytes 2 a" "pbeEncodeUInt16 a = mem_bytes 2 a"
  "pbeEncodeInt32 b = mem_bytes 4 b" "pbeEncodeUInt32 b = mem_bytes 4 b"
  by (simp_all add: pbeEncodeInt16_def pbeEncodeUInt16_def pbeEncodeInt32_def pbeEncodeUInt32_def
    mem_bytes_def upt_8 upt_4 upt_2 pbe_byte_simps)

lemma pbe_native64:
  "pbeEncodeInt64 c = mem_bytes 8 c" "pbeEncodeUInt64 c = mem_bytes 8 c"
  by (simp_all add: pbeEncodeInt64_def pbeEncodeUInt64_def Let_def
    mem_bytes_def upt_8 pbe_byte_simps)

lemma mem_word_bit:
  "bit (mem_word bs :: 'a::len word) i \<longleftrightarrow> i < LENGTH('a) \<and> i div 8 < length bs \<and> bit (bs ! (i div 8)) (i mod 8)"
proof (induction bs arbitrary: i)
  case (Cons b bs)
  show ?case
  proof (cases "i < 8")
    case True
    then show ?thesis by (auto simp: bit_or_iff bit_unsigned_iff bit_push_bit_iff)
  next
    case False
    then have "i div 8 = Suc ((i - 8) div 8)" "i mod 8 = (i - 8) mod 8"
      by (simp_all add: le_div_geq le_mod_geq)
    then show ?thesis
      using False Cons [of "i - 8"]
      by (auto simp: bit_or_iff bit_unsigned_iff bit_push_bit_iff dest: bit_imp_le_length)
  qed
qed simp

lemma mem_word_bytes: "LENGTH('a::len) = 8 * n \<Longrightarrow> mem_word (mem_bytes n w) = (w :: 'a word)"
  by (rule bit_word_eqI)
    (auto simp: mem_word_bit mem_bytes_def bit_unsigned_iff bit_drop_bit_eq)

lemma mem_bytes_inj: "LENGTH('a::len) = 8 * n \<Longrightarrow> mem_bytes n v = mem_bytes n w \<Longrightarrow> v = (w :: 'a word)"
  by (metis mem_word_bytes)

lemma join16_mem: "join16 b0 b1 = mem_word [b0, b1]"
  by (simp add: join16_def)

lemma join32_mem: "join32 b0 b1 b2 b3 = mem_word [b0, b1, b2, b3]"
  by (simp add: join32_def push_bit_or or.assoc)

lemma mem_word_append:
  "mem_word (xs @ ys) = mem_word xs OR push_bit (8 * length xs) (mem_word ys :: 'a::len word)"
  by (induction xs) (simp_all add: push_bit_or or.assoc add.commute)

lemma ucast_mem_word:
  "8 * length bs \<le> LENGTH('b::len) \<Longrightarrow> ucast (mem_word bs :: 'b word) = (mem_word bs :: 'a::len word)"
  by (rule bit_word_eqI) (auto simp: bit_unsigned_iff mem_word_bit)

lemma join64_mem:
  "join64 (join32 b0 b1 b2 b3) (join32 b4 b5 b6 b7) = mem_word [b0, b1, b2, b3, b4, b5, b6, b7]"
  using mem_word_append [of "[b0, b1, b2, b3]" "[b4, b5, b6, b7]", where 'a = 64]
  unfolding join64_def join32_mem by (subst (1 2) ucast_mem_word) (simp_all add: or.commute)

lemma pbe_decode_native:
  "pbeDecodeInt16 buf = native_load 2 buf" "pbeDecodeUInt16 buf = native_load 2 buf"
  by (cases buf rule: pbeDecodeInt16.cases; simp add: native_load_def join16_mem numeral_2_eq_2)+

lemma pbe_decode_native32:
  "pbeDecodeInt32 buf = native_load 4 buf" "pbeDecodeUInt32 buf = native_load 4 buf"
  by (cases buf rule: pbeDecodeInt32.cases;
      simp add: native_load_def join32_mem eval_nat_numeral del: mem_word.simps)+

lemma pbe_decode_native64:
  "pbeDecodeInt64 buf = native_load 8 buf" "pbeDecodeUInt64 buf = native_load 8 buf"
  by (cases buf rule: pbeDecodeInt64.cases;
      simp add: native_load_def join64_mem eval_nat_numeral del: mem_word.simps)+

lemmas pbe_native_simps = pbe_native pbe_native64 pbe_decode_native pbe_decode_native32 pbe_decode_native64

lemma length_mem_bytes [simp]: "length (mem_bytes n w) = n"
  by (simp add: mem_bytes_def)

lemma native_load_bytes:
  "LENGTH('a::len) = 8 * n \<Longrightarrow> native_load n (mem_bytes n w @ rest) = Some (w :: 'a word, n)"
  by (simp add: native_load_def mem_word_bytes)

lemma native_load_bounds: "native_load n buf = Some (w, k) \<Longrightarrow> k = n \<and> n \<le> length buf"
  by (simp add: native_load_def split: if_splits)

lemma native_load_None: "native_load n buf = None \<longleftrightarrow> length buf < n"
  by (auto simp: native_load_def)

interpretation pbe16: codec pbeEncodeUInt16 pbeDecodeUInt16 "\<lambda>_. 2" "\<lambda>_. True"
  by unfold_locales (simp_all add: pbe_native_simps native_load_bytes)

interpretation pbe32: codec pbeEncodeUInt32 pbeDecodeUInt32 "\<lambda>_. 4" "\<lambda>_. True"
  by unfold_locales (simp_all add: pbe_native_simps native_load_bytes)

interpretation pbe64: codec pbeEncodeUInt64 pbeDecodeUInt64 "\<lambda>_. 8" "\<lambda>_. True"
  by unfold_locales (simp_all add: pbe_native_simps native_load_bytes)

lemma decode_string_body_encoded:
  "length s < sz \<Longrightarrow> length pre = k \<Longrightarrow>
    decode_string_body k (length s) (pre @ s @ rest) sz = StrOk (s @ [0]) (k + length s)"
  by (auto simp: decode_string_body_def)

lemma tiny_string_roundtrip:
  "pbeEncodeTinyString s = Some enc \<Longrightarrow> length s < sz \<Longrightarrow>
    pbeDecodeTinyString (enc @ rest) sz = StrOk (s @ [0]) (length enc)"
  using decode_string_body_encoded [of s sz "[of_nat (length s)]" 1 rest]
  by (auto simp: pbeEncodeTinyString_def pbeDecodeTinyString_def unat_of_nat split: if_splits)

lemma short_string_roundtrip:
  "pbeEncodeShortString s = Some enc \<Longrightarrow> length s < sz \<Longrightarrow>
    pbeDecodeShortString (enc @ rest) sz = StrOk (s @ [0]) (length enc)"
  using decode_string_body_encoded [of s sz "pbeEncodeUInt16 (of_nat (length s))" 2 rest]
  by (auto simp: pbeEncodeShortString_def pbeDecodeShortString_def unat_of_nat pbe_native_simps native_load_bytes split: if_splits)

lemma long_string_roundtrip:
  "pbeEncodeLongString s = Some enc \<Longrightarrow> length s < sz \<Longrightarrow>
    pbeDecodeLongString (enc @ rest) sz = StrOk (s @ [0]) (length enc)"
  using decode_string_body_encoded [of s sz "pbeEncodeUInt32 (of_nat (length s))" 4 rest]
  by (auto simp: pbeEncodeLongString_def pbeDecodeLongString_def unat_of_nat pbe_native_simps native_load_bytes split: if_splits)

section \<open>Properties\<close>

text \<open>The portable bodies and the native little-endian bodies of the plain encoders and decoders
  agree for every width, signed and unsigned, on every value and every buffer, so the file format does
  not depend on which of them is compiled.\<close>

theorem pbe_portable_eq_native:
  "pbeEncodeInt16 a = mem_bytes 2 a \<and> pbeEncodeUInt16 a = mem_bytes 2 a \<and>
   pbeEncodeInt32 b = mem_bytes 4 b \<and> pbeEncodeUInt32 b = mem_bytes 4 b \<and>
   pbeEncodeInt64 c = mem_bytes 8 c \<and> pbeEncodeUInt64 c = mem_bytes 8 c \<and>
   pbeDecodeInt16 buf = native_load 2 buf \<and> pbeDecodeUInt16 buf = native_load 2 buf \<and>
   pbeDecodeInt32 buf = native_load 4 buf \<and> pbeDecodeUInt32 buf = native_load 4 buf \<and>
   pbeDecodeInt64 buf = native_load 8 buf \<and> pbeDecodeUInt64 buf = native_load 8 buf"
  by (simp add: pbe_native_simps)

text \<open>Integers and the bit patterns of floating point numbers are read back by the decoder of their
  width, in the middle of a buffer too.\<close>

theorem pbe_roundtrip:
  "pbeDecodeInt16 (pbeEncodeInt16 a @ rest) = Some (a, 2) \<and>
   pbeDecodeInt32 (pbeEncodeInt32 b @ rest) = Some (b, 4) \<and>
   pbeDecodeInt64 (pbeEncodeInt64 c @ rest) = Some (c, 8) \<and>
   pbeDecodeUInt16 (pbeEncodeUInt16 a @ rest) = Some (a, 2) \<and>
   pbeDecodeFloat (pbeEncodeFloat b @ rest) = Some (b, 4) \<and>
   pbeDecodeDouble (pbeEncodeDouble c @ rest) = Some (c, 8) \<and>
   pbeDecodeBinary (pbeEncodeBinary d @ rest) (length d) = Some (d, length d)"
  by (simp add: pbe_native_simps native_load_bytes pbeDecodeFloat_def pbeEncodeFloat_def
      pbeDecodeDouble_def pbeEncodeDouble_def pbeDecodeBinary_def pbeEncodeBinary_def)

text \<open>A string that an encoder accepts is read back with its terminator by the matching decoder
  when the destination has room for it, and the encoders refuse exactly the strings whose length does
  not fit their prefix.\<close>

theorem pbe_string_roundtrip:
  assumes "length s < sz"
  shows "(pbeEncodeTinyString s = None \<longleftrightarrow> 2 ^ 8 \<le> length s) \<and>
    (pbeEncodeShortString s = None \<longleftrightarrow> 2 ^ 16 \<le> length s) \<and>
    (pbeEncodeLongString s = None \<longleftrightarrow> 2 ^ 32 \<le> length s) \<and>
    (\<forall>enc. pbeEncodeTinyString s = Some enc \<longrightarrow>
       pbeDecodeTinyString (enc @ rest) sz = StrOk (s @ [0]) (length enc)) \<and>
    (\<forall>enc. pbeEncodeShortString s = Some enc \<longrightarrow>
       pbeDecodeShortString (enc @ rest) sz = StrOk (s @ [0]) (length enc)) \<and>
    (\<forall>enc. pbeEncodeLongString s = Some enc \<longrightarrow>
       pbeDecodeLongString (enc @ rest) sz = StrOk (s @ [0]) (length enc))"
  using assms tiny_string_roundtrip [of s _ sz rest] short_string_roundtrip [of s _ sz rest]
    long_string_roundtrip [of s _ sz rest]
  by (auto simp: pbeEncodeTinyString_def pbeEncodeShortString_def pbeEncodeLongString_def)

theorem pbe_string_roundtrip_witness:
  "pbeEncodeTinyString [104, 105] = Some [2, 104, 105] \<and>
   pbeDecodeTinyString ([2, 104, 105] @ [9]) 3 = StrOk [104, 105, 0] 3"
proof -
  have e: "pbeEncodeTinyString [104, 105] = Some [2, 104, 105]"
    by (simp add: pbeEncodeTinyString_def)
  with pbe_string_roundtrip [of "[104, 105]" 3 "[9]"] show ?thesis by simp
qed

text \<open>The portable bodies of the 32-bit and 64-bit zero encoders skip the byte at offset 2 and store
  past the end of a buffer of exactly the right size.\<close>

theorem pbe_zero_portable_defect:
  "pbeEncodeZero16 [b0, b1] = Some [0, 0] \<and>
   pbeEncodeZero32 [b0, b1, b2, b3] = None \<and>
   pbeEncodeZero32 [b0, b1, b2, b3, b4] = Some [0, 0, b2, 0, 0] \<and>
   pbeEncodeZero64 [b0, b1, b2, b3, b4, b5, b6, b7] = None \<and>
   pbeEncodeZero64 [b0, b1, b2, b3, b4, b5, b6, b7, b8] = Some [0, 0, b2, 0, 0, 0, 0, 0, 0]"
  by (simp add: pbeEncodeZero16_def pbeEncodeZero32_def pbeEncodeZero64_def eval_nat_numeral)

end
