(* ===== verification/DateTime.thy ===== *)
theory DateTime
  imports PlainBinary "HOL-Library.Product_Lexorder" "HOL-Library.Option_ord"
    "HOL-Library.Signed_Division"
begin

text \<open>
  Date and time values (\<open>RawDateTime.h\<close>, \<open>RawDateTime.cpp\<close>).  The structures are packed bit-fields; a
  field of \<open>n\<close> bits is a word of length \<open>n\<close>, read as a signed number where the C++ type is \<^verbatim>\<open>int\<close>.
  \<open>rawdate_image\<close> and \<open>rawtime_image\<close> are the 32-bit and 64-bit memory images of the structures, which
  the code accesses by casting pointers.  Both preprocessor branches of the serialization are modelled.
\<close>

section \<open>Structures\<close>

record RawDate =
  m_hasTimePart :: bool
  m_dayOfWeek :: "3 word"
  m_dayOfMonth :: "5 word"
  m_month :: "4 word"
  m_year :: "19 word"

record RawTime =
  m_reserved1 :: bool
  m_nanos :: "30 word"
  m_seconds :: "6 word"
  m_minutes :: "6 word"
  m_hours :: "5 word"
  m_reserved2 :: "16 word"

record RawDateTime =
  m_timePart :: RawTime
  m_datePart :: RawDate

definition kMinYear :: int where "kMinYear = -262144"
definition kMaxYear :: int where "kMaxYear = 262143"
definition kNanosecondsPerDay :: int where "kNanosecondsPerDay = 86400000000000"

definition kZeroRawDate :: RawDate where
  "kZeroRawDate = \<lparr>m_hasTimePart = False, m_dayOfWeek = 6, m_dayOfMonth = 0, m_month = 0, m_year = 0\<rparr>"

definition kZeroRawTime :: RawTime where
  "kZeroRawTime = \<lparr>m_reserved1 = False, m_nanos = 0, m_seconds = 0, m_minutes = 0, m_hours = 0,
    m_reserved2 = 0\<rparr>"

definition rawdate_image :: "RawDate \<Rightarrow> uint32" where
  "rawdate_image d =
    (if m_hasTimePart d then 1 else 0) OR push_bit 1 (ucast (m_dayOfWeek d)) OR
    push_bit 4 (ucast (m_dayOfMonth d)) OR push_bit 9 (ucast (m_month d)) OR
    push_bit 13 (ucast (m_year d))"

definition rawdate_of_image :: "uint32 \<Rightarrow> RawDate" where
  "rawdate_of_image w =
    \<lparr>m_hasTimePart = bit w 0, m_dayOfWeek = ucast (drop_bit 1 w), m_dayOfMonth = ucast (drop_bit 4 w),
     m_month = ucast (drop_bit 9 w), m_year = ucast (drop_bit 13 w)\<rparr>"

definition rawtime_image :: "RawTime \<Rightarrow> uint64" where
  "rawtime_image t =
    (if m_reserved1 t then 1 else 0) OR push_bit 1 (ucast (m_nanos t)) OR
    push_bit 31 (ucast (m_seconds t)) OR push_bit 37 (ucast (m_minutes t)) OR
    push_bit 43 (ucast (m_hours t)) OR push_bit 48 (ucast (m_reserved2 t))"

definition rawtime_of_image :: "uint64 \<Rightarrow> RawTime" where
  "rawtime_of_image w =
    \<lparr>m_reserved1 = bit w 0, m_nanos = ucast (drop_bit 1 w), m_seconds = ucast (drop_bit 31 w),
     m_minutes = ucast (drop_bit 37 w), m_hours = ucast (drop_bit 43 w),
     m_reserved2 = ucast (drop_bit 48 w)\<rparr>"

section \<open>Comparisons\<close>

definition rawdate_eq :: "RawDate \<Rightarrow> RawDate \<Rightarrow> bool" where
  "rawdate_eq a b \<longleftrightarrow> rawdate_image a = rawdate_image b"

definition rawdate_gt :: "RawDate \<Rightarrow> RawDate \<Rightarrow> bool" where
  "rawdate_gt a b \<longleftrightarrow>
    (if sint (m_year a) > sint (m_year b) then True
     else if sint (m_year a) < sint (m_year b) then False
     else if m_month a > m_month b then True
     else if m_month a < m_month b then False
     else m_dayOfMonth a > m_dayOfMonth b)"

definition rawdate_ge :: "RawDate \<Rightarrow> RawDate \<Rightarrow> bool" where
  "rawdate_ge a b \<longleftrightarrow>
    (if sint (m_year a) > sint (m_year b) then True
     else if sint (m_year a) < sint (m_year b) then False
     else if m_month a > m_month b then True
     else if m_month a < m_month b then False
     else m_dayOfMonth a \<ge> m_dayOfMonth b)"

definition rawdate_lt :: "RawDate \<Rightarrow> RawDate \<Rightarrow> bool" where
  "rawdate_lt a b \<longleftrightarrow> \<not> rawdate_ge a b"

definition rawdate_le :: "RawDate \<Rightarrow> RawDate \<Rightarrow> bool" where
  "rawdate_le a b \<longleftrightarrow> \<not> rawdate_gt a b"

definition rawtime_eq :: "RawTime \<Rightarrow> RawTime \<Rightarrow> bool" where
  "rawtime_eq a b \<longleftrightarrow> rawtime_image a = rawtime_image b"

definition rawtime_gt :: "RawTime \<Rightarrow> RawTime \<Rightarrow> bool" where
  "rawtime_gt a b \<longleftrightarrow>
    (if m_hours a > m_hours b then True
     else if m_hours a < m_hours b then False
     else if m_minutes a > m_minutes b then True
     else if m_minutes a < m_minutes b then False
     else if m_seconds a > m_seconds b then True
     else if m_seconds a < m_seconds b then False
     else m_nanos a > m_nanos b)"

definition rawtime_ge :: "RawTime \<Rightarrow> RawTime \<Rightarrow> bool" where
  "rawtime_ge a b \<longleftrightarrow>
    (if m_hours a > m_hours b then True
     else if m_hours a < m_hours b then False
     else if m_minutes a > m_minutes b then True
     else if m_minutes a < m_minutes b then False
     else if m_seconds a > m_seconds b then True
     else if m_seconds a < m_seconds b then False
     else m_nanos a \<ge> m_nanos b)"

definition rawdatetime_eq :: "RawDateTime \<Rightarrow> RawDateTime \<Rightarrow> bool" where
  "rawdatetime_eq a b \<longleftrightarrow>
    rawdate_eq (m_datePart a) (m_datePart b) \<and>
    (\<not> m_hasTimePart (m_datePart a) \<or> rawtime_eq (m_timePart a) (m_timePart b))"

definition rawdatetime_ne :: "RawDateTime \<Rightarrow> RawDateTime \<Rightarrow> bool" where
  "rawdatetime_ne a b \<longleftrightarrow>
    \<not> rawdate_eq (m_datePart a) (m_datePart b) \<or>
    (m_hasTimePart (m_datePart a) \<and> \<not> rawtime_eq (m_timePart a) (m_timePart b))"

definition rawdatetime_gt :: "RawDateTime \<Rightarrow> RawDateTime \<Rightarrow> bool" where
  "rawdatetime_gt a b \<longleftrightarrow>
    (if rawdate_gt (m_datePart a) (m_datePart b) then True
     else if rawdate_lt (m_datePart a) (m_datePart b) then False
     else if m_hasTimePart (m_datePart a) \<and> m_hasTimePart (m_datePart b)
     then rawtime_gt (m_timePart a) (m_timePart b)
     else m_hasTimePart (m_datePart a))"

definition rawdatetime_ge :: "RawDateTime \<Rightarrow> RawDateTime \<Rightarrow> bool" where
  "rawdatetime_ge a b \<longleftrightarrow>
    (if rawdate_gt (m_datePart a) (m_datePart b) then True
     else if rawdate_lt (m_datePart a) (m_datePart b) then False
     else if m_hasTimePart (m_datePart a) \<and> m_hasTimePart (m_datePart b)
     then rawtime_ge (m_timePart a) (m_timePart b)
     else \<not> m_hasTimePart (m_datePart b))"

definition rawdatetime_lt :: "RawDateTime \<Rightarrow> RawDateTime \<Rightarrow> bool" where
  "rawdatetime_lt a b \<longleftrightarrow> \<not> rawdatetime_ge a b"

definition rawdatetime_le :: "RawDateTime \<Rightarrow> RawDateTime \<Rightarrow> bool" where
  "rawdatetime_le a b \<longleftrightarrow> \<not> rawdatetime_gt a b"

text \<open>\<open>RawTime::toEpochTimestamp\<close>: seconds since midnight.\<close>

definition rawtime_toEpochTimestamp :: "RawTime \<Rightarrow> int" where
  "rawtime_toEpochTimestamp t = uint (m_seconds t) + 60 * uint (m_minutes t) + 3600 * uint (m_hours t)"

section \<open>Serialization\<close>

definition kTimeMask :: uint64 where "kTimeMask = 0xFFFFFFFFFFFF"

definition rawdatetime_getSerializedSize :: "RawDateTime \<Rightarrow> nat" where
  "rawdatetime_getSerializedSize dt = (if m_hasTimePart (m_datePart dt) then 10 else 4)"

text \<open>The x86 branch.\<close>

definition rawdatetime_serialize :: "RawDateTime \<Rightarrow> bytes" where
  "rawdatetime_serialize dt =
    (let timePart = rawtime_image (m_timePart dt) AND kTimeMask;
         rawDatePart = (m_datePart dt) \<lparr>m_hasTimePart := timePart \<noteq> 0\<rparr>;
         date = mem_bytes 4 (rawdate_image rawDatePart) in
     if timePart = 0 then date
     else date @ mem_bytes 4 (ucast timePart :: uint32) @
       mem_bytes 2 (ucast (drop_bit 32 timePart) :: uint16))"

definition rawdatetime_deserialize :: "RawDateTime \<Rightarrow> bytes \<Rightarrow> RawDateTime \<times> nat" where
  "rawdatetime_deserialize dt buf =
    (if length buf < 4 then (dt, 0)
     else
       let date = rawdate_of_image (mem_word (take 4 buf)); dt = dt\<lparr>m_datePart := date\<rparr> in
       if \<not> m_hasTimePart date then (dt\<lparr>m_timePart := rawtime_of_image 0\<rparr>, 4)
       else if length buf < 10 then (dt, 0)
       else (dt\<lparr>m_timePart := rawtime_of_image (mem_word (slice buf 4 4 @ slice buf 8 2 @ [0, 0]))\<rparr>,
             10))"

text \<open>The generic branch.  Only the encoder is needed: it sets the flag but never clears it.\<close>

definition rawdatetime_serialize_generic :: "RawDateTime \<Rightarrow> bytes" where
  "rawdatetime_serialize_generic dt =
    (let timePart = rawtime_image (m_timePart dt) AND kTimeMask;
         rawDatePart = (if timePart \<noteq> 0 then (m_datePart dt) \<lparr>m_hasTimePart := True\<rparr>
                        else m_datePart dt);
         date = pbeEncodeUInt32 (rawdate_image rawDatePart) in
     if timePart = 0 then date
     else date @ take 6 (pbeEncodeUInt64 timePart))"

definition rawdatetime_deserializeDatePart :: "RawDateTime \<Rightarrow> bytes \<Rightarrow> RawDateTime" where
  "rawdatetime_deserializeDatePart dt buf =
    (let date = rawdate_of_image (mem_word (take 4 buf)); dt = dt\<lparr>m_datePart := date\<rparr> in
     if m_hasTimePart date then dt else dt\<lparr>m_timePart := rawtime_of_image 0\<rparr>)"

section \<open>Parsing, formatting and the calendar\<close>

text \<open>The day number that \<open>format\<close> computes from the civil date, counted from 1970-01-01; months and
  days are counted from 0.  \<^term>\<open>(sdiv)\<close> is the truncating division of C++.\<close>

definition civil_days :: "int \<Rightarrow> int \<Rightarrow> int \<Rightarrow> int" where
  "civil_days year month dayOfMonth =
    (let y = year - (if month \<le> 1 then 1 else 0);
         era = (if y \<ge> 0 then y else y - 399) sdiv 400;
         yoe = y - era * 400;
         doy = (153 * (if month > 1 then month - 2 else month + 10) + 2) div 5 + dayOfMonth;
         doe = yoe * 365 + yoe div 4 - yoe div 100 + doy
     in era * 146097 + doe - 719468)"

definition format_days :: "RawDate \<Rightarrow> int" where
  "format_days d = civil_days (sint (m_year d)) (uint (m_month d)) (uint (m_dayOfMonth d))"

text \<open>Nanoseconds since the epoch, which \<open>format\<close> hands to the date library.\<close>

definition format_duration :: "RawDateTime \<Rightarrow> int" where
  "format_duration dt =
    format_days (m_datePart dt) * kNanosecondsPerDay +
    (uint (m_hours (m_timePart dt)) * 3600 + uint (m_minutes (m_timePart dt)) * 60 +
     uint (m_seconds (m_timePart dt))) * 1000000000 +
    uint (m_nanos (m_timePart dt))"

text \<open>\<open>parse\<close> relies on the date library for three things: \<open>scan\<close> parses a string into nanoseconds since
  the epoch, \<open>ymd\<close> gives the civil date of a day number (months and days from 1) and \<open>weekday\<close> the day of
  the week (0 is Sunday).\<close>

datatype parse_error = DateTimeEmpty | DateTimeNull | DateTimeInvalid | DateTimeYearRange

definition rawdatetime_parse ::
  "(string \<Rightarrow> string \<Rightarrow> int option) \<Rightarrow> (int \<Rightarrow> int \<times> nat \<times> nat) \<Rightarrow> (int \<times> nat \<times> nat \<Rightarrow> nat) \<Rightarrow>
   string option \<Rightarrow> nat \<Rightarrow> string \<Rightarrow> parse_error + RawDateTime" where
  "rawdatetime_parse scan ymd weekday s len fmt =
    (if len = 0 then Inl DateTimeEmpty
     else case s of
       None \<Rightarrow> Inl DateTimeNull
     | Some str \<Rightarrow>
        (case scan (take len str) fmt of
           None \<Rightarrow> Inl DateTimeInvalid
         | Some timePoint \<Rightarrow>
            (let (year, month, day) = ymd (timePoint div kNanosecondsPerDay) in
             if year < kMinYear \<or> year > kMaxYear then Inl DateTimeYearRange
             else
               let t0 = timePoint smod kNanosecondsPerDay;
                   t = (if t0 < 0 then t0 + kNanosecondsPerDay else t0);
                   time = \<lparr>m_reserved1 = False, m_nanos = word_of_int (t mod 1000000000),
                     m_seconds = word_of_int (t div 1000000000 mod 60),
                     m_minutes = word_of_int (t div 1000000000 div 60 mod 60),
                     m_hours = word_of_int (t div 1000000000 div 60 div 60 mod 24),
                     m_reserved2 = 0\<rparr>;
                   date = \<lparr>m_hasTimePart = (rawtime_image time \<noteq> rawtime_image kZeroRawTime),
                     m_dayOfWeek = of_nat (weekday (year, month, day)),
                     m_dayOfMonth = of_nat (day - 1), m_month = of_nat (month - 1),
                     m_year = word_of_int year\<rparr>
               in Inr \<lparr>m_timePart = time, m_datePart = date\<rparr>)))"

text \<open>\<open>formatDefault\<close> prints into a stack buffer; \<open>snprintf\<close> returns the length of the full text even when
  it does not fit, and \<^term>\<open>None\<close> stands for the read past the buffer that follows in that case.\<close>

fun dec_digits :: "nat \<Rightarrow> string" where
  "dec_digits n =
    (if n < 10 then [char_of (48 + n)] else dec_digits (n div 10) @ [char_of (48 + n mod 10)])"

definition fmt_d :: "int \<Rightarrow> string" where
  "fmt_d i = (if i < 0 then CHR ''-'' # dec_digits (nat (- i)) else dec_digits (nat i))"

definition fmt_02d :: "int \<Rightarrow> string" where
  "fmt_02d i = (if 0 \<le> i \<and> i < 10 then CHR ''0'' # fmt_d i else fmt_d i)"

definition kMaxDateTimeStringLength :: nat where "kMaxDateTimeStringLength = 33"
definition kMaxDateStringLength :: nat where "kMaxDateStringLength = 14"

definition snprintf_string :: "nat \<Rightarrow> string \<Rightarrow> string option" where
  "snprintf_string cap txt = (if length txt < cap then Some txt else None)"

definition formatDefault :: "RawDateTime \<Rightarrow> string option" where
  "formatDefault dt =
    (let d = m_datePart dt; t = m_timePart dt;
         dateText = fmt_d (sint (m_year d)) @ ''-'' @ fmt_02d (uint (m_month d) + 1) @ ''-'' @
           fmt_02d (uint (m_dayOfMonth d) + 1)
     in if m_hasTimePart d then
          snprintf_string kMaxDateTimeStringLength
            (dateText @ '' '' @ fmt_02d (uint (m_hours t)) @ '':'' @ fmt_02d (uint (m_minutes t)) @ '':'' @
             fmt_02d (uint (m_seconds t)) @ ''.'' @ fmt_d (uint (m_nanos t)))
        else snprintf_string kMaxDateStringLength dateText)"

definition getDayOfWeekShortName :: "nat \<Rightarrow> string option" where
  "getDayOfWeekShortName d = (if d < 7
    then Some ([''Sun'', ''Mon'', ''Tue'', ''Wed'', ''Thu'', ''Fri'', ''Sat''] ! d) else None)"

definition getDayMonthShortName :: "nat \<Rightarrow> string option" where
  "getDayMonthShortName m = (if m < 12
    then Some ([''Jan'', ''Feb'', ''Mar'', ''Apr'', ''May'', ''Jun'', ''Jul'', ''Aug'', ''Sep'', ''Oct'',
      ''Nov'', ''Dec''] ! m) else None)"

text \<open>The pair is the hour on the 12-hour dial and whether it is PM.\<close>

definition convertHours24To12 :: "nat \<Rightarrow> (nat \<times> bool) option" where
  "convertHours24To12 hours =
    (if hours > 23 then None
     else let pm = hours > 11; h = (if pm then hours - 12 else hours)
          in Some (if h = 0 then 12 else h, pm))"

section \<open>Reference definitions\<close>

definition leap_year :: "int \<Rightarrow> bool" where
  "leap_year y \<longleftrightarrow> 4 dvd y \<and> (\<not> 100 dvd y \<or> 400 dvd y)"

definition month_length :: "int \<Rightarrow> int \<Rightarrow> int" where
  "month_length y m =
    (if m = 1 then if leap_year y then 29 else 28
     else if m \<in> {3, 5, 8, 10} then 30 else 31)"

definition valid_civil :: "int \<times> int \<times> int \<Rightarrow> bool" where
  "valid_civil = (\<lambda>(y, m, d). 0 \<le> m \<and> m < 12 \<and> 0 \<le> d \<and> d < month_length y m)"

definition next_civil :: "int \<times> int \<times> int \<Rightarrow> int \<times> int \<times> int" where
  "next_civil = (\<lambda>(y, m, d).
    if d + 1 < month_length y m then (y, m, d + 1)
    else if m < 11 then (y, m + 1, 0) else (y + 1, 0, 0))"

definition civil_of :: "RawDate \<Rightarrow> int \<times> int \<times> int" where
  "civil_of d = (sint (m_year d), uint (m_month d), uint (m_dayOfMonth d))"

text \<open>The key by which values are ordered: the civil date, then the time of day, a value without time
  part first.\<close>

definition time_key :: "RawTime \<Rightarrow> 5 word \<times> 6 word \<times> 6 word \<times> 30 word" where
  "time_key t = (m_hours t, m_minutes t, m_seconds t, m_nanos t)"

definition date_key :: "RawDate \<Rightarrow> int \<times> 4 word \<times> 5 word" where
  "date_key d = (sint (m_year d), m_month d, m_dayOfMonth d)"

definition datetime_key where
  "datetime_key dt = (date_key (m_datePart dt),
    if m_hasTimePart (m_datePart dt) then Some (time_key (m_timePart dt)) else None)"

definition year_days :: "int \<Rightarrow> int" where
  "year_days y = 365 * y + y div 4 - y div 100 + y div 400"

section \<open>Memory images\<close>

lemma bit_image_date:
  "bit (rawdate_image d) i \<longleftrightarrow>
    (if i = 0 then m_hasTimePart d else if i < 4 then bit (m_dayOfWeek d) (i - 1)
     else if i < 9 then bit (m_dayOfMonth d) (i - 4) else if i < 13 then bit (m_month d) (i - 9)
     else i < 32 \<and> bit (m_year d) (i - 13))"
  using bit_imp_le_length [of "m_dayOfWeek d" "i - 1"] bit_imp_le_length [of "m_dayOfMonth d" "i - 4"]
    bit_imp_le_length [of "m_month d" "i - 9"] bit_imp_le_length [of "m_year d" "i - 13"]
  unfolding rawdate_image_def bit_or_iff bit_push_bit_iff bit_unsigned_iff
  by (auto simp: bit_1_iff)

lemma rawdate_roundtrip [simp]: "rawdate_of_image (rawdate_image d) = d"
proof (rule RawDate.equality)
  show "m_dayOfWeek (rawdate_of_image (rawdate_image d)) = m_dayOfWeek d"
    by (rule bit_word_eqI) (simp add: rawdate_of_image_def bit_unsigned_iff bit_drop_bit_eq bit_image_date)
  show "m_dayOfMonth (rawdate_of_image (rawdate_image d)) = m_dayOfMonth d"
    by (rule bit_word_eqI) (simp add: rawdate_of_image_def bit_unsigned_iff bit_drop_bit_eq bit_image_date)
  show "m_month (rawdate_of_image (rawdate_image d)) = m_month d"
    by (rule bit_word_eqI) (simp add: rawdate_of_image_def bit_unsigned_iff bit_drop_bit_eq bit_image_date)
  show "m_year (rawdate_of_image (rawdate_image d)) = m_year d"
    by (rule bit_word_eqI) (simp add: rawdate_of_image_def bit_unsigned_iff bit_drop_bit_eq bit_image_date)
qed (simp_all add: rawdate_of_image_def bit_image_date)

lemma bit_image_time:
  "bit (rawtime_image t) i \<longleftrightarrow>
    (if i = 0 then m_reserved1 t else if i < 31 then bit (m_nanos t) (i - 1)
     else if i < 37 then bit (m_seconds t) (i - 31) else if i < 43 then bit (m_minutes t) (i - 37)
     else if i < 48 then bit (m_hours t) (i - 43) else i < 64 \<and> bit (m_reserved2 t) (i - 48))"
  using bit_imp_le_length [of "m_nanos t" "i - 1"] bit_imp_le_length [of "m_seconds t" "i - 31"]
    bit_imp_le_length [of "m_minutes t" "i - 37"] bit_imp_le_length [of "m_hours t" "i - 43"]
    bit_imp_le_length [of "m_reserved2 t" "i - 48"]
  unfolding rawtime_image_def bit_or_iff bit_push_bit_iff bit_unsigned_iff
  by (auto simp: bit_1_iff)

lemma rawtime_roundtrip_masked:
  "rawtime_of_image (rawtime_image t AND kTimeMask) = t\<lparr>m_reserved2 := 0\<rparr>"
proof -
  have "mask 48 = kTimeMask" by (simp add: kTimeMask_def mask_eq_exp_minus_1)
  then have m: "rawtime_image t AND kTimeMask = take_bit 48 (rawtime_image t)"
    by (simp add: take_bit_eq_mask)
  show ?thesis
    unfolding m
  proof (rule RawTime.equality)
    let ?r = "rawtime_of_image (take_bit 48 (rawtime_image t))"
    show "m_nanos ?r = m_nanos (t\<lparr>m_reserved2 := 0\<rparr>)"
      by (rule bit_word_eqI) (simp add: rawtime_of_image_def bit_unsigned_iff bit_drop_bit_eq bit_take_bit_iff bit_image_time)
    show "m_seconds ?r = m_seconds (t\<lparr>m_reserved2 := 0\<rparr>)"
      by (rule bit_word_eqI) (simp add: rawtime_of_image_def bit_unsigned_iff bit_drop_bit_eq bit_take_bit_iff bit_image_time)
    show "m_minutes ?r = m_minutes (t\<lparr>m_reserved2 := 0\<rparr>)"
      by (rule bit_word_eqI) (simp add: rawtime_of_image_def bit_unsigned_iff bit_drop_bit_eq bit_take_bit_iff bit_image_time)
    show "m_hours ?r = m_hours (t\<lparr>m_reserved2 := 0\<rparr>)"
      by (rule bit_word_eqI) (simp add: rawtime_of_image_def bit_unsigned_iff bit_drop_bit_eq bit_take_bit_iff bit_image_time)
    show "m_reserved2 ?r = m_reserved2 (t\<lparr>m_reserved2 := 0\<rparr>)"
      by (rule bit_word_eqI) (simp add: rawtime_of_image_def bit_unsigned_iff bit_drop_bit_eq bit_take_bit_iff)
  qed (simp_all add: rawtime_of_image_def bit_image_time bit_take_bit_iff)
qed

lemma rawtime_image_inj: "rawtime_image a = rawtime_image b \<longleftrightarrow> a = b"
proof
  assume eq: "rawtime_image a = rawtime_image b"
  then have "a\<lparr>m_reserved2 := 0\<rparr> = b\<lparr>m_reserved2 := 0\<rparr>" by (metis rawtime_roundtrip_masked)
  moreover have "m_reserved2 a = m_reserved2 b"
  proof (rule bit_word_eqI)
    fix i assume "i < LENGTH(16)"
    then show "bit (m_reserved2 a) i = bit (m_reserved2 b) i"
      using bit_image_time [of a "i + 48"] bit_image_time [of b "i + 48"] eq by simp
  qed
  ultimately show "a = b"
    by (cases a, cases b) simp
qed simp

lemma rawdate_image_inj: "rawdate_image a = rawdate_image b \<longleftrightarrow> a = b"
  by (metis rawdate_roundtrip)

lemma time_bytes_split:
  assumes "take_bit 48 tp = (tp::uint64)"
  shows "mem_bytes 4 (ucast tp :: uint32) @ mem_bytes 2 (ucast (drop_bit 32 tp) :: uint16) @ [0, 0] = mem_bytes 8 tp"
proof -
  have h: "(ucast (drop_bit n (ucast (drop_bit 32 tp) :: uint16)) :: uint8) = ucast (drop_bit (32 + n) tp)"
    if "n \<le> 8" for n
    using that by (intro bit_word_eqI) (auto simp: bit_unsigned_iff bit_drop_bit_eq algebra_simps)
  have h0: "(ucast (ucast (drop_bit 32 tp) :: uint16) :: uint8) = ucast (drop_bit 32 tp)"
    using h [of 0] by simp
  have z: "(ucast (drop_bit n tp) :: uint8) = 0" if "48 \<le> n" for n
    using that by (subst assms [symmetric], intro bit_word_eqI)
      (simp add: bit_unsigned_iff bit_drop_bit_eq bit_take_bit_iff)
  show ?thesis
    by (simp add: mem_bytes_def upt_8 upt_4 upt_2 ucast_drop_half ucast_ucast_byte h h0 z)
qed

lemma rawdatetime_roundtrip:
  assumes "tp = rawtime_image (m_timePart dt) AND kTimeMask"
  shows "rawdatetime_deserialize old (rawdatetime_serialize dt @ rest) =
    (\<lparr>m_timePart = (m_timePart dt)\<lparr>m_reserved2 := 0\<rparr>,
      m_datePart = (m_datePart dt)\<lparr>m_hasTimePart := tp \<noteq> 0\<rparr>\<rparr>, if tp \<noteq> 0 then 10 else 4)"
proof (cases "tp = 0")
  case True
  then have "rawtime_of_image 0 = (m_timePart dt)\<lparr>m_reserved2 := 0\<rparr>"
    using rawtime_roundtrip_masked [of "m_timePart dt"] assms by simp
  then show ?thesis
    using True assms [symmetric]
    by (simp add: rawdatetime_serialize_def rawdatetime_deserialize_def Let_def mem_word_bytes)
next
  case False
  have "mask 48 = kTimeMask" by (simp add: kTimeMask_def mask_eq_exp_minus_1)
  then have "take_bit 48 tp = tp" unfolding assms by (simp add: take_bit_eq_mask and.assoc)
  note sp = time_bytes_split [OF this]
  then show ?thesis
    using False assms [symmetric] rawtime_roundtrip_masked [of "m_timePart dt"]
    by (simp add: rawdatetime_serialize_def rawdatetime_deserialize_def Let_def mem_word_bytes slice_def)
qed

lemma take_bit_time: "take_bit 48 (w AND kTimeMask) = w AND kTimeMask"
proof -
  have "mask 48 = kTimeMask" by (simp add: kTimeMask_def mask_eq_exp_minus_1)
  then show ?thesis by (simp add: take_bit_eq_mask and.assoc)
qed

lemma take_6_time_bytes:
  "take_bit 48 tp = (tp::uint64) \<Longrightarrow>
    take 6 (mem_bytes 8 tp) = mem_bytes 4 (ucast tp :: uint32) @ mem_bytes 2 (ucast (drop_bit 32 tp) :: uint16)"
  by (subst time_bytes_split [symmetric]) simp_all

lemma len_of_date: "LENGTH(32) = 8 * 4"
  by simp

lemma serialize_generic_eq:
  "rawdatetime_serialize_generic dt = rawdatetime_serialize dt \<longleftrightarrow>
    \<not> (m_hasTimePart (m_datePart dt) \<and> rawtime_image (m_timePart dt) AND kTimeMask = 0)"
proof -
  have upd: "d\<lparr>m_hasTimePart := False\<rparr> = d \<longleftrightarrow> \<not> m_hasTimePart d" for d :: RawDate
    by (cases d) simp
  define tp where "tp = rawtime_image (m_timePart dt) AND kTimeMask"
  show ?thesis
  proof (cases "tp = 0")
    case True
    have "mem_bytes 4 (rawdate_image d) = mem_bytes 4 (rawdate_image (d\<lparr>m_hasTimePart := False\<rparr>)) \<longleftrightarrow>
        \<not> m_hasTimePart d" for d
      using upd [of d] mem_bytes_inj [of 4 "rawdate_image d" "rawdate_image (d\<lparr>m_hasTimePart := False\<rparr>)"]
      by (metis (no_types) len_of_date rawdate_image_inj)
    then show ?thesis
      using True unfolding rawdatetime_serialize_generic_def rawdatetime_serialize_def Let_def
        pbe_native_simps tp_def [symmetric] by simp
  next
    case False
    have "take_bit 48 tp = tp" unfolding tp_def by (rule take_bit_time)
    from take_6_time_bytes [OF this] False show ?thesis
      unfolding rawdatetime_serialize_generic_def rawdatetime_serialize_def Let_def pbe_native_simps
        tp_def [symmetric] by simp
  qed
qed

lemma rawdate_order:
  "rawdate_gt a b \<longleftrightarrow> date_key b < date_key a" "rawdate_ge a b \<longleftrightarrow> date_key b \<le> date_key a"
  "rawdate_lt a b \<longleftrightarrow> date_key a < date_key b" "rawdate_le a b \<longleftrightarrow> date_key a \<le> date_key b"
proof -
  show g: "rawdate_gt a b \<longleftrightarrow> date_key b < date_key a" and h: "rawdate_ge a b \<longleftrightarrow> date_key b \<le> date_key a"
    by (auto simp: rawdate_gt_def rawdate_ge_def date_key_def)
  show "rawdate_lt a b \<longleftrightarrow> date_key a < date_key b" "rawdate_le a b \<longleftrightarrow> date_key a \<le> date_key b"
    using g h by (auto simp: rawdate_lt_def rawdate_le_def)
qed

lemma rawtime_order:
  "rawtime_gt a b \<longleftrightarrow> time_key b < time_key a" "rawtime_ge a b \<longleftrightarrow> time_key b \<le> time_key a"
  by (auto simp: rawtime_gt_def rawtime_ge_def time_key_def)

lemma rawdatetime_order:
  "rawdatetime_gt a b \<longleftrightarrow> datetime_key b < datetime_key a"
  "rawdatetime_ge a b \<longleftrightarrow> datetime_key b \<le> datetime_key a"
  by (auto simp: rawdatetime_gt_def rawdatetime_ge_def rawdate_order rawtime_order datetime_key_def
      split: if_splits)

section \<open>The calendar\<close>

lemma sdiv_400_floor: "(if y \<ge> 0 then y else y - 399) sdiv 400 = (y::int) div 400"
proof (cases "0 \<le> y")
  case False
  have "399 - y = 400 * - (y div 400) + (399 - y mod 400)"
    using div_mult_mod_eq [of y 400] by linarith
  then have "(399 - y) div 400 = - (y div 400)"
    by (rule int_div_pos_eq) (simp_all add: pos_mod_bound [of 400 y])
  then show ?thesis using False by (simp add: signed_divide_int_def)
next
  case True
  then show ?thesis by (cases "y = 0") (simp_all add: signed_divide_int_def)
qed

lemma year_days_split:
  assumes "0 \<le> r" and "r < 400"
  shows "year_days (400 * q + r) = q * 146097 + (r * 365 + r div 4 - r div 100)"
proof -
  have e: "400 * q + r = r + (100 * q) * 4" "400 * q + r = r + (4 * q) * 100" by simp_all
  have f4: "(400 * q + r) div 4 = 100 * q + r div 4"
    unfolding e(1) by (rule div_mult_self1) simp
  have f100: "(400 * q + r) div 100 = 4 * q + r div 100"
    unfolding e(2) by (rule div_mult_self1) simp
  have f400: "(400 * q + r) div 400 = q"
    using assms by (rule int_div_pos_eq [OF refl])
  show ?thesis unfolding year_days_def f4 f100 f400 by (simp add: algebra_simps)
qed

lemma year_days_era:
  "z div 400 * 146097 +
    ((z - z div 400 * 400) * 365 + (z - z div 400 * 400) div 4 - (z - z div 400 * 400) div 100) =
   year_days z"
  using year_days_split [of "z mod 400" "z div 400"] by (simp add: minus_div_mult_eq_mod)

lemma civil_days_eq:
  "civil_days y m d = year_days (if m \<le> 1 then y - 1 else y) +
    (153 * (if m > 1 then m - 2 else m + 10) + 2) div 5 + d - 719468"
  unfolding civil_days_def sdiv_400_floor Let_def year_days_era [symmetric] by simp

lemma div_pred: "0 < n \<Longrightarrow> (y::int) div n = (y - 1) div n + (if n dvd y then 1 else 0)"
proof -
  assume n: "0 < n"
  show ?thesis
  proof (cases "n dvd y")
    case True
    then obtain k where k: "y = n * k" by (elim dvdE)
    have "n * k - 1 = n * (k - 1) + (n - 1)" by (simp add: right_diff_distrib)
    then have "(n * k - 1) div n = k - 1" using n by (intro int_div_pos_eq [of _ n _ "n - 1"]) simp_all
    with n k show ?thesis by simp
  next
    case False
    then have "y mod n \<noteq> 0" by (simp add: dvd_eq_mod_eq_0)
    then have "0 \<le> y mod n - 1" using n pos_mod_sign [of n y] by linarith
    moreover have "y mod n - 1 < n" using n pos_mod_bound [of n y] by linarith
    moreover have "y - 1 = n * (y div n) + (y mod n - 1)"
      using mult_div_mod_eq [of n y] by linarith
    ultimately have "(y - 1) div n = y div n" by (intro int_div_pos_eq)
    with False show ?thesis by simp
  qed
qed

lemma year_days_pred: "year_days y = year_days (y - 1) + (if leap_year y then 366 else 365)"
proof -
  have i: "(400::int) dvd y \<Longrightarrow> 100 dvd y" "(100::int) dvd y \<Longrightarrow> 4 dvd y"
    by (auto elim!: dvd_trans [rotated])
  define a b c where abc: "a = (y - 1) div 4" "b = (y - 1) div 100" "c = (y - 1) div 400"
  have d: "y div 4 = a + (if 4 dvd y then 1 else 0)" "y div 100 = b + (if 100 dvd y then 1 else 0)"
    "y div 400 = c + (if 400 dvd y then 1 else 0)"
    unfolding abc by (rule div_pred, simp)+
  show ?thesis
    unfolding year_days_def d abc [symmetric] leap_year_def using i
    by (cases "4 dvd y"; cases "100 dvd y"; cases "400 dvd y") simp_all
qed

lemma month_cases:
  "0 \<le> m \<Longrightarrow> m < 12 \<Longrightarrow> m \<in> {0, 1, 2, 3, 4, 5, 6, 7, 8, 9, 10, 11::int}"
  by (simp, presburger)

lemma civil_days_next:
  assumes "valid_civil (y, m, d)" and "next_civil (y, m, d) = (y', m', d')"
  shows "civil_days y' m' d' = civil_days y m d + 1"
proof (cases "d + 1 < month_length y m")
  case True
  then show ?thesis using assms by (auto simp: next_civil_def civil_days_eq)
next
  case False
  then have "d = month_length y m - 1" using assms(1) by (simp add: valid_civil_def)
  moreover have "m \<in> {0, 1, 2, 3, 4, 5, 6, 7, 8, 9, 10, 11}"
    using assms(1) by (intro month_cases) (simp_all add: valid_civil_def)
  moreover have "(y', m', d') = (if m < 11 then (y, m + 1, 0) else (y + 1, 0, 0))"
    using assms(2) False by (simp add: next_civil_def)
  ultimately show ?thesis
    using year_days_pred [of y] unfolding civil_days_eq
    by (elim insertE emptyE; simp add: month_length_def; simp split: if_splits)
qed

text \<open>Splitting the time of day and putting it together again.\<close>

lemma smod_floor: "0 < n \<Longrightarrow> (if t smod n < 0 then t smod n + n else t smod n) = (t::int) mod n"
proof -
  assume n: "0 < n"
  show ?thesis
  proof (cases "0 \<le> t")
    case True
    then show ?thesis using n by (cases "t = 0") (simp_all add: smod_int_alt_def not_less)
  next
    case False
    then have "t smod n = - (- t mod n)" using n by (simp add: smod_int_alt_def)
    moreover have "t mod n = (if - t mod n = 0 then 0 else n - - t mod n)"
      using zmod_zminus1_eq_if [of "- t" n] by simp
    moreover have "0 \<le> - t mod n" using n by simp
    ultimately show ?thesis by (simp split: if_splits)
  qed
qed

lemma time_split:
  assumes "0 \<le> (t::int)" and "t < kNanosecondsPerDay"
  shows "(t div 1000000000 div 60 div 60 mod 24 * 3600 + t div 1000000000 div 60 mod 60 * 60 +
      t div 1000000000 mod 60) * 1000000000 + t mod 1000000000 = t"
proof -
  define s where "s = t div 1000000000"
  have "s < 86400" unfolding s_def using assms by (simp add: kNanosecondsPerDay_def div_less_iff_less_mult)
  moreover have "0 \<le> s" using assms by (simp add: s_def pos_imp_zdiv_nonneg_iff)
  ultimately have "s div 60 div 60 mod 24 = s div 60 div 60"
    by (intro mod_pos_pos_trivial) (simp_all add: pos_imp_zdiv_nonneg_iff div_less_iff_less_mult)
  moreover have "s div 60 div 60 * 60 + s div 60 mod 60 = s div 60" "s div 60 * 60 + s mod 60 = s"
    by (simp_all add: div_mult_mod_eq)
  ultimately have "s div 60 div 60 mod 24 * 3600 + s div 60 mod 60 * 60 + s mod 60 = s" by linarith
  then show ?thesis unfolding s_def [symmetric] using div_mult_mod_eq [of t 1000000000] by (simp add: s_def)
qed

lemma dec_digits_length: "n < 10 ^ Suc k \<Longrightarrow> length (dec_digits n) \<le> Suc k"
proof (induction k arbitrary: n)
  case 0
  then show ?case by simp
next
  case (Suc k)
  show ?case
  proof (cases "n < 10")
    case False
    have "n div 10 < 10 ^ Suc k" using Suc.prems by (simp add: less_mult_imp_div_less)
    from Suc.IH [OF this] False show ?thesis by (subst dec_digits.simps) simp
  qed (subst dec_digits.simps, simp)
qed

declare dec_digits.simps [simp del]

lemma fmt_02d_length: "0 \<le> i \<Longrightarrow> i < 100 \<Longrightarrow> length (fmt_02d i) \<le> 2"
proof -
  assume i: "0 \<le> i" "i < 100"
  have "length (dec_digits (nat i)) \<le> 2" using dec_digits_length [of "nat i" 1] i by (simp add: numeral_2_eq_2)
  moreover have "i < 10 \<Longrightarrow> length (dec_digits (nat i)) \<le> 1" using dec_digits_length [of "nat i" 0] i by simp
  ultimately show ?thesis using i by (auto simp: fmt_02d_def fmt_d_def)
qed

lemma sint_year_bounds: "- 262144 \<le> sint (y :: 19 word)" "sint (y :: 19 word) \<le> 262143"
  using sint_ge [of y] sint_lt [of y] by simp_all

lemma fmt_year_length: "length (fmt_d (sint (y :: 19 word))) \<le> 7"
proof -
  have "nat (- sint y) < 10 ^ Suc 5" "nat (sint y) < 10 ^ Suc 5"
    using sint_year_bounds [of y] by simp_all
  from this [THEN dec_digits_length] show ?thesis by (simp add: fmt_d_def)
qed

lemma uint_field_bounds:
  "uint (a :: 4 word) < 16" "uint (b :: 5 word) < 32" "uint (c :: 6 word) < 64"
  using uint_bounded [of a] uint_bounded [of b] uint_bounded [of c] by simp_all

lemma formatDefault_total:
  assumes "unat (m_nanos (m_timePart dt)) < 1000000000"
  shows "\<exists>txt. formatDefault dt = Some txt"
proof -
  have n: "length (fmt_d (uint (m_nanos (m_timePart dt)))) \<le> 9"
    using dec_digits_length [of "nat (uint (m_nanos (m_timePart dt)))" 8] assms
    by (simp add: fmt_d_def)
  define d t where "d = m_datePart dt" and "t = m_timePart dt"
  have f: "length (fmt_02d (uint (m_month d) + 1)) \<le> 2" "length (fmt_02d (uint (m_dayOfMonth d) + 1)) \<le> 2"
      "length (fmt_02d (uint (m_hours t))) \<le> 2" "length (fmt_02d (uint (m_minutes t))) \<le> 2"
      "length (fmt_02d (uint (m_seconds t))) \<le> 2"
    using uint_field_bounds(1) [of "m_month d"] uint_field_bounds(2) [of "m_dayOfMonth d"]
      uint_field_bounds(2) [of "m_hours t"] uint_field_bounds(3) [of "m_minutes t"]
      uint_field_bounds(3) [of "m_seconds t"]
    by (auto intro!: fmt_02d_length)
  show ?thesis
    using n fmt_year_length [of "m_year (m_datePart dt)"] f [unfolded d_def t_def]
    by (auto simp: formatDefault_def snprintf_string_def Let_def kMaxDateTimeStringLength_def
        kMaxDateStringLength_def)
qed

lemma uint_word_of_int: "0 \<le> i \<Longrightarrow> i < 2 ^ LENGTH('a) \<Longrightarrow> uint (word_of_int i :: 'a::len word) = i"
  by (simp add: unsigned_of_int take_bit_int_eq_self)

lemma sint_word_of_year:
  "kMinYear \<le> y \<Longrightarrow> y \<le> kMaxYear \<Longrightarrow> sint (word_of_int y :: 19 word) = y"
  by (simp add: kMinYear_def kMaxYear_def signed_of_int signed_take_bit_int_eq_self)

lemma uint_of_nat_word: "n < 2 ^ LENGTH('a) \<Longrightarrow> uint (of_nat n :: 'a::len word) = int n"
  by (simp add: unsigned_of_nat take_bit_nat_eq_self)

lemma parse_duration:
  assumes "rawdatetime_parse scan ymd weekday (Some str) len fmt = Inr dt"
    and "scan (take len str) fmt = Some tp"
    and "ymd (tp div kNanosecondsPerDay) = (y, m, d)"
    and "1 \<le> m" "m \<le> 12" "1 \<le> d" "d \<le> 31"
    and "civil_days y (int m - 1) (int d - 1) = tp div kNanosecondsPerDay"
  shows "format_duration dt = tp"
proof -
  let ?t = "tp mod kNanosecondsPerDay"
  have t: "0 \<le> ?t" "?t < kNanosecondsPerDay" by (simp_all add: kNanosecondsPerDay_def)
  have y: "kMinYear \<le> y" "y \<le> kMaxYear"
    using assms(1-3) by (auto simp: rawdatetime_parse_def Let_def split: if_splits)
  have k: "(if tp smod kNanosecondsPerDay < 0 then tp smod kNanosecondsPerDay + kNanosecondsPerDay
      else tp smod kNanosecondsPerDay) = ?t"
    by (rule smod_floor) (simp add: kNanosecondsPerDay_def)
  have "len \<noteq> 0" using assms(1) by (auto simp: rawdatetime_parse_def split: if_splits)
  then have dt: "dt =
      \<lparr>m_timePart = \<lparr>m_reserved1 = False, m_nanos = word_of_int (?t mod 1000000000),
         m_seconds = word_of_int (?t div 1000000000 mod 60),
         m_minutes = word_of_int (?t div 1000000000 div 60 mod 60),
         m_hours = word_of_int (?t div 1000000000 div 60 div 60 mod 24), m_reserved2 = 0\<rparr>,
       m_datePart = m_datePart dt\<rparr>"
    and dp: "m_year (m_datePart dt) = word_of_int y" "m_month (m_datePart dt) = of_nat (m - 1)"
      "m_dayOfMonth (m_datePart dt) = of_nat (d - 1)"
    using assms(1) y unfolding rawdatetime_parse_def
    by (auto simp only: assms(2,3) Let_def k option.case prod.case if_False not_less [symmetric] simp_thms
        sum.inject RawDateTime.simps RawDate.simps)
  have fd: "format_days (m_datePart dt) = tp div kNanosecondsPerDay"
  proof -
    have "uint (of_nat (m - 1) :: 4 word) = int m - 1" "uint (of_nat (d - 1) :: 5 word) = int d - 1"
      using assms(4-7) by (subst uint_of_nat_word; simp)+
    then show ?thesis
      using y assms(8) unfolding format_days_def dp by (simp only: sint_word_of_year)
  qed
  have ft: "uint (m_hours (m_timePart dt)) = ?t div 1000000000 div 60 div 60 mod 24"
    "uint (m_minutes (m_timePart dt)) = ?t div 1000000000 div 60 mod 60"
    "uint (m_seconds (m_timePart dt)) = ?t div 1000000000 mod 60"
    "uint (m_nanos (m_timePart dt)) = ?t mod 1000000000"
    by (subst dt, simp only: RawDateTime.simps RawTime.simps,
        rule uint_word_of_int, simp, rule less_trans [OF pos_mod_bound], simp, simp)+
  have "format_duration dt = tp div kNanosecondsPerDay * kNanosecondsPerDay +
      ((?t div 1000000000 div 60 div 60 mod 24 * 3600 + ?t div 1000000000 div 60 mod 60 * 60 +
        ?t div 1000000000 mod 60) * 1000000000 + ?t mod 1000000000)"
    unfolding format_duration_def fd ft by (simp only: add.assoc)
  also have "\<dots> = tp div kNanosecondsPerDay * kNanosecondsPerDay + ?t"
    by (simp only: time_split [OF t])
  also have "\<dots> = tp" by (rule div_mult_mod_eq)
  finally show ?thesis .
qed

section \<open>Properties\<close>

text \<open>C25: A serialized value is read back, whatever was in the destination and whatever follows it: all
  date and time fields are the same, the reserved upper field is cleared and the presence flag says
  whether the time part is non-zero, as does the number of bytes consumed.\<close>

theorem datetime_roundtrip:
  "rawdatetime_deserialize old (rawdatetime_serialize dt @ rest) =
    (let present = (rawtime_image (m_timePart dt) AND kTimeMask \<noteq> 0) in
     (\<lparr>m_timePart = (m_timePart dt)\<lparr>m_reserved2 := 0\<rparr>,
       m_datePart = (m_datePart dt)\<lparr>m_hasTimePart := present\<rparr>\<rparr>, if present then 10 else 4))"
  using rawdatetime_roundtrip [OF refl, of old dt rest] by (simp add: Let_def)

text \<open>The announced serialized size is the number of bytes written exactly when the presence flag
  agrees with the time part; a midnight value with the flag set is announced as 10 bytes and written
  as 4.\<close>

theorem datetime_size_exact:
  "length (rawdatetime_serialize dt) = rawdatetime_getSerializedSize dt \<longleftrightarrow>
    (m_hasTimePart (m_datePart dt) \<longleftrightarrow> rawtime_image (m_timePart dt) AND kTimeMask \<noteq> 0)"
  by (simp add: rawdatetime_serialize_def rawdatetime_getSerializedSize_def Let_def)

text \<open>The generic branch of the serialization writes the same bytes as the x86 branch except when the
  presence flag is set and the time part is zero: then it leaves the flag set in data that have no time
  part.\<close>

theorem datetime_generic_branch:
  "rawdatetime_serialize_generic dt = rawdatetime_serialize dt \<longleftrightarrow>
    \<not> (m_hasTimePart (m_datePart dt) \<and> rawtime_image (m_timePart dt) AND kTimeMask = 0)"
  by (rule serialize_generic_eq)

text \<open>C26: The four ordering operators of dates and of date-times are the orderings of one lexicographic
  key (year, month, day, then the time of day, a missing time first), so they are consistent with each
  other and total; equality and inequality are each other's negation.\<close>

theorem datetime_order:
  "(rawdatetime_gt a b \<longleftrightarrow> datetime_key b < datetime_key a) \<and>
   (rawdatetime_ge a b \<longleftrightarrow> datetime_key b \<le> datetime_key a) \<and>
   (rawdatetime_lt a b \<longleftrightarrow> datetime_key a < datetime_key b) \<and>
   (rawdatetime_le a b \<longleftrightarrow> datetime_key a \<le> datetime_key b) \<and>
   (rawdate_lt d e \<longleftrightarrow> date_key d < date_key e) \<and> (rawdate_le d e \<longleftrightarrow> date_key d \<le> date_key e) \<and>
   (rawdatetime_ne a b \<longleftrightarrow> \<not> rawdatetime_eq a b) \<and>
   (rawdatetime_eq a b \<longrightarrow> datetime_key a = datetime_key b)"
  by (auto simp: rawdatetime_order rawdate_order rawdatetime_lt_def rawdatetime_le_def
      rawdatetime_ne_def rawdatetime_eq_def rawdate_eq_def rawtime_eq_def rawdate_image_inj
      rawtime_image_inj datetime_key_def)

theorem datetime_order_witness:
  "let d = kZeroRawDate; t = kZeroRawTime\<lparr>m_hours := 1\<rparr>;
       a = \<lparr>m_timePart = t, m_datePart = d\<rparr>; b = \<lparr>m_timePart = kZeroRawTime, m_datePart = d\<rparr>
   in rawdatetime_eq a b \<and> datetime_key a = datetime_key b"
proof -
  let ?a = "\<lparr>m_timePart = kZeroRawTime\<lparr>m_hours := 1\<rparr>, m_datePart = kZeroRawDate\<rparr>"
  let ?b = "\<lparr>m_timePart = kZeroRawTime, m_datePart = kZeroRawDate\<rparr>"
  have "rawdatetime_eq ?a ?b" by (simp add: rawdatetime_eq_def rawdate_eq_def kZeroRawDate_def)
  with datetime_order [of ?a ?b] show ?thesis by (simp add: Let_def)
qed

text \<open>C27: The day number that formatting computes is the proleptic Gregorian one: 1970-01-01 has number 0
  and the civil day after a valid date, across month ends, leap days and negative years, has the next
  number.\<close>

theorem format_days_gregorian:
  assumes "valid_civil (civil_of d)" and "civil_of d' = next_civil (civil_of d)"
  shows "format_days d' = format_days d + 1 \<and>
    format_days \<lparr>m_hasTimePart = False, m_dayOfWeek = 4, m_dayOfMonth = 0, m_month = 0,
      m_year = 1970\<rparr> = 0"
proof -
  have "format_days d' = format_days d + 1"
    unfolding format_days_def
    by (rule civil_days_next [OF assms(1) [unfolded civil_of_def]])
      (rule assms(2) [unfolded civil_of_def, symmetric])
  moreover have "format_days \<lparr>m_hasTimePart = False, m_dayOfWeek = 4, m_dayOfMonth = 0,
      m_month = 0, m_year = 1970\<rparr> = 0"
    by (simp add: format_days_def civil_days_eq year_days_def)
  ultimately show ?thesis by (rule conjI)
qed

theorem format_days_gregorian_witness:
  "let d = \<lparr>m_hasTimePart = False, m_dayOfWeek = 6, m_dayOfMonth = 28, m_month = 1, m_year = 2020\<rparr>;
       d' = \<lparr>m_hasTimePart = False, m_dayOfWeek = 0, m_dayOfMonth = 0, m_month = 2, m_year = 2020\<rparr>
   in valid_civil (civil_of d) \<and> civil_of d' = next_civil (civil_of d) \<and>
      format_days d' = format_days d + 1"
proof -
  let ?d = "\<lparr>m_hasTimePart = False, m_dayOfWeek = 6, m_dayOfMonth = 28, m_month = 1, m_year = 2020\<rparr>"
  let ?d' = "\<lparr>m_hasTimePart = False, m_dayOfWeek = 0, m_dayOfMonth = 0, m_month = 2, m_year = 2020\<rparr>"
  have "valid_civil (civil_of ?d)" "civil_of ?d' = next_civil (civil_of ?d)"
    by (simp_all add: valid_civil_def civil_of_def next_civil_def month_length_def leap_year_def)
  with format_days_gregorian [of ?d ?d'] show ?thesis unfolding Let_def by blast
qed

text \<open>Formatting hands the date library back the very time point that parsing got from it, for time
  points before the epoch too, provided that the library's civil date is the one whose day number it
  was given.\<close>

theorem parse_format_duration:
  assumes "rawdatetime_parse scan ymd weekday (Some str) len fmt = Inr dt"
    and "scan (take len str) fmt = Some tp"
    and "ymd (tp div kNanosecondsPerDay) = (y, m, d)"
    and "1 \<le> m" "m \<le> 12" "1 \<le> d" "d \<le> 31"
    and "civil_days y (int m - 1) (int d - 1) = tp div kNanosecondsPerDay"
  shows "format_duration dt = tp"
  using assms by (rule parse_duration)

theorem parse_format_duration_witness:
  "\<exists>dt. rawdatetime_parse (\<lambda>_ _. Some (-1)) (\<lambda>_. (1969, 12, 31)) (\<lambda>_. 3) (Some ''x'') 1 ''%F'' = Inr dt \<and>
    format_duration dt = -1"
proof -
  obtain dt where dt:
    "rawdatetime_parse (\<lambda>_ _. Some (-1)) (\<lambda>_. (1969, 12, 31)) (\<lambda>_. 3) (Some ''x'') 1 ''%F'' = Inr dt"
    by (simp add: rawdatetime_parse_def Let_def kMinYear_def kMaxYear_def)
  have "format_duration dt = -1"
    by (rule parse_format_duration [OF dt, of "-1" 1969 12 31])
      (simp_all add: kNanosecondsPerDay_def civil_days_eq year_days_def)
  with dt show ?thesis by blast
qed

text \<open>C28: The default textual form always fits its stack buffers for every date the bit-fields can hold
  and every nanosecond count below a second.\<close>

theorem formatDefault_fits:
  assumes "unat (m_nanos (m_timePart dt)) < 1000000000"
  shows "\<exists>txt. formatDefault dt = Some txt"
  using assms by (rule formatDefault_total)

theorem formatDefault_fits_witness:
  "\<exists>txt. formatDefault \<lparr>m_timePart = kZeroRawTime\<lparr>m_nanos := 999999999\<rparr>,
    m_datePart = kZeroRawDate\<rparr> = Some txt"
  by (rule formatDefault_fits) (simp add: kZeroRawTime_def)

end
