(* ===== verification/VarInt.thy ===== *)
theory VarInt
  imports Prelude
begin

text \<open>
  Base-128 variable-length integers (\<open>Base128VariantEncoding.c\<close>, \<open>Base128VariantEncoding.h\<close>) and
  the serialization of strings, binary values and optional values built on them
  (\<open>Base128VariantEncodingCxx.cpp\<close>).  An encoder returns the bytes it writes; the address it
  returns is that of the byte after the last one, so the number of bytes advanced is the length of
  the list.  A decoder takes the bytes that are in the buffer, whose length is the \<open>size\<close> argument.
\<close>

section \<open>Sizes\<close>

definition kMaxSerializedInt16Size :: nat where "kMaxSerializedInt16Size = 3"
definition kMaxSerializedInt32Size :: nat where "kMaxSerializedInt32Size = 5"
definition kMaxSerializedInt64Size :: nat where "kMaxSerializedInt64Size = 10"

lemma unat_drop_bit_less:
  "\<not> (v::'a::len word) < 0x80 \<Longrightarrow> 7 < LENGTH('a) \<Longrightarrow> unat (drop_bit 7 v) < unat v"
proof -
  assume ge: "\<not> v < 0x80" and len: "7 < LENGTH('a)"
  have "unat v \<noteq> 0"
  proof
    assume "unat v = 0"
    then have "v = 0" by (simp add: unat_eq_0)
    moreover have "(0::'a word) < 0x80"
    proof -
      have "(2::nat) ^ 7 < 2 ^ LENGTH('a)"
        using len by (rule power_strict_increasing) simp
      then have "\<not> (2 ^ LENGTH('a) :: nat) dvd 128"
        by (auto dest!: dvd_imp_le)
      then have "(of_nat 128 :: 'a word) \<noteq> 0"
        by (simp only: word_of_nat_eq_0_iff) simp
      then show ?thesis by (simp add: word_gt_0)
    qed
    ultimately show False using ge by simp
  qed
  then show ?thesis by (simp add: unat_drop_bit_div)
qed

function getVarUInt16Size :: "uint16 \<Rightarrow> nat" where
  "getVarUInt16Size v = (if v \<ge> 0x80 then 1 + getVarUInt16Size (drop_bit 7 v) else 1)"
  by pat_completeness auto
termination by (relation "measure unat") (auto simp: not_less intro!: unat_drop_bit_less)

function getVarUInt32Size :: "uint32 \<Rightarrow> nat" where
  "getVarUInt32Size v = (if v \<ge> 0x80 then 1 + getVarUInt32Size (drop_bit 7 v) else 1)"
  by pat_completeness auto
termination by (relation "measure unat") (auto simp: not_less intro!: unat_drop_bit_less)

function getVarUInt64Size :: "uint64 \<Rightarrow> nat" where
  "getVarUInt64Size v = (if v \<ge> 0x80 then 1 + getVarUInt64Size (drop_bit 7 v) else 1)"
  by pat_completeness auto
termination by (relation "measure unat") (auto simp: not_less intro!: unat_drop_bit_less)

section \<open>Encoding\<close>

function encodeVarUInt16 :: "uint16 \<Rightarrow> bytes" where
  "encodeVarUInt16 v =
    (if v \<ge> 0x80 then ucast (v OR 0x80) # encodeVarUInt16 (drop_bit 7 v) else [ucast v])"
  by pat_completeness auto
termination by (relation "measure unat") (auto simp: not_less intro!: unat_drop_bit_less)

function encodeVarUInt32 :: "uint32 \<Rightarrow> bytes" where
  "encodeVarUInt32 v =
    (if v \<ge> 0x80 then ucast (v OR 0x80) # encodeVarUInt32 (drop_bit 7 v) else [ucast v])"
  by pat_completeness auto
termination by (relation "measure unat") (auto simp: not_less intro!: unat_drop_bit_less)

function encodeVarUInt64 :: "uint64 \<Rightarrow> bytes" where
  "encodeVarUInt64 v =
    (if v \<ge> 0x80 then ucast (v OR 0x80) # encodeVarUInt64 (drop_bit 7 v) else [ucast v])"
  by pat_completeness auto
termination by (relation "measure unat") (auto simp: not_less intro!: unat_drop_bit_less)

text \<open>Signed integers are zig-zag mapped: \<open>(value << 1) ^ (value >> 31)\<close>, the second shift being
  arithmetic.\<close>

definition zigzag :: "nat \<Rightarrow> 'a::len word \<Rightarrow> 'a word" where
  "zigzag k v = push_bit 1 v XOR signed_drop_bit k v"

definition unzigzag :: "'a::len word \<Rightarrow> 'a word" where
  "unzigzag v = drop_bit 1 v XOR - (v AND 1)"

definition encodeVarInt16 :: "uint16 \<Rightarrow> bytes" where
  "encodeVarInt16 v = encodeVarUInt16 (zigzag 15 v)"

definition encodeVarInt32 :: "uint32 \<Rightarrow> bytes" where
  "encodeVarInt32 v = encodeVarUInt32 (zigzag 31 v)"

definition encodeVarInt64 :: "uint64 \<Rightarrow> bytes" where
  "encodeVarInt64 v = encodeVarUInt64 (zigzag 63 v)"

definition getVarInt16Size :: "uint16 \<Rightarrow> nat" where
  "getVarInt16Size v = getVarUInt16Size (zigzag 15 v)"

definition getVarInt32Size :: "uint32 \<Rightarrow> nat" where
  "getVarInt32Size v = getVarUInt32Size (zigzag 31 v)"

definition getVarInt64Size :: "uint64 \<Rightarrow> nat" where
  "getVarInt64Size v = getVarUInt64Size (zigzag 63 v)"

section \<open>Decoding\<close>

text \<open>One unrolled group of the decoders, for the shift \<open>k\<close>:
  \<open>b = *p++; r += b << k; if (!(b & 0x80)) goto done; r -= 0x80 << k;\<close>.  A run of groups either
  reaches \<open>done\<close>, or falls through with the accumulator, or reads past the buffer.\<close>

datatype 'w part_result = PartDone nat 'w | PartMore nat 'w | PartOverrun

fun decode_groups :: "nat list \<Rightarrow> bytes \<Rightarrow> nat \<Rightarrow> 'a::len word \<Rightarrow> 'a word part_result" where
  "decode_groups [] src p r = PartMore p r"
| "decode_groups (k # ks) src p r = (case byte_at src p of
      None \<Rightarrow> PartOverrun
    | Some b \<Rightarrow>
        (let r = r + push_bit k (ucast b) in
         if b AND 0x80 = 0 then PartDone (p + 1) r
         else decode_groups ks src (p + 1) (r - push_bit k 0x80)))"

definition decodeVarUInt16 :: "bytes \<Rightarrow> uint16 decode_result" where
  "decodeVarUInt16 src =
    (let size = length src in
     if size > 0 then
       if src ! 0 < 0x80 then DecOk 1 (ucast (src ! 0))
       else if size \<ge> kMaxSerializedInt16Size \<or> src ! (size - 1) AND 0x80 = 0 then
         (case decode_groups [7, 14] src 1 (ucast (src ! 0) - 0x80) of
            PartDone p r \<Rightarrow> DecOk p r
          | PartMore p r \<Rightarrow> DecCorrupt
          | PartOverrun \<Rightarrow> DecOverrun)
       else DecNotEnough
     else DecNotEnough)"

definition decodeVarUInt32 :: "bytes \<Rightarrow> uint32 decode_result" where
  "decodeVarUInt32 src =
    (let size = length src in
     if size > 0 then
       if src ! 0 < 0x80 then DecOk 1 (ucast (src ! 0))
       else if size \<ge> kMaxSerializedInt32Size \<or> src ! (size - 1) AND 0x80 = 0 then
         (case decode_groups [7, 14, 21, 28] src 1 (ucast (src ! 0) - 0x80) of
            PartDone p r \<Rightarrow> DecOk p r
          | PartMore p r \<Rightarrow> DecCorrupt
          | PartOverrun \<Rightarrow> DecOverrun)
       else DecNotEnough
     else DecNotEnough)"

text \<open>The 64-bit decoder accumulates three 32-bit parts and joins them at \<open>done\<close>.\<close>

definition join_parts :: "uint32 \<Rightarrow> uint32 \<Rightarrow> uint32 \<Rightarrow> uint64" where
  "join_parts part0 part1 part2 =
    ucast part0 OR push_bit 28 (ucast part1) OR push_bit 56 (ucast part2)"

definition decode64_parts :: "bytes \<Rightarrow> uint64 decode_result" where
  "decode64_parts src =
    (case decode_groups [0, 7, 14, 21] src 0 0 of
       PartDone p part0 \<Rightarrow> DecOk p (join_parts part0 0 0)
     | PartOverrun \<Rightarrow> DecOverrun
     | PartMore p part0 \<Rightarrow>
         (case decode_groups [0, 7, 14, 21] src p 0 of
            PartDone p part1 \<Rightarrow> DecOk p (join_parts part0 part1 0)
          | PartOverrun \<Rightarrow> DecOverrun
          | PartMore p part1 \<Rightarrow>
              (case decode_groups [0, 7] src p 0 of
                 PartDone p part2 \<Rightarrow> DecOk p (join_parts part0 part1 part2)
               | PartOverrun \<Rightarrow> DecOverrun
               | PartMore p part2 \<Rightarrow> DecCorrupt)))"

definition decodeVarUInt64 :: "bytes \<Rightarrow> uint64 decode_result" where
  "decodeVarUInt64 src =
    (let size = length src in
     if size > 0 then
       if src ! 0 < 0x80 then DecOk 1 (ucast (src ! 0))
       else if size \<ge> kMaxSerializedInt64Size \<or> src ! (size - 1) AND 0x80 = 0 then
         decode64_parts src
       else DecNotEnough
     else DecNotEnough)"

definition decodeVarInt16 :: "bytes \<Rightarrow> uint16 decode_result" where
  "decodeVarInt16 src = map_decode unzigzag (decodeVarUInt16 src)"

definition decodeVarInt32 :: "bytes \<Rightarrow> uint32 decode_result" where
  "decodeVarInt32 src = map_decode unzigzag (decodeVarUInt32 src)"

definition decodeVarInt64 :: "bytes \<Rightarrow> uint64 decode_result" where
  "decodeVarInt64 src = map_decode unzigzag (decodeVarUInt64 src)"

section \<open>Strings, binary values and optional values\<close>

text \<open>Lengths are \<^verbatim>\<open>std::size_t\<close>, 64 bits wide; a string is its bytes.\<close>

datatype deser_error =
    CorruptLength | NotEnoughForLength | NotEnoughData
  | OptionalNoData | OptionalBadFlag | ReadOverrun

definition getSerializedSize_string :: "bytes \<Rightarrow> nat" where
  "getSerializedSize_string s = getVarUInt64Size (of_nat (length s)) + length s"

definition serializeUnchecked_string :: "bytes \<Rightarrow> bytes" where
  "serializeUnchecked_string s = encodeVarUInt64 (of_nat (length s)) @ (if s = [] then [] else s)"

definition deserializeObject_string :: "bytes \<Rightarrow> deser_error + (bytes \<times> nat)" where
  "deserializeObject_string buf = (case decodeVarUInt64 buf of
      DecCorrupt \<Rightarrow> Inl CorruptLength
    | DecNotEnough \<Rightarrow> Inl NotEnoughForLength
    | DecOverrun \<Rightarrow> Inl ReadOverrun
    | DecOk consumed len \<Rightarrow>
        if length buf - consumed < unat len then Inl NotEnoughData
        else Inr (take (unat len) (drop consumed buf), unat len + consumed))"

definition getSerializedSize_binary :: "bytes \<Rightarrow> nat" where
  "getSerializedSize_binary bv = getVarUInt64Size (of_nat (length bv)) + length bv"

definition serializeUnchecked_binary :: "bytes \<Rightarrow> bytes" where
  "serializeUnchecked_binary bv =
    encodeVarUInt64 (of_nat (length bv)) @ (if length bv = 0 then [] else bv)"

definition deserializeObject_binary :: "bytes \<Rightarrow> deser_error + (bytes \<times> nat)" where
  "deserializeObject_binary buf = (case decodeVarUInt64 buf of
      DecCorrupt \<Rightarrow> Inl CorruptLength
    | DecNotEnough \<Rightarrow> Inl NotEnoughForLength
    | DecOverrun \<Rightarrow> Inl ReadOverrun
    | DecOk consumed len \<Rightarrow>
        if length buf - consumed < unat len then Inl NotEnoughData
        else Inr (take (unat len) (drop consumed buf), unat len + consumed))"

text \<open>The optional templates are parametric in the element type: its size, its encoder and its
  decoder are arguments.\<close>

definition getSerializedSize_optional :: "('a \<Rightarrow> nat) \<Rightarrow> 'a option \<Rightarrow> nat" where
  "getSerializedSize_optional sz opt = (case opt of None \<Rightarrow> 1 | Some x \<Rightarrow> sz x + 1)"

definition serializeUnchecked_optional :: "('a \<Rightarrow> bytes) \<Rightarrow> 'a option \<Rightarrow> bytes" where
  "serializeUnchecked_optional ser opt = (case opt of None \<Rightarrow> [0] | Some x \<Rightarrow> 1 # ser x)"

text \<open>Object element types: the new value of the destination and the bytes consumed; the result does
  not depend on whether the destination held a value.\<close>

definition deserializeObject_optional ::
  "(bytes \<Rightarrow> deser_error + ('a \<times> nat)) \<Rightarrow> bytes \<Rightarrow> deser_error + ('a option \<times> nat)" where
  "deserializeObject_optional des buf =
    (case buf of
       [] \<Rightarrow> Inl OptionalNoData
     | flag # buf' \<Rightarrow>
         if flag > 1 then Inl OptionalBadFlag
         else if flag = 0 then Inr (None, 1)
         else (case des buf' of
                 Inl e \<Rightarrow> Inl e
               | Inr (x, n) \<Rightarrow> Inr (Some x, n + 1)))"

text \<open>Fundamental element types.  \<open>old\<close> is the value the destination held before the call.  The int
  a decoder returns (-1, 0 or the count) is converted to \<^verbatim>\<open>std::size_t\<close>, and neither branch tests it.
  The second component of the result is what the function returns.\<close>

fun decode_return :: "'a decode_result \<Rightarrow> uint64" where
  "decode_return (DecOk n x) = of_nat n"
| "decode_return DecNotEnough = 0"
| "decode_return DecCorrupt = -1"
| "decode_return DecOverrun = 0"

fun decode_value :: "'a \<Rightarrow> 'a decode_result \<Rightarrow> 'a" where
  "decode_value old (DecOk n x) = x"
| "decode_value old _ = old"

definition deserializeObject_optional_fundamental ::
  "(bytes \<Rightarrow> 'a::len word decode_result) \<Rightarrow> 'a word option \<Rightarrow> bytes \<Rightarrow>
   deser_error + ('a word option \<times> uint64)" where
  "deserializeObject_optional_fundamental dec old buf =
    (case buf of
       [] \<Rightarrow> Inl OptionalNoData
     | flag # buf' \<Rightarrow>
         if flag > 1 then Inl OptionalBadFlag
         else if flag = 0 then Inr (None, 1)
         else (case old of
                 Some v \<Rightarrow> Inr (Some (decode_value v (dec buf')), decode_return (dec buf'))
               | None \<Rightarrow> Inr (Some (decode_value 0 (dec buf')), decode_return (dec buf') + 1)))"

section \<open>Reference definitions\<close>

text \<open>The format on natural numbers: little-endian base-128 digits, every digit but the last with the
  continuation bit set.\<close>

fun vi_encode :: "nat \<Rightarrow> bytes" where
  "vi_encode n = (if n < 128 then [of_nat n] else of_nat (n mod 128 + 128) # vi_encode (n div 128))"

fun vi_value :: "bytes \<Rightarrow> nat" where
  "vi_value [] = 0"
| "vi_value (b # bs) = unat b mod 128 + 128 * vi_value bs"

abbreviation vi_cont :: "uint8 \<Rightarrow> bool" where
  "vi_cont b \<equiv> 0x80 \<le> b"

text \<open>The decoder the three C functions implement, for at most \<open>m\<close> digits.\<close>

definition vi_decode :: "nat \<Rightarrow> bytes \<Rightarrow> 'a::len word decode_result" where
  "vi_decode m src =
    (let c = length (takeWhile vi_cont src) in
     if src \<noteq> [] \<and> (c = 0 \<or> m \<le> length src \<or> last src < 0x80) then
       if c < m then DecOk (c + 1) (of_nat (vi_value (take (c + 1) src))) else DecCorrupt
     else DecNotEnough)"

fun shifts :: "nat \<Rightarrow> nat \<Rightarrow> nat list" where
  "shifts k 0 = []"
| "shifts k (Suc m) = k # shifts (k + 7) m"

declare vi_encode.simps [simp del]
declare getVarUInt16Size.simps [simp del] getVarUInt32Size.simps [simp del]
  getVarUInt64Size.simps [simp del] encodeVarUInt16.simps [simp del]
  encodeVarUInt32.simps [simp del] encodeVarUInt64.simps [simp del]

section \<open>The C functions compute the reference definitions\<close>

lemma head_byte:
  "8 < LENGTH('a::len) \<Longrightarrow> (ucast ((v::'a word) OR 0x80) :: uint8) = of_nat (unat v mod 128 + 128)"
proof -
  assume len: "8 < LENGTH('a)"
  have "unat (0x80 :: 'a word) = 128"
    using len power_strict_increasing[OF len, of "2::nat"] by (simp add: unat_numeral take_bit_eq_mod)
  then have "unat (ucast (v OR 0x80) :: uint8) = unat v mod 128 + 128"
    by (simp add: unat_ucast_mod unsigned_or_eq nat_or_low_mod)
  also have "\<dots> = unat (of_nat (unat v mod 128 + 128) :: uint8)"
    by (simp only: unat_of_nat) simp
  finally show ?thesis by (simp only: word_unat_eq_iff)
qed

lemmas vi_word_simps = head_byte word_le_nat_alt unat_drop_bit_div word_unat_eq_iff
  unat_ucast_mod unat_of_nat

lemma encodeVarUInt16_vi: "encodeVarUInt16 v = vi_encode (unat v)"
  by (induction v rule: encodeVarUInt16.induct, subst encodeVarUInt16.simps, subst vi_encode.simps)
    (auto simp: vi_word_simps)

lemma encodeVarUInt32_vi: "encodeVarUInt32 v = vi_encode (unat v)"
  by (induction v rule: encodeVarUInt32.induct, subst encodeVarUInt32.simps, subst vi_encode.simps)
    (auto simp: vi_word_simps)

lemma encodeVarUInt64_vi: "encodeVarUInt64 v = vi_encode (unat v)"
  by (induction v rule: encodeVarUInt64.induct, subst encodeVarUInt64.simps, subst vi_encode.simps)
    (auto simp: vi_word_simps)

lemma getVarUInt16Size_vi: "getVarUInt16Size v = length (vi_encode (unat v))"
  by (induction v rule: getVarUInt16Size.induct, subst getVarUInt16Size.simps, subst vi_encode.simps)
    (auto simp: vi_word_simps)

lemma getVarUInt32Size_vi: "getVarUInt32Size v = length (vi_encode (unat v))"
  by (induction v rule: getVarUInt32Size.induct, subst getVarUInt32Size.simps, subst vi_encode.simps)
    (auto simp: vi_word_simps)

lemma getVarUInt64Size_vi: "getVarUInt64Size v = length (vi_encode (unat v))"
  by (induction v rule: getVarUInt64Size.induct, subst getVarUInt64Size.simps, subst vi_encode.simps)
    (auto simp: vi_word_simps)

lemmas encodeVarUInt_vi = encodeVarUInt16_vi encodeVarUInt32_vi encodeVarUInt64_vi
lemmas getVarUIntSize_vi = getVarUInt16Size_vi getVarUInt32Size_vi getVarUInt64Size_vi

lemma and_80_iff: "(b::uint8) AND 0x80 = 0 \<longleftrightarrow> \<not> vi_cont b"
proof -
  have "b AND 0x80 = 0 \<longleftrightarrow> \<not> bit b 7"
    using and_exp_eq_0_iff_not_bit [of b 7] by simp
  also have "\<dots> \<longleftrightarrow> even (unat b div 128)"
    using bit_iff_odd [of "unat b" 7] by (simp add: bit_unsigned_iff)
  also have "\<dots> \<longleftrightarrow> \<not> vi_cont b"
    by (simp add: byte_div_128 word_le_nat_alt)
  finally show ?thesis .
qed

lemma vi_step_cont:
  "(r::'a::len word) + push_bit k (ucast (b::uint8)) - push_bit k 0x80 = r + of_nat (unat b mod 128) * 2 ^ k"
  if "vi_cont b"
proof -
  have "unat b = unat b mod 128 + 128"
    using that by (simp add: byte_mod_128 word_le_nat_alt)
  then have "(ucast b :: 'a word) = of_nat (unat b mod 128) + 128"
    by (metis of_nat_add of_nat_numeral of_nat_unat)
  then show ?thesis
    by (simp add: push_bit_eq_mult algebra_simps)
qed

lemma vi_step_done:
  "(r::'a::len word) + push_bit k (ucast (b::uint8)) = r + of_nat (unat b mod 128) * 2 ^ k"
  if "\<not> vi_cont b"
proof -
  have "unat b < 128" using that by (simp add: word_le_nat_alt)
  then show ?thesis by (simp add: push_bit_eq_mult of_nat_unat)
qed

lemma decode_groups_spec:
  fixes r :: "'a::len word" and src :: bytes
  defines "c \<equiv> \<lambda>p. length (takeWhile vi_cont (drop p src))"
  shows "decode_groups (shifts k m) src p r =
    (if c p < m then
       if p + c p < length src
       then PartDone (p + c p + 1) (r + of_nat (vi_value (take (c p + 1) (drop p src))) * 2 ^ k)
       else PartOverrun
     else PartMore (p + m) (r + of_nat (vi_value (take m (drop p src))) * 2 ^ k))"
proof (induction m arbitrary: k p r)
  case 0
  then show ?case by simp
next
  case (Suc m)
  show ?case
  proof (cases "p < length src")
    case False
    then show ?thesis by (simp add: byte_at_def c_def)
  next
    case True
    then have d: "drop p src = src ! p # drop (Suc p) src" by (simp add: Cons_nth_drop_Suc)
    show ?thesis
    proof (cases "vi_cont (src ! p)")
      case True
      have c: "c p = Suc (c (Suc p))" using True by (simp add: c_def d)
      show ?thesis
        using True \<open>p < length src\<close>
        by (simp add: byte_at_def Let_def and_80_iff vi_step_cont Suc c d power_add algebra_simps)
    next
      case False
      then show ?thesis
        using \<open>p < length src\<close> by (simp add: byte_at_def Let_def and_80_iff vi_step_done c_def d)
    qed
  qed
qed
lemma vi_value_bound: "vi_value bs < 128 ^ length bs"
proof (induction bs)
  case (Cons b bs)
  have "unat b mod 128 < 128" by simp
  with Cons show ?case by simp
qed simp

lemma vi_value_append: "vi_value (xs @ ys) = vi_value xs + 128 ^ length xs * vi_value ys"
  by (induction xs) (simp_all add: algebra_simps)

lemma vi_terminated:
  "src \<noteq> [] \<Longrightarrow> last src < 0x80 \<Longrightarrow> length (takeWhile vi_cont src) < length src"
  by (auto simp: takeWhile_length_less not_le intro: last_in_set)


lemma decode_groups_first:
  "vi_cont b \<Longrightarrow> decode_groups (shifts 7 m) (b # bs) 1 (ucast b - 0x80 :: 'a::len word) =
    decode_groups (shifts 0 (Suc m)) (b # bs) 0 0"
  by (simp add: and_80_iff Let_def)

lemma decode_groups_vi_decode:
  assumes "src \<noteq> []" and "m \<le> length src \<or> last src < 0x80"
  shows "(case decode_groups (shifts 0 m) src 0 (0::'a::len word) of
      PartDone p r \<Rightarrow> DecOk p r | PartMore p r \<Rightarrow> DecCorrupt | PartOverrun \<Rightarrow> DecOverrun) =
    vi_decode m src"
  using assms vi_terminated [OF assms(1)]
  unfolding decode_groups_spec vi_decode_def Let_def by (simp; linarith)

lemma vi_decode_short: "\<not> vi_cont b \<Longrightarrow> 0 < m \<Longrightarrow> vi_decode m (b # bs) = DecOk 1 (ucast b)"
proof -
  assume "\<not> vi_cont b" "0 < m"
  moreover from this have "unat b < 128" by (simp add: word_le_nat_alt)
  ultimately show ?thesis by (simp add: vi_decode_def of_nat_unat)
qed

lemma vi_decode_long:
  assumes "vi_cont b" and "src = b # bs"
  shows "vi_decode (Suc m) src =
    (if Suc m \<le> length src \<or> src ! (length src - 1) AND 0x80 = 0 then
       case decode_groups (shifts 7 m) src 1 (ucast b - 0x80 :: 'a::len word) of
         PartDone p r \<Rightarrow> DecOk p r | PartMore p r \<Rightarrow> DecCorrupt | PartOverrun \<Rightarrow> DecOverrun
     else DecNotEnough)"
proof -
  have l: "src ! (length src - 1) AND 0x80 = 0 \<longleftrightarrow> last src < 0x80"
    using assms(2) by (simp add: last_conv_nth and_80_iff not_le)
  have f: "decode_groups (shifts 7 m) src 1 (ucast b - 0x80 :: 'a word) = decode_groups (shifts 0 (Suc m)) src 0 0"
    unfolding assms(2) by (rule decode_groups_first [OF assms(1)])
  show ?thesis
  proof (cases "Suc m \<le> length src \<or> last src < 0x80")
    case True
    moreover have "src \<noteq> []" using assms(2) by simp
    ultimately show ?thesis
      unfolding l f using decode_groups_vi_decode [of src "Suc m", where 'a = 'a] by (simp only: if_True simp_thms)
  next
    case False
    then show ?thesis
      unfolding l using assms by (auto simp: vi_decode_def Let_def)
  qed
qed

lemma decodeVarUInt16_vi: "decodeVarUInt16 src = vi_decode 3 src"
proof (cases src)
  case (Cons b bs)
  have g: "[7, 14] = shifts 7 2" by (simp add: eval_nat_numeral)
  show ?thesis
    using vi_decode_long [OF _ Cons, of 2, where 'a = 16]
    unfolding decodeVarUInt16_def g Let_def kMaxSerializedInt16Size_def
    by (simp add: Cons vi_decode_short not_less del: shifts.simps decode_groups.simps)
qed (simp add: decodeVarUInt16_def vi_decode_def)

lemma decodeVarUInt32_vi: "decodeVarUInt32 src = vi_decode 5 src"
proof (cases src)
  case (Cons b bs)
  have g: "[7, 14, 21, 28] = shifts 7 4" by (simp add: eval_nat_numeral)
  show ?thesis
    using vi_decode_long [OF _ Cons, of 4, where 'a = 32]
    unfolding decodeVarUInt32_def g Let_def kMaxSerializedInt32Size_def
    by (simp add: Cons vi_decode_short not_less del: shifts.simps decode_groups.simps)
qed (simp add: decodeVarUInt32_def vi_decode_def)
lemma join_parts_value:
  assumes "a < 2 ^ 28" "b < 2 ^ 28" "c < 2 ^ 14"
  shows "join_parts (of_nat a) (of_nat b) (of_nat c) = of_nat (a + 2 ^ 28 * b + 2 ^ 56 * c)"
proof -
  have u: "ucast (of_nat n :: uint32) = (of_nat n :: uint64)" if "n < 2 ^ 28" for n
    using that by (simp add: unsigned_of_nat take_bit_nat_eq_self)
  have "(ucast (of_nat a :: uint32) :: uint64) OR push_bit 28 (ucast (of_nat b :: uint32)) = of_nat (a + 2 ^ 28 * b)"
    using assms by (simp add: u or_push_bit)
  moreover have "a + 2 ^ 28 * b < 2 ^ 56" using assms by simp
  ultimately show ?thesis
    using assms unfolding join_parts_def by (simp only: or.assoc [symmetric] or_push_bit) (simp add: u)
qed

lemmas join_parts_values = join_parts_value [of _ 0 0, simplified] join_parts_value [of _ _ 0, simplified]
  join_parts_value [simplified]

lemma vi_value_take_split:
  "k \<le> length src \<Longrightarrow> vi_value (take (k + n) src) = vi_value (take k src) + 128 ^ k * vi_value (take n (drop k src))"
  by (simp add: take_add vi_value_append)

lemma vi_value_take_bound: "k \<le> length src \<Longrightarrow> vi_value (take k src) < 128 ^ k"
  using vi_value_bound [of "take k src"] by simp

lemma groups_shifts: "[0, 7, 14, 21] = shifts 0 4" "[0, 7] = shifts 0 2"
  by (simp_all add: eval_nat_numeral)

lemma vi_value_take_bound_le:
  "k \<le> length src \<Longrightarrow> k \<le> m \<Longrightarrow> vi_value (take k src) < 128 ^ m"
  using vi_value_take_bound [of k src] power_increasing [of k m "128::nat"] by linarith

lemma decode64_parts_1:
  assumes "length (takeWhile vi_cont src) = c" "c < length src" "c < 4"
  shows "decode64_parts src = DecOk (c + 1) (of_nat (vi_value (take (c + 1) src)))"
proof -
  have "vi_value (take (c + 1) src) < 128 ^ 4"
    using assms by (intro vi_value_take_bound_le) auto
  then show ?thesis
    unfolding decode64_parts_def groups_shifts using assms
    by (simp add: decode_groups_spec join_parts_values)
qed

lemma decode64_parts_2:
  assumes "length (takeWhile vi_cont src) = 4 + d" "4 + d < length src" "d < 4"
  shows "decode64_parts src = DecOk (4 + d + 1) (of_nat (vi_value (take (4 + d + 1) src)))"
proof -
  have "vi_value (take 4 src) < 128 ^ 4" "vi_value (take (Suc d) (drop 4 src)) < 128 ^ 4"
    using assms vi_value_take_bound_le [of 4 src 4] vi_value_take_bound_le [of "Suc d" "drop 4 src" 4]
    by simp_all
  moreover have "vi_value (take (Suc (4 + d)) src) =
      vi_value (take 4 src) + 128 ^ 4 * vi_value (take (Suc d) (drop 4 src))"
    using assms vi_value_take_split [of 4 src "Suc d"] by simp
  moreover have "length (takeWhile vi_cont (drop 4 src)) = d"
    using assms length_takeWhile_drop [of 4 vi_cont src] by simp
  ultimately show ?thesis
    unfolding decode64_parts_def groups_shifts using assms
    by (simp add: decode_groups_spec join_parts_values)
qed

lemma decode64_parts_3:
  assumes "length (takeWhile vi_cont src) = 8 + d" "8 + d < length src" "d < 2"
  shows "decode64_parts src = DecOk (8 + d + 1) (of_nat (vi_value (take (8 + d + 1) src)))"
proof -
  have "vi_value (take 4 src) < 128 ^ 4" "vi_value (take 4 (drop 4 src)) < 128 ^ 4"
    "vi_value (take (Suc d) (drop 8 src)) < 128 ^ 2"
    using assms vi_value_take_bound_le [of 4 src 4] vi_value_take_bound_le [of 4 "drop 4 src" 4]
      vi_value_take_bound_le [of "Suc d" "drop 8 src" 2]
    by simp_all
  moreover have "vi_value (take (Suc (8 + d)) src) = vi_value (take 4 src) +
      128 ^ 4 * (vi_value (take 4 (drop 4 src)) + 128 ^ 4 * vi_value (take (Suc d) (drop 8 src)))"
    using assms vi_value_take_split [of 4 src "4 + Suc d"]
      vi_value_take_split [of 4 "drop 4 src" "Suc d"] by simp
  moreover have "length (takeWhile vi_cont (drop 4 src)) = 4 + d"
    "length (takeWhile vi_cont (drop 8 src)) = d"
    using assms length_takeWhile_drop [of 4 vi_cont src] length_takeWhile_drop [of 8 vi_cont src]
    by simp_all
  ultimately show ?thesis
    unfolding decode64_parts_def groups_shifts using assms
    by (simp add: decode_groups_spec join_parts_values algebra_simps)
qed

lemma decode64_parts_corrupt:
  assumes "10 \<le> length (takeWhile vi_cont src)"
  shows "decode64_parts src = DecCorrupt"
  unfolding decode64_parts_def groups_shifts
  using assms length_takeWhile_drop [of 4 vi_cont src] length_takeWhile_drop [of 8 vi_cont src]
  by (simp add: decode_groups_spec, linarith)

lemma decode64_parts_value:
  assumes "c = length (takeWhile vi_cont src)" and "c < length src \<or> 10 \<le> c"
  shows "decode64_parts src =
    (if c < 10 then DecOk (c + 1) (of_nat (vi_value (take (c + 1) src))) else DecCorrupt)"
proof -
  consider "c < 4" | "4 \<le> c" "c < 8" | "8 \<le> c" "c < 10" | "10 \<le> c" by linarith
  then show ?thesis
  proof cases
    case 1
    then show ?thesis using assms decode64_parts_1 [of src c] by simp
  next
    case 2
    then show ?thesis using assms decode64_parts_2 [of src "c - 4"] by simp
  next
    case 3
    then show ?thesis using assms decode64_parts_3 [of src "c - 8"] by simp
  next
    case 4
    then show ?thesis using assms decode64_parts_corrupt [of src] by simp
  qed
qed

lemma decodeVarUInt64_vi: "decodeVarUInt64 src = vi_decode 10 src"
proof (cases src)
  case (Cons b bs)
  define c where "c = length (takeWhile vi_cont src)"
  have l: "src ! (length src - 1) AND 0x80 = 0 \<longleftrightarrow> last src < 0x80"
    using Cons by (simp add: last_conv_nth and_80_iff not_le)
  show ?thesis
  proof (cases "vi_cont b \<and> (10 \<le> length src \<or> last src < 0x80)")
    case True
    then have "c < length src \<or> 10 \<le> c" using vi_terminated [of src] Cons by (auto simp: c_def)
    note p = decode64_parts_value [OF c_def this]
    show ?thesis
      using True Cons unfolding decodeVarUInt64_def l vi_decode_def Let_def kMaxSerializedInt64Size_def p
        c_def [symmetric] by auto
  next
    case False
    show ?thesis
    proof (cases "vi_cont b")
      case True
      then show ?thesis
        using False Cons unfolding decodeVarUInt64_def l Let_def kMaxSerializedInt64Size_def
        by (auto simp: vi_decode_def)
    next
      case False
      then have "b < 0x80" by simp
      then show ?thesis by (simp add: Cons decodeVarUInt64_def vi_decode_short [OF False])
    qed
  qed
qed (simp add: decodeVarUInt64_def vi_decode_def)

lemmas decodeVarUInt_vi = decodeVarUInt16_vi decodeVarUInt32_vi decodeVarUInt64_vi

section \<open>Round trips\<close>

lemma vi_encode_nonempty [simp]: "vi_encode n \<noteq> []"
  by (subst vi_encode.simps) simp

lemma unat_of_nat_byte: "n < 256 \<Longrightarrow> unat (of_nat n :: uint8) = n"
  by (simp add: unat_of_nat)

lemma vi_value_encode [simp]: "vi_value (vi_encode n) = n"
proof (induction n rule: vi_encode.induct)
  case (1 n)
  show ?case
  proof (cases "n < 128")
    case False
    moreover have "unat (of_nat (n mod 128 + 128) :: uint8) = n mod 128 + 128"
      by (rule unat_of_nat_byte) (simp add: trans_less_add2 [of _ 128])
    ultimately show ?thesis using 1 by (subst vi_encode.simps) (simp del: of_nat_add)
  qed (subst vi_encode.simps, simp add: unat_of_nat)
qed

lemma vi_encode_shape:
  "\<exists>ds d. vi_encode n = ds @ [d] \<and> (\<forall>b \<in> set ds. vi_cont b) \<and> \<not> vi_cont d"
proof (induction n rule: vi_encode.induct)
  case (1 n)
  show ?case
  proof (cases "n < 128")
    case True
    then show ?thesis by (subst vi_encode.simps) (simp add: word_le_nat_alt unat_of_nat)
  next
    case False
    with 1 obtain ds d where "vi_encode (n div 128) = ds @ [d]" "\<forall>b \<in> set ds. vi_cont b" "\<not> vi_cont d"
      by blast
    moreover have "vi_cont (of_nat (n mod 128 + 128))"
      unfolding word_le_nat_alt by (subst unat_of_nat_byte) (simp_all add: trans_less_add2 [of _ 128])
    ultimately show ?thesis
      using False by (subst vi_encode.simps) (auto simp del: of_nat_add intro!: exI [of _ "_ # ds"])
  qed
qed

lemma vi_encode_takeWhile: "length (takeWhile vi_cont (vi_encode n @ rest)) + 1 = length (vi_encode n)"
proof -
  obtain ds d where "vi_encode n = ds @ [d]" "\<forall>b \<in> set ds. vi_cont b" "\<not> vi_cont d"
    using vi_encode_shape by blast
  then show ?thesis by (simp add: takeWhile_append2)
qed

lemma vi_encode_last: "last (vi_encode n) < 0x80"
  using vi_encode_shape [of n] by (auto simp: not_le)

lemma vi_encode_length_le: "n < 128 ^ m \<Longrightarrow> 0 < m \<Longrightarrow> length (vi_encode n) \<le> m"
proof (induction m arbitrary: n)
  case (Suc m)
  show ?case
  proof (cases "n < 128")
    case False
    then have "0 < m" using Suc.prems by (cases m) auto
    moreover have "n div 128 < 128 ^ m" using Suc.prems by (simp add: less_mult_imp_div_less mult.commute)
    ultimately show ?thesis using Suc.IH [of "n div 128"] False by (subst vi_encode.simps) simp
  qed (subst vi_encode.simps, simp)
qed simp

lemma vi_encode_length_1: "length (vi_encode n) = 1 \<longleftrightarrow> n < 128"
  by (subst vi_encode.simps) simp

lemma vi_roundtrip:
  assumes "n < 128 ^ m" "0 < m" "n < 2 ^ LENGTH('a)"
  shows "(vi_decode m (vi_encode n @ rest) :: 'a::len word decode_result) =
    (if n < 128 \<or> m \<le> length (vi_encode n) + length rest \<or> rest = [] \<or> last rest < 0x80
     then DecOk (length (vi_encode n)) (of_nat n) else DecNotEnough)"
proof -
  define c where "c = length (takeWhile vi_cont (vi_encode n @ rest))"
  have c: "length (vi_encode n) = c + 1" using vi_encode_takeWhile [of n rest] by (simp add: c_def)
  then have t: "take (c + 1) (vi_encode n @ rest) = vi_encode n" by simp
  have "c < m" using vi_encode_length_le [OF assms(1,2)] c by simp
  moreover have "c = 0 \<longleftrightarrow> n < 128" using c vi_encode_length_1 [of n] by simp
  ultimately show ?thesis
    using vi_encode_last [of n] unfolding vi_decode_def Let_def c_def [symmetric] t
    by (auto simp: c last_append)
qed

lemma vi_roundtrip_unat:
  fixes v :: "'a::len word"
  assumes "2 ^ LENGTH('a) \<le> (128::nat) ^ m" "0 < m"
  shows "vi_decode m (vi_encode (unat v) @ rest) =
    (if unat v < 128 \<or> m \<le> length (vi_encode (unat v)) + length rest \<or> rest = [] \<or> last rest < 0x80
     then DecOk (length (vi_encode (unat v))) v else DecNotEnough)"
  using assms unat_lt [of v] vi_roundtrip [of "unat v" m, where 'a = 'a] by simp

lemma zigzag_inverse: "Suc k = LENGTH('a) \<Longrightarrow> unzigzag (zigzag k v) = (v::'a::len word)"
proof (rule bit_word_eqI)
  fix i
  assume k: "Suc k = LENGTH('a)" and i: "i < LENGTH('a)"
  let ?z = "zigzag k v"
  have "LENGTH('a) - 1 = k" "LENGTH('a) - k = 1" using k by auto
  then have b: "bit ?z j \<longleftrightarrow> ((0 < j \<and> bit v (j - 1)) \<noteq> bit v k)" if "j < LENGTH('a)" for j
    using that unfolding zigzag_def bit_xor_iff bit_push_bit_iff bit_signed_drop_bit_iff
    by (cases "j = 0") auto
  have m: "- (?z AND 1) = (if bit v k then -1 else 0)"
    using b [of 0] by (auto simp: and_one_eq odd_iff_mod_2_eq_one bit_0)
  show "bit (unzigzag ?z) i \<longleftrightarrow> bit v i"
    using i k b [of "Suc i"] unfolding unzigzag_def m
    by (cases "i = k") (auto simp: bit_simps dest: bit_imp_le_length)
qed

lemma decodeVarUInt16_encode:
  "decodeVarUInt16 (encodeVarUInt16 v @ rest) =
    (if v < 0x80 \<or> 3 \<le> getVarUInt16Size v + length rest \<or> rest = [] \<or> last rest < 0x80
     then DecOk (getVarUInt16Size v) v else DecNotEnough)"
  using vi_roundtrip_unat [of 3 v rest]
  by (simp add: decodeVarUInt_vi encodeVarUInt_vi getVarUIntSize_vi word_less_nat_alt)

lemma decodeVarUInt32_encode:
  "decodeVarUInt32 (encodeVarUInt32 v @ rest) =
    (if v < 0x80 \<or> 5 \<le> getVarUInt32Size v + length rest \<or> rest = [] \<or> last rest < 0x80
     then DecOk (getVarUInt32Size v) v else DecNotEnough)"
  using vi_roundtrip_unat [of 5 v rest]
  by (simp add: decodeVarUInt_vi encodeVarUInt_vi getVarUIntSize_vi word_less_nat_alt)

lemma decodeVarUInt64_encode:
  "decodeVarUInt64 (encodeVarUInt64 v @ rest) =
    (if v < 0x80 \<or> 10 \<le> getVarUInt64Size v + length rest \<or> rest = [] \<or> last rest < 0x80
     then DecOk (getVarUInt64Size v) v else DecNotEnough)"
  using vi_roundtrip_unat [of 10 v rest]
  by (simp add: decodeVarUInt_vi encodeVarUInt_vi getVarUIntSize_vi word_less_nat_alt)

lemma getVarUIntSize_pos [simp]:
  "0 < getVarUInt16Size a" "0 < getVarUInt32Size b" "0 < getVarUInt64Size c"
  by (simp_all add: getVarUIntSize_vi)

lemma getVarUIntSize_max:
  "getVarUInt16Size a \<le> kMaxSerializedInt16Size"
  "getVarUInt32Size b \<le> kMaxSerializedInt32Size"
  "getVarUInt64Size c \<le> kMaxSerializedInt64Size"
  using unat_lt [of a] unat_lt [of b] unat_lt [of c]
  by (auto simp: getVarUIntSize_vi kMaxSerializedInt16Size_def kMaxSerializedInt32Size_def
      kMaxSerializedInt64Size_def intro!: vi_encode_length_le)

lemma length_encodeVarUInt [simp]:
  "length (encodeVarUInt16 a) = getVarUInt16Size a"
  "length (encodeVarUInt32 b) = getVarUInt32Size b"
  "length (encodeVarUInt64 c) = getVarUInt64Size c"
  by (simp_all add: encodeVarUInt_vi getVarUIntSize_vi)

lemma encodeVarUInt_nonempty [simp]:
  "encodeVarUInt16 a \<noteq> []" "encodeVarUInt32 b \<noteq> []" "encodeVarUInt64 c \<noteq> []"
  by (simp_all add: encodeVarUInt_vi)

lemma encodeVarUInt_last [simp]:
  "last (encodeVarUInt16 a) < 0x80" "last (encodeVarUInt32 b) < 0x80" "last (encodeVarUInt64 c) < 0x80"
  by (simp_all add: encodeVarUInt_vi vi_encode_last)

lemma decodeVarUInt_tail:
  assumes "varint_tail rest"
  shows "decodeVarUInt16 (encodeVarUInt16 a @ rest) = DecOk (getVarUInt16Size a) a"
    "decodeVarUInt32 (encodeVarUInt32 b @ rest) = DecOk (getVarUInt32Size b) b"
    "decodeVarUInt64 (encodeVarUInt64 c @ rest) = DecOk (getVarUInt64Size c) c"
  using assms getVarUIntSize_pos
  by (auto simp: decodeVarUInt16_encode decodeVarUInt32_encode decodeVarUInt64_encode varint_tail_def
      Suc_le_eq intro: add_mono [of 1 _ 9, simplified])

interpretation var16: seq_codec encodeVarUInt16 "ok_of_decode \<circ> decodeVarUInt16" getVarUInt16Size "\<lambda>_. True"
  by unfold_locales (simp_all add: decodeVarUInt_tail)

interpretation var32: seq_codec encodeVarUInt32 "ok_of_decode \<circ> decodeVarUInt32" getVarUInt32Size "\<lambda>_. True"
  by unfold_locales (simp_all add: decodeVarUInt_tail)

interpretation var64: seq_codec encodeVarUInt64 "ok_of_decode \<circ> decodeVarUInt64" getVarUInt64Size "\<lambda>_. True"
  by unfold_locales (simp_all add: decodeVarUInt_tail)

text \<open>Signed integers.\<close>

lemma decodeVarInt_tail:
  assumes "varint_tail rest"
  shows "decodeVarInt16 (encodeVarInt16 a @ rest) = DecOk (getVarInt16Size a) a"
    "decodeVarInt32 (encodeVarInt32 b @ rest) = DecOk (getVarInt32Size b) b"
    "decodeVarInt64 (encodeVarInt64 c @ rest) = DecOk (getVarInt64Size c) c"
  using assms
  by (simp_all add: decodeVarInt16_def decodeVarInt32_def decodeVarInt64_def encodeVarInt16_def
      encodeVarInt32_def encodeVarInt64_def getVarInt16Size_def getVarInt32Size_def
      getVarInt64Size_def decodeVarUInt_tail zigzag_inverse)

interpretation svar16: seq_codec encodeVarInt16 "ok_of_decode \<circ> decodeVarInt16" getVarInt16Size "\<lambda>_. True"
  by unfold_locales (simp_all add: decodeVarInt_tail, simp_all add: encodeVarInt16_def getVarInt16Size_def)

interpretation svar32: seq_codec encodeVarInt32 "ok_of_decode \<circ> decodeVarInt32" getVarInt32Size "\<lambda>_. True"
  by unfold_locales (simp_all add: decodeVarInt_tail, simp_all add: encodeVarInt32_def getVarInt32Size_def)

interpretation svar64: seq_codec encodeVarInt64 "ok_of_decode \<circ> decodeVarInt64" getVarInt64Size "\<lambda>_. True"
  by unfold_locales (simp_all add: decodeVarInt_tail, simp_all add: encodeVarInt64_def getVarInt64Size_def)

text \<open>A length prefix is always read back: a length of two bytes or more is followed by at least 128
  bytes.\<close>

lemma decode_length_prefix:
  assumes "length s < 2 ^ 64"
  shows "decodeVarUInt64 (encodeVarUInt64 (of_nat (length s)) @ s @ rest) =
    DecOk (getVarUInt64Size (of_nat (length s))) (of_nat (length s))"
proof -
  have "unat (of_nat (length s) :: uint64) = length s" using assms by (simp add: unat_of_nat)
  then show ?thesis by (auto simp: decodeVarUInt64_encode word_less_nat_alt)
qed

lemma unat_of_nat_size: "n < 2 ^ 64 \<Longrightarrow> unat (of_nat n :: uint64) = n"
  by (simp add: unat_of_nat)

lemma deserialize_serialize_string:
  assumes "length s < 2 ^ 64"
  shows "deserializeObject_string (serializeUnchecked_string s @ rest) =
    Inr (s, getSerializedSize_string s)"
  using decode_length_prefix [OF assms, of rest] unat_of_nat_size [OF assms]
  by (auto simp: deserializeObject_string_def serializeUnchecked_string_def
      getSerializedSize_string_def)

lemma deserialize_serialize_binary:
  assumes "length s < 2 ^ 64"
  shows "deserializeObject_binary (serializeUnchecked_binary s @ rest) =
    Inr (s, getSerializedSize_binary s)"
  using decode_length_prefix [OF assms, of rest] unat_of_nat_size [OF assms]
  by (auto simp: deserializeObject_binary_def serializeUnchecked_binary_def
      getSerializedSize_binary_def)

lemma length_serialize_string_binary [simp]:
  "length (serializeUnchecked_string s) = getSerializedSize_string s"
  "length (serializeUnchecked_binary s) = getSerializedSize_binary s"
  by (simp_all add: serializeUnchecked_string_def getSerializedSize_string_def
      serializeUnchecked_binary_def getSerializedSize_binary_def)

interpretation str: codec serializeUnchecked_string "ok_of_sum \<circ> deserializeObject_string"
  getSerializedSize_string "\<lambda>s. length s < 2 ^ 64"
  by unfold_locales (simp_all add: deserialize_serialize_string)

interpretation bin: codec serializeUnchecked_binary "ok_of_sum \<circ> deserializeObject_binary"
  getSerializedSize_binary "\<lambda>s. length s < 2 ^ 64"
  by unfold_locales (simp_all add: deserialize_serialize_binary)

text \<open>Optional values of any codec whose errors are deserialization errors.\<close>

lemma deserialize_serialize_optional:
  assumes "\<And>x. opt = Some x \<Longrightarrow> des (ser x @ rest) = Inr (x, sz x)"
  shows "deserializeObject_optional des (serializeUnchecked_optional ser opt @ rest) =
    Inr (opt, getSerializedSize_optional sz opt)"
  using assms by (cases opt) (simp_all add: deserializeObject_optional_def
      serializeUnchecked_optional_def getSerializedSize_optional_def)

interpretation optstr: codec "serializeUnchecked_optional serializeUnchecked_string"
  "ok_of_sum \<circ> deserializeObject_optional deserializeObject_string"
  "getSerializedSize_optional getSerializedSize_string"
  "\<lambda>opt. \<forall>s. opt = Some s \<longrightarrow> length s < 2 ^ 64"
proof
  fix opt :: "bytes option" and rest
  assume v: "\<forall>s. opt = Some s \<longrightarrow> length s < 2 ^ 64"
  show "length (serializeUnchecked_optional serializeUnchecked_string opt) =
      getSerializedSize_optional getSerializedSize_string opt"
    by (cases opt) (simp_all add: serializeUnchecked_optional_def getSerializedSize_optional_def)
  show "(ok_of_sum \<circ> deserializeObject_optional deserializeObject_string)
      (serializeUnchecked_optional serializeUnchecked_string opt @ rest) =
      Some (opt, getSerializedSize_optional getSerializedSize_string opt)"
    using v by (simp add: deserialize_serialize_optional deserialize_serialize_string)
qed

section \<open>Properties\<close>

text \<open>C14: The three unrolled decoders, the 64-bit one with its three 32-bit partial sums, compute the
  base-128 value of the digits up to the first byte without a continuation bit, reduced to the width
  of the result; they report corrupt data exactly when the maximal number of digits is continued, and
  they never read outside of the buffer.\<close>

theorem varint_decoders_reference:
  "decodeVarUInt16 src = vi_decode kMaxSerializedInt16Size src \<and>
   decodeVarUInt32 src = vi_decode kMaxSerializedInt32Size src \<and>
   decodeVarUInt64 src = vi_decode kMaxSerializedInt64Size src \<and>
   decodeVarUInt16 src \<noteq> DecOverrun \<and> decodeVarUInt32 src \<noteq> DecOverrun \<and>
   decodeVarUInt64 src \<noteq> DecOverrun"
  by (auto simp: decodeVarUInt_vi kMaxSerializedInt16Size_def kMaxSerializedInt32Size_def
      kMaxSerializedInt64Size_def vi_decode_def Let_def)

text \<open>C15: What an encoder writes is exactly what the size function announces and is read back with that
  size, whatever follows it in the buffer, except that a value of two or more bytes is reported as
  \<^emph>\<open>not enough data\<close> when the buffer is shorter than the maximal encoding and ends in a byte with the
  high bit set.\<close>

theorem varint_roundtrip:
  "length (encodeVarUInt16 a) = getVarUInt16Size a \<and>
   length (encodeVarUInt32 b) = getVarUInt32Size b \<and>
   length (encodeVarUInt64 c) = getVarUInt64Size c \<and>
   decodeVarUInt16 (encodeVarUInt16 a @ rest) =
    (if a < 0x80 \<or> kMaxSerializedInt16Size \<le> getVarUInt16Size a + length rest \<or> rest = [] \<or>
        last rest < 0x80
     then DecOk (getVarUInt16Size a) a else DecNotEnough) \<and>
   decodeVarUInt32 (encodeVarUInt32 b @ rest) =
    (if b < 0x80 \<or> kMaxSerializedInt32Size \<le> getVarUInt32Size b + length rest \<or> rest = [] \<or>
        last rest < 0x80
     then DecOk (getVarUInt32Size b) b else DecNotEnough) \<and>
   decodeVarUInt64 (encodeVarUInt64 c @ rest) =
    (if c < 0x80 \<or> kMaxSerializedInt64Size \<le> getVarUInt64Size c + length rest \<or> rest = [] \<or>
        last rest < 0x80
     then DecOk (getVarUInt64Size c) c else DecNotEnough)"
  by (simp add: decodeVarUInt16_encode decodeVarUInt32_encode decodeVarUInt64_encode
      kMaxSerializedInt16Size_def kMaxSerializedInt32Size_def kMaxSerializedInt64Size_def)

text \<open>Signed integers survive the zig-zag mapping and the variable-length encoding, in the middle
  of a buffer too.\<close>

theorem varint_signed_roundtrip:
  assumes "varint_tail rest"
  shows "decodeVarInt16 (encodeVarInt16 a @ rest) = DecOk (getVarInt16Size a) a \<and>
    decodeVarInt32 (encodeVarInt32 b @ rest) = DecOk (getVarInt32Size b) b \<and>
    decodeVarInt64 (encodeVarInt64 c @ rest) = DecOk (getVarInt64Size c) c"
  using decodeVarInt_tail [OF assms] by simp

theorem varint_signed_roundtrip_witness:
  "varint_tail [0x7F] \<and>
   decodeVarInt16 (encodeVarInt16 (-2) @ [0x7F]) = DecOk (getVarInt16Size (-2)) (-2) \<and>
   decodeVarInt32 (encodeVarInt32 (-300) @ [0x7F]) = DecOk (getVarInt32Size (-300)) (-300) \<and>
   decodeVarInt64 (encodeVarInt64 7 @ [0x7F]) = DecOk (getVarInt64Size 7) 7"
  using varint_signed_roundtrip [of "[0x7F]" "-2" "-300" 7] by (simp add: varint_tail_def)

text \<open>Strings and binary values of any length that fits \<^verbatim>\<open>std::size_t\<close> are read back with the
  announced size whatever follows them, and so are optional strings.\<close>

theorem string_binary_optional_roundtrip:
  assumes "length s < 2 ^ 64" and "\<forall>x. opt = Some x \<longrightarrow> length x < 2 ^ 64"
  shows "deserializeObject_string (serializeUnchecked_string s @ rest) =
      Inr (s, getSerializedSize_string s) \<and>
    deserializeObject_binary (serializeUnchecked_binary s @ rest) =
      Inr (s, getSerializedSize_binary s) \<and>
    deserializeObject_optional deserializeObject_string
      (serializeUnchecked_optional serializeUnchecked_string opt @ rest) =
      Inr (opt, getSerializedSize_optional getSerializedSize_string opt) \<and>
    length (serializeUnchecked_string s) = getSerializedSize_string s"
  using assms by (simp add: deserialize_serialize_string deserialize_serialize_binary
      deserialize_serialize_optional)

theorem string_binary_optional_roundtrip_witness:
  "deserializeObject_string (serializeUnchecked_string [0xC3, 0xA9] @ [0xFF]) =
      Inr ([0xC3, 0xA9], getSerializedSize_string [0xC3, 0xA9]) \<and>
    deserializeObject_optional deserializeObject_string
      (serializeUnchecked_optional serializeUnchecked_string (Some [1]) @ [0xFF]) =
      Inr (Some [1], getSerializedSize_optional getSerializedSize_string (Some [1]))"
  using string_binary_optional_roundtrip [of "[0xC3, 0xA9]" "Some [1]" "[0xFF]"] by simp

text \<open>A fundamental optional value is read back correctly into an empty destination, but into a
  destination that already holds a value the same data are reported as one byte shorter, so the
  caller continues at the wrong position.\<close>

theorem optional_fundamental_consumed:
  assumes "varint_tail rest"
  shows "deserializeObject_optional_fundamental decodeVarUInt32 None
      (serializeUnchecked_optional encodeVarUInt32 (Some v) @ rest) =
      Inr (Some v, of_nat (getSerializedSize_optional getVarUInt32Size (Some v))) \<and>
    deserializeObject_optional_fundamental decodeVarUInt32 (Some w)
      (serializeUnchecked_optional encodeVarUInt32 (Some v) @ rest) =
      Inr (Some v, of_nat (getSerializedSize_optional getVarUInt32Size (Some v) - 1))"
  using decodeVarUInt_tail(2) [OF assms, of v]
  by (simp add: deserializeObject_optional_fundamental_def serializeUnchecked_optional_def
      getSerializedSize_optional_def)

theorem optional_fundamental_consumed_witness:
  "deserializeObject_optional_fundamental decodeVarUInt32 (Some 0) [1, 5] = Inr (Some 5, 1)"
  using optional_fundamental_consumed [of "[]" 5 0]
  by (simp add: varint_tail_def serializeUnchecked_optional_def getSerializedSize_optional_def
      getVarUInt32Size.simps encodeVarUInt32.simps)

end
