(* ===== verification/Records.thy ===== *)
theory Records
  imports VarInt PlainBinary
begin

text \<open>
  The structures that the storage engine writes to data files: column data addresses, column data
  records, master column records, LOB chunk headers, column data block headers and index file headers
  (\<open>ColumnDataAddress.cpp\<close>, \<open>ColumnDataRecord.cpp\<close>, \<open>MasterColumnRecord.cpp\<close>, \<open>LobChunkHeader.cpp\<close>,
  \<open>ColumnDataBlockHeader.cpp\<close>, \<open>IndexFileHeaderBase.cpp\<close>).  A deserializer returns the object and the
  number of bytes consumed; \<open>None\<close> is the failure value of the C++ function (0 or a null pointer), after
  which the callers discard the half-assigned object.  The deserializers of the fixed-size headers do
  not get the length of the buffer; for them \<open>None\<close> also stands for a buffer that is too short.
\<close>

section \<open>Column data addresses\<close>

record ColumnDataAddress =
  m_blockId :: uint64
  m_offset :: uint32

definition kNullValueAddress :: ColumnDataAddress where
  "kNullValueAddress = \<lparr>m_blockId = 0, m_offset = 0\<rparr>"

definition kDefaultValueAddress :: ColumnDataAddress where
  "kDefaultValueAddress = \<lparr>m_blockId = 0, m_offset = 1\<rparr>"

definition isNullValueAddress :: "ColumnDataAddress \<Rightarrow> bool" where
  "isNullValueAddress a \<longleftrightarrow> m_blockId a = 0 \<and> m_offset a = 0"

definition kMaxSerializedAddressSize :: nat where "kMaxSerializedAddressSize = 14"

definition address_getSerializedSize :: "ColumnDataAddress \<Rightarrow> nat" where
  "address_getSerializedSize a = getVarUInt64Size (m_blockId a) + getVarUInt32Size (m_offset a)"

definition address_serializeUnchecked :: "ColumnDataAddress \<Rightarrow> bytes" where
  "address_serializeUnchecked a = encodeVarUInt64 (m_blockId a) @ encodeVarUInt32 (m_offset a)"

definition p_var64 :: "uint64 decoder" where "p_var64 buf = ok_of_decode (decodeVarUInt64 buf)"
definition p_var32 :: "uint32 decoder" where "p_var32 buf = ok_of_decode (decodeVarUInt32 buf)"

definition address_deserialize :: "ColumnDataAddress decoder" where
  "address_deserialize =
    p_bind p_var64 (\<lambda>blockId. p_bind p_var32 (\<lambda>offset.
      p_return \<lparr>m_blockId = blockId, m_offset = offset\<rparr>))"

definition address_pbeDeserialize :: "ColumnDataAddress decoder" where
  "address_pbeDeserialize buf =
    (if length buf < 12 then None
     else p_bind pbeDecodeUInt64 (\<lambda>blockId. p_bind pbeDecodeUInt32 (\<lambda>offset.
       p_return \<lparr>m_blockId = blockId, m_offset = offset\<rparr>)) buf)"

section \<open>Column data records\<close>

record ColumnDataRecord =
  m_address :: ColumnDataAddress
  m_createTimestamp :: uint64
  m_updateTimestamp :: uint64

definition columnrec_getSerializedSize :: "ColumnDataRecord \<Rightarrow> nat" where
  "columnrec_getSerializedSize r =
    address_getSerializedSize (m_address r) + getVarUInt64Size (m_createTimestamp r) +
    getVarUInt64Size (m_updateTimestamp r)"

definition columnrec_serializeUnchecked :: "ColumnDataRecord \<Rightarrow> bytes" where
  "columnrec_serializeUnchecked r =
    address_serializeUnchecked (m_address r) @ encodeVarUInt64 (m_createTimestamp r) @
    encodeVarUInt64 (m_updateTimestamp r)"

definition columnrec_deserialize :: "ColumnDataRecord decoder" where
  "columnrec_deserialize =
    p_bind address_deserialize (\<lambda>address. p_bind p_var64 (\<lambda>created. p_bind p_var64 (\<lambda>updated.
      p_return \<lparr>m_address = address, m_createTimestamp = created, m_updateTimestamp = updated\<rparr>)))"

section \<open>Master column records\<close>

text \<open>The operation type is kept as the byte that is stored (0 insert, 1 update, 2 delete); the
  deserializer accepts every byte.\<close>

record MasterColumnRecord =
  m_tableRowId :: uint64
  m_transactionId :: uint64
  m_rowCreateTimestamp :: uint64
  m_rowUpdateTimestamp :: uint64
  m_version :: uint64
  m_operationId :: uint64
  m_operationType :: uint8
  m_userId :: uint32
  m_columnSetId :: uint64
  m_privateDataExpirationTimestamp :: uint64
  m_columnRecords :: "ColumnDataRecord list"
  m_previousVersionAddress :: ColumnDataAddress

definition mcr_getSerializedSize :: "MasterColumnRecord \<Rightarrow> nat" where
  "mcr_getSerializedSize r =
    getVarUInt64Size (m_tableRowId r) + getVarUInt64Size (m_transactionId r) +
    getVarUInt64Size (m_rowCreateTimestamp r) + getVarUInt64Size (m_rowUpdateTimestamp r) +
    getVarUInt64Size (m_version r) + getVarUInt64Size (m_operationId r) + 1 +
    getVarUInt32Size (m_userId r) + getVarUInt64Size (m_columnSetId r) +
    getVarUInt64Size (m_privateDataExpirationTimestamp r) +
    getVarUInt32Size (of_nat (length (m_columnRecords r))) +
    address_getSerializedSize (m_previousVersionAddress r) +
    sum_list (map columnrec_getSerializedSize (m_columnRecords r))"

definition mcr_getSerializedSizeWithSizeTag :: "uint16 \<Rightarrow> nat" where
  "mcr_getSerializedSizeWithSizeTag sz = unat sz + getVarUInt16Size sz"

text \<open>The record without and with its size tag.\<close>

definition mcr_body :: "MasterColumnRecord \<Rightarrow> bytes" where
  "mcr_body r =
    encodeVarUInt64 (m_tableRowId r) @ encodeVarUInt64 (m_transactionId r) @
    encodeVarUInt64 (m_rowCreateTimestamp r) @ encodeVarUInt64 (m_rowUpdateTimestamp r) @
    encodeVarUInt64 (m_version r) @ encodeVarUInt64 (m_operationId r) @ m_operationType r #
    encodeVarUInt32 (m_userId r) @ encodeVarUInt64 (m_columnSetId r) @
    encodeVarUInt64 (m_privateDataExpirationTimestamp r) @
    encodeVarUInt32 (of_nat (length (m_columnRecords r))) @
    concat (map columnrec_serializeUnchecked (m_columnRecords r)) @
    address_serializeUnchecked (m_previousVersionAddress r)"

definition mcr_serializeUncheckedWithSizeTag :: "MasterColumnRecord \<Rightarrow> uint16 \<Rightarrow> bytes" where
  "mcr_serializeUncheckedWithSizeTag r sizeTag = encodeVarUInt16 sizeTag @ mcr_body r"

definition mcr_deserialize :: "MasterColumnRecord decoder" where
  "mcr_deserialize =
    p_bind p_var64 (\<lambda>tableRowId. p_bind p_var64 (\<lambda>transactionId.
    p_bind p_var64 (\<lambda>created. p_bind p_var64 (\<lambda>updated.
    p_bind p_var64 (\<lambda>version. p_bind p_var64 (\<lambda>operationId.
    p_bind p_byte (\<lambda>operationType.
    p_bind p_var32 (\<lambda>userId. p_bind p_var64 (\<lambda>columnSetId. p_bind p_var64 (\<lambda>expiration.
    p_bind p_var32 (\<lambda>columnRecordCount.
    p_bind (des_seq columnrec_deserialize (unat columnRecordCount)) (\<lambda>columnRecords.
    p_bind address_deserialize (\<lambda>previous.
    p_return \<lparr>m_tableRowId = tableRowId, m_transactionId = transactionId,
      m_rowCreateTimestamp = created, m_rowUpdateTimestamp = updated, m_version = version,
      m_operationId = operationId, m_operationType = operationType, m_userId = userId,
      m_columnSetId = columnSetId, m_privateDataExpirationTimestamp = expiration,
      m_columnRecords = columnRecords, m_previousVersionAddress = previous\<rparr>)))))))))))))"

section \<open>LOB chunk headers\<close>

record LobChunkHeader =
  m_remainingLobLength :: uint32
  m_chunkLength :: uint32
  m_nextChunkBlockId :: uint64
  m_nextChunkOffset :: uint32

definition kLobChunkHeaderSize :: nat where "kLobChunkHeaderSize = 4 + 4 + 8 + 4"

definition lobchunk_serialize :: "LobChunkHeader \<Rightarrow> bytes" where
  "lobchunk_serialize h =
    pbeEncodeUInt32 (m_remainingLobLength h) @ pbeEncodeUInt32 (m_chunkLength h) @
    pbeEncodeUInt64 (m_nextChunkBlockId h) @ pbeEncodeUInt32 (m_nextChunkOffset h)"

definition lobchunk_deserialize :: "LobChunkHeader decoder" where
  "lobchunk_deserialize =
    p_bind pbeDecodeUInt32 (\<lambda>remaining. p_bind pbeDecodeUInt32 (\<lambda>chunk.
    p_bind pbeDecodeUInt64 (\<lambda>blockId. p_bind pbeDecodeUInt32 (\<lambda>offset.
    p_return \<lparr>m_remainingLobLength = remaining, m_chunkLength = chunk, m_nextChunkBlockId = blockId,
      m_nextChunkOffset = offset\<rparr>))))"

section \<open>Column data block headers\<close>

text \<open>A UUID is its 16 bytes, a digest its 64 bytes.\<close>

record ColumnDataBlockHeader =
  cb_version :: uint32
  cb_databaseUuid :: bytes
  cb_tableId :: uint32
  cb_columnId :: uint64
  cb_blockId :: uint64
  cb_prevBlockId :: uint64
  cb_dataAreaOffset :: uint32
  cb_dataAreaSize :: uint32
  cb_nextDataOffset :: uint32
  cb_commitedDataOffset :: uint32
  cb_fillTimestamp :: uint64
  cb_digest :: bytes

definition kUuidSize :: nat where "kUuidSize = 16"
definition kDigestLength :: nat where "kDigestLength = 64"
definition kBlockHeaderVersion :: uint32 where "kBlockHeaderVersion = 1"

definition kFullColumnDataBlockIdSize :: nat where
  "kFullColumnDataBlockIdSize = kUuidSize + 4 + 8 + 8"

definition kBlockHeaderSize :: nat where
  "kBlockHeaderSize = 4 + kFullColumnDataBlockIdSize + 8 + 4 + 4 + 4 + 4 + 8 + kDigestLength"

definition blockheader_serialize :: "ColumnDataBlockHeader \<Rightarrow> bytes" where
  "blockheader_serialize h =
    pbeEncodeUInt32 (cb_version h) @ pbeEncodeBinary (cb_databaseUuid h) @
    pbeEncodeUInt32 (cb_tableId h) @ pbeEncodeUInt64 (cb_columnId h) @
    pbeEncodeUInt64 (cb_blockId h) @ pbeEncodeUInt64 (cb_prevBlockId h) @
    pbeEncodeUInt32 (cb_dataAreaOffset h) @ pbeEncodeUInt32 (cb_dataAreaSize h) @
    pbeEncodeUInt32 (cb_nextDataOffset h) @ pbeEncodeUInt32 (cb_commitedDataOffset h) @
    pbeEncodeUInt64 (cb_fillTimestamp h) @ pbeEncodeBinary (cb_digest h)"

definition p_binary :: "nat \<Rightarrow> bytes decoder" where
  "p_binary n buf = pbeDecodeBinary buf n"

definition p_guard :: "bool \<Rightarrow> unit decoder" where
  "p_guard b buf = (if b then Some ((), 0) else None)"

definition blockheader_deserialize :: "ColumnDataBlockHeader decoder" where
  "blockheader_deserialize =
    p_bind pbeDecodeUInt32 (\<lambda>version. p_bind (p_guard (version \<le> kBlockHeaderVersion)) (\<lambda>_.
    p_bind (p_binary kUuidSize) (\<lambda>uuid. p_bind pbeDecodeUInt32 (\<lambda>tableId.
    p_bind pbeDecodeUInt64 (\<lambda>columnId. p_bind pbeDecodeUInt64 (\<lambda>blockId.
    p_bind pbeDecodeUInt64 (\<lambda>prevBlockId. p_bind pbeDecodeUInt32 (\<lambda>areaOffset.
    p_bind pbeDecodeUInt32 (\<lambda>areaSize. p_bind pbeDecodeUInt32 (\<lambda>nextOffset.
    p_bind pbeDecodeUInt32 (\<lambda>commitedOffset. p_bind pbeDecodeUInt64 (\<lambda>fillTimestamp.
    p_bind (p_binary kDigestLength) (\<lambda>digest.
    p_return \<lparr>cb_version = version, cb_databaseUuid = uuid, cb_tableId = tableId,
      cb_columnId = columnId, cb_blockId = blockId, cb_prevBlockId = prevBlockId,
      cb_dataAreaOffset = areaOffset, cb_dataAreaSize = areaSize, cb_nextDataOffset = nextOffset,
      cb_commitedDataOffset = commitedOffset, cb_fillTimestamp = fillTimestamp,
      cb_digest = digest\<rparr>)))))))))))))"

section \<open>Index file headers\<close>

record IndexFileHeader =
  ih_version :: uint32
  ih_indexType :: uint8
  ih_databaseUuid :: bytes
  ih_tableId :: uint32
  ih_indexId :: uint64

definition kIndexHeaderVersion :: uint32 where "kIndexHeaderVersion = 1"

definition kFullIndexIdSize :: nat where "kFullIndexIdSize = kUuidSize + 4 + 8"

definition kIndexFileHeaderSerializedSize :: nat where
  "kIndexFileHeaderSerializedSize = kFullIndexIdSize + 1"

definition indexheader_serialize :: "IndexFileHeader \<Rightarrow> bytes" where
  "indexheader_serialize h =
    pbeEncodeUInt32 (ih_version h) @ ih_indexType h # pbeEncodeBinary (ih_databaseUuid h) @
    pbeEncodeUInt32 (ih_tableId h) @ pbeEncodeUInt64 (ih_indexId h)"

text \<open>The index type of the object is fixed by its constructor; the data must have the same one.\<close>

definition indexheader_deserialize :: "uint8 \<Rightarrow> IndexFileHeader decoder" where
  "indexheader_deserialize indexType =
    p_bind pbeDecodeUInt32 (\<lambda>version. p_bind (p_guard (version \<le> kIndexHeaderVersion)) (\<lambda>_.
    p_bind p_byte (\<lambda>ty. p_bind (p_guard (ty = indexType)) (\<lambda>_.
    p_bind (p_binary kUuidSize) (\<lambda>uuid. p_bind pbeDecodeUInt32 (\<lambda>tableId.
    p_bind pbeDecodeUInt64 (\<lambda>indexId.
    p_return \<lparr>ih_version = version, ih_indexType = ty, ih_databaseUuid = uuid,
      ih_tableId = tableId, ih_indexId = indexId\<rparr>)))))))"

section \<open>Well-formed headers and an example\<close>

definition valid_blockheader :: "ColumnDataBlockHeader \<Rightarrow> bool" where
  "valid_blockheader h \<longleftrightarrow> cb_version h \<le> kBlockHeaderVersion \<and>
    length (cb_databaseUuid h) = kUuidSize \<and> length (cb_digest h) = kDigestLength"

definition valid_indexheader :: "uint8 \<Rightarrow> IndexFileHeader \<Rightarrow> bool" where
  "valid_indexheader t h \<longleftrightarrow> ih_version h \<le> kIndexHeaderVersion \<and> ih_indexType h = t \<and>
    length (ih_databaseUuid h) = kUuidSize"

definition example_record :: MasterColumnRecord where
  "example_record =
    \<lparr>m_tableRowId = 300, m_transactionId = 1, m_rowCreateTimestamp = 2, m_rowUpdateTimestamp = 3,
     m_version = 4, m_operationId = 5, m_operationType = 0, m_userId = 6, m_columnSetId = 7,
     m_privateDataExpirationTimestamp = 0,
     m_columnRecords = [\<lparr>m_address = \<lparr>m_blockId = 1, m_offset = 200\<rparr>, m_createTimestamp = 2,
       m_updateTimestamp = 3\<rparr>],
     m_previousVersionAddress = kNullValueAddress\<rparr>"

section \<open>Round trips\<close>

lemma p_var64_encode [codec_simps]:
  "varint_tail rest \<Longrightarrow>
    p_bind p_var64 f (encodeVarUInt64 v @ rest) = advance (getVarUInt64Size v) (f v rest)"
  by (simp add: p_bind_def p_var64_def decodeVarUInt_tail)

lemma p_var32_encode [codec_simps]:
  "varint_tail rest \<Longrightarrow>
    p_bind p_var32 f (encodeVarUInt32 v @ rest) = advance (getVarUInt32Size v) (f v rest)"
  by (simp add: p_bind_def p_var32_def decodeVarUInt_tail)

lemma varint_tail_encode [codec_simps]:
  "varint_tail rest \<Longrightarrow> varint_tail (encodeVarUInt64 v @ rest)"
  "varint_tail rest \<Longrightarrow> varint_tail (encodeVarUInt32 w @ rest)"
  "varint_tail (encodeVarUInt64 v)"
  "varint_tail (encodeVarUInt32 w)"
  by (simp_all add: var64.varint_tail_ser var32.varint_tail_ser) (simp_all add: varint_tail_def)

lemma address_codec:
  "varint_tail rest \<Longrightarrow> address_deserialize (address_serializeUnchecked a @ rest) =
    Some (a, address_getSerializedSize a)"
  by (simp add: address_deserialize_def address_serializeUnchecked_def address_getSerializedSize_def codec_simps)

interpretation addr: seq_codec address_serializeUnchecked address_deserialize
  address_getSerializedSize "\<lambda>_. True"
  by unfold_locales (simp_all add: address_codec,
    simp_all add: address_serializeUnchecked_def address_getSerializedSize_def)

lemma p_bind_address [codec_simps]:
  "varint_tail rest \<Longrightarrow> p_bind address_deserialize f (address_serializeUnchecked a @ rest) =
    advance (address_getSerializedSize a) (f a rest)"
  using p_bind_append [of address_deserialize "address_serializeUnchecked a" rest a f] by (simp add: address_codec addr.length_ser)

lemma columnrec_codec:
  "varint_tail rest \<Longrightarrow> columnrec_deserialize (columnrec_serializeUnchecked r @ rest) =
    Some (r, columnrec_getSerializedSize r)"
  by (simp add: columnrec_deserialize_def columnrec_serializeUnchecked_def columnrec_getSerializedSize_def codec_simps)

interpretation crec: seq_codec columnrec_serializeUnchecked columnrec_deserialize
  columnrec_getSerializedSize "\<lambda>_. True"
  by unfold_locales (simp_all add: columnrec_codec,
    simp_all add: columnrec_serializeUnchecked_def columnrec_getSerializedSize_def addr.length_ser)

lemmas p_bind_columnrecs [codec_simps] = crec.p_bind_seq [OF ballI [OF TrueI]]

lemma mcr_codec:
  assumes "length (m_columnRecords r) < 2 ^ 32" "varint_tail rest"
  shows "mcr_deserialize (mcr_body r @ rest) = Some (r, mcr_getSerializedSize r)"
proof -
  have "unat (of_nat (length (m_columnRecords r)) :: uint32) = length (m_columnRecords r)"
    using assms by (simp add: unat_of_nat)
  moreover have "varint_tail (concat (map columnrec_serializeUnchecked (m_columnRecords r)) @ address_serializeUnchecked a @ rest)" for a
    using assms by (intro crec.varint_tail_concat addr.varint_tail_ser) auto
  ultimately show ?thesis using assms
    by (simp add: mcr_deserialize_def mcr_body_def mcr_getSerializedSize_def codec_simps addr.varint_tail_ser varint_tail_Cons)
qed

lemma mcr_length:
  "length (mcr_body r) = mcr_getSerializedSize r"
  by (simp add: mcr_body_def mcr_getSerializedSize_def addr.length_ser length_concat comp_def crec.length_ser)

lemma vi_decode_coherent: "coherent (\<lambda>b. ok_of_decode (vi_decode m b))"
  unfolding coherent_def
proof (intro conjI allI impI)
  fix b :: bytes and x :: "'a word" and n
  assume "ok_of_decode (vi_decode m b) = Some (x, n)"
  then show "n \<le> length b"
    using vi_terminated [of b] by (auto simp: vi_decode_def Let_def Suc_le_eq split: if_splits)
next
  fix b :: bytes and k and r r' :: "'a word \<times> nat"
  assume a: "ok_of_decode (vi_decode m b) = Some r" "ok_of_decode (vi_decode m (take k b)) = Some r'"
  let ?c = "\<lambda>b. length (takeWhile vi_cont b)"
  have "?c (take k b) < length (take k b)"
    using a(2) vi_terminated [of "take k b"] by (auto simp: vi_decode_def Let_def simp del: length_take split: if_splits)
  moreover from this obtain y where "y \<in> set (take k b)" "\<not> vi_cont y"
    by (auto simp: takeWhile_length_less simp del: length_take)
  then have "takeWhile vi_cont (take k b @ drop k b) = takeWhile vi_cont (take k b)"
    by (rule takeWhile_append1)
  ultimately have "?c (take k b) = ?c b" "?c b < k" by simp_all
  then show "r = r'"
    using a by (auto simp: vi_decode_def Let_def min_def split: if_splits)
qed


lemma coherent_var [inv_intros]: "coherent p_var64" "coherent p_var32"
  unfolding p_var64_def p_var32_def decodeVarUInt_vi by (rule vi_decode_coherent)+

lemma coherent_native [inv_intros]: "coherent (native_load n)"
  by (auto simp: coherent_def native_load_def min_def split: if_splits)

lemma coherent_records [inv_intros]:
  "coherent address_deserialize" "coherent columnrec_deserialize" "coherent mcr_deserialize"
  unfolding address_deserialize_def columnrec_deserialize_def mcr_deserialize_def
  by (intro inv_intros)+

text \<open>Fixed-size headers.\<close>

lemma p_bind_pbe [codec_simps]:
  "p_bind pbeDecodeUInt32 f (pbeEncodeUInt32 v @ rest) = advance 4 (f v rest)"
  "p_bind pbeDecodeUInt64 g (pbeEncodeUInt64 w @ rest) = advance 8 (g w rest)"
  "p_bind pbeDecodeUInt32 f (pbeEncodeUInt32 v) = advance 4 (f v [])"
  "p_bind pbeDecodeUInt64 g (pbeEncodeUInt64 w) = advance 8 (g w [])"
  using native_load_bytes [of 4 v "[]"] native_load_bytes [of 8 w "[]"]
  by (simp_all add: p_bind_def pbe_native_simps native_load_bytes)

lemma p_bind_binary [codec_simps]:
  "length d = n \<Longrightarrow> p_bind (p_binary n) f (pbeEncodeBinary d @ rest) = advance n (f d rest)"
  by (auto simp: p_bind_def p_binary_def pbeDecodeBinary_def pbeEncodeBinary_def)

lemma p_bind_guard [codec_simps]: "b \<Longrightarrow> p_bind (p_guard b) f buf = advance 0 (f () buf)"
  by (simp add: p_bind_def p_guard_def)

lemma advance_0 [simp]: "advance 0 r = r"
  by (cases r; cases "the r") auto

lemma lobchunk_codec:
  "lobchunk_deserialize (lobchunk_serialize h @ rest) = Some (h, kLobChunkHeaderSize)"
  by (simp add: lobchunk_deserialize_def lobchunk_serialize_def kLobChunkHeaderSize_def codec_simps)

lemma blockheader_codec:
  "valid_blockheader h \<Longrightarrow>
    blockheader_deserialize (blockheader_serialize h @ rest) = Some (h, kBlockHeaderSize)"
  by (simp add: blockheader_deserialize_def blockheader_serialize_def kBlockHeaderSize_def
      kFullColumnDataBlockIdSize_def valid_blockheader_def codec_simps)

lemma blockheader_bad_version:
  "\<not> cb_version h \<le> kBlockHeaderVersion \<Longrightarrow> blockheader_deserialize (blockheader_serialize h @ rest) = None"
  by (simp add: blockheader_deserialize_def blockheader_serialize_def codec_simps) (simp add: p_bind_def p_guard_def)

lemma indexheader_codec:
  "valid_indexheader t h \<Longrightarrow>
    indexheader_deserialize t (indexheader_serialize h @ rest) = Some (h, 4 + kIndexFileHeaderSerializedSize)"
  by (simp add: indexheader_deserialize_def indexheader_serialize_def kIndexFileHeaderSerializedSize_def
      kFullIndexIdSize_def valid_indexheader_def codec_simps)

lemma length_pbe [simp]: "length (pbeEncodeUInt32 v) = 4" "length (pbeEncodeUInt64 w) = 8"
  "length (pbeEncodeBinary d) = length d"
  by (simp_all add: pbe_native_simps pbeEncodeBinary_def)

interpretation lobhdr: codec lobchunk_serialize lobchunk_deserialize "\<lambda>_. kLobChunkHeaderSize" "\<lambda>_. True"
  by unfold_locales (simp_all add: lobchunk_codec, simp add: lobchunk_serialize_def kLobChunkHeaderSize_def)

interpretation blockhdr: codec blockheader_serialize blockheader_deserialize "\<lambda>_. kBlockHeaderSize"
  valid_blockheader
  by unfold_locales (simp_all add: blockheader_codec,
    simp add: blockheader_serialize_def kBlockHeaderSize_def kFullColumnDataBlockIdSize_def valid_blockheader_def)

interpretation indexhdr: codec indexheader_serialize "indexheader_deserialize t"
  "\<lambda>_. 4 + kIndexFileHeaderSerializedSize" "valid_indexheader t" for t
  by unfold_locales (simp_all add: indexheader_codec,
    simp add: indexheader_serialize_def kIndexFileHeaderSerializedSize_def kFullIndexIdSize_def valid_indexheader_def)

lemma example_record_size: "mcr_getSerializedSize example_record = 19"
  by code_simp

section \<open>Properties\<close>

text \<open>C9: A master column record, with any number of column records that fits its 32-bit counter, is read
  back from the bytes written for it, which are exactly as many as announced, and behind its size tag
  when the announced size is used as the tag.\<close>

theorem master_record_roundtrip:
  assumes "length (m_columnRecords r) < 2 ^ 32" and "varint_tail rest"
    and "mcr_getSerializedSize r < 2 ^ 16"
  shows "mcr_deserialize (mcr_body r @ rest) = Some (r, mcr_getSerializedSize r) \<and>
    length (mcr_body r) = mcr_getSerializedSize r \<and>
    (let tag = of_nat (mcr_getSerializedSize r) in
     length (mcr_serializeUncheckedWithSizeTag r tag) = mcr_getSerializedSizeWithSizeTag tag \<and>
     decodeVarUInt16 (mcr_serializeUncheckedWithSizeTag r tag) = DecOk (getVarUInt16Size tag) tag)"
proof -
  have "varint_tail (mcr_body r)"
    unfolding varint_tail_def mcr_body_def
    by (simp add: last_append address_serializeUnchecked_def)
  moreover have "unat (of_nat (mcr_getSerializedSize r) :: uint16) = mcr_getSerializedSize r"
    using assms(3) by (simp add: unat_of_nat)
  ultimately show ?thesis
    using mcr_codec [OF assms(1,2)] mcr_length [of r]
    by (simp add: Let_def mcr_serializeUncheckedWithSizeTag_def mcr_getSerializedSizeWithSizeTag_def
        decodeVarUInt_tail)
qed

theorem master_record_roundtrip_witness:
  "mcr_deserialize (mcr_body example_record @ [0x7F]) = Some (example_record, 19)"
  using master_record_roundtrip [of example_record "[0x7F]"]
  by (simp add: varint_tail_def example_record_size) (simp add: example_record_def)

text \<open>C33: Damaged data are never mistaken for a record: every proper prefix of a serialized master column
  record is rejected, and from no data at all does a deserializer consume more than it is given.\<close>

theorem master_record_truncated:
  assumes "length (m_columnRecords r) < 2 ^ 32" and "k < mcr_getSerializedSize r"
  shows "mcr_deserialize (take k (mcr_body r)) = None \<and>
    (address_deserialize buf = Some (a, n) \<longrightarrow> n \<le> length buf) \<and>
    (columnrec_deserialize buf = Some (c, n) \<longrightarrow> n \<le> length buf) \<and>
    (mcr_deserialize buf = Some (q, n) \<longrightarrow> n \<le> length buf)"
proof -
  have "mcr_deserialize (take k (mcr_body r)) = None"
    using coherent_truncated [OF coherent_records(3), of "mcr_body r" r k] assms mcr_codec [of r "[]"]
      mcr_length [of r] by simp
  then show ?thesis
    using coherent_bound [OF coherent_records(1)] coherent_bound [OF coherent_records(2)]
      coherent_bound [OF coherent_records(3)] by simp
qed

theorem master_record_truncated_witness:
  "mcr_deserialize (take 5 (mcr_body example_record)) = None"
proof -
  have "length (m_columnRecords example_record) < 2 ^ 32" by (simp add: example_record_def)
  then show ?thesis using master_record_truncated [of example_record 5] by (simp add: example_record_size)
qed

text \<open>Block headers, index file headers and LOB chunk headers are read back, headers of a newer
  version and index headers of another type are refused.\<close>

theorem headers_roundtrip:
  assumes "valid_blockheader h" and "valid_indexheader t i" and "t' \<noteq> t"
    and "cb_version h' > kBlockHeaderVersion"
  shows "blockheader_deserialize (blockheader_serialize h @ rest) = Some (h, kBlockHeaderSize) \<and>
    length (blockheader_serialize h) = kBlockHeaderSize \<and>
    blockheader_deserialize (blockheader_serialize h' @ rest) = None \<and>
    indexheader_deserialize t (indexheader_serialize i @ rest) =
      Some (i, length (indexheader_serialize i)) \<and>
    indexheader_deserialize t' (indexheader_serialize i @ rest) = None \<and>
    lobchunk_deserialize (lobchunk_serialize l @ rest) = Some (l, kLobChunkHeaderSize)"
proof -
  have "indexheader_deserialize t' (indexheader_serialize i @ rest) = None"
    using assms(2,3) by (simp add: indexheader_deserialize_def indexheader_serialize_def codec_simps
        valid_indexheader_def) (simp add: p_bind_def p_guard_def)
  then show ?thesis
    using assms blockheader_bad_version [of h' rest] blockhdr.length_ser [of h]
      indexhdr.length_ser [of t i]
    by (simp add: blockheader_codec indexheader_codec lobchunk_codec not_le)
qed

theorem headers_roundtrip_witness:
  "let h = \<lparr>cb_version = 1, cb_databaseUuid = replicate 16 0, cb_tableId = 1, cb_columnId = 2,
      cb_blockId = 3, cb_prevBlockId = 0, cb_dataAreaOffset = 1024, cb_dataAreaSize = 4096,
      cb_nextDataOffset = 0, cb_commitedDataOffset = 0, cb_fillTimestamp = 0,
      cb_digest = replicate 64 0\<rparr>;
       i = \<lparr>ih_version = 1, ih_indexType = 7, ih_databaseUuid = replicate 16 0, ih_tableId = 1,
      ih_indexId = 2\<rparr>
   in valid_blockheader h \<and> valid_indexheader 7 i \<and>
     blockheader_deserialize (blockheader_serialize h) = Some (h, kBlockHeaderSize) \<and>
     indexheader_deserialize 6 (indexheader_serialize i) = None"
proof -
  let ?h = "\<lparr>cb_version = 1, cb_databaseUuid = replicate 16 0, cb_tableId = 1, cb_columnId = 2,
      cb_blockId = 3, cb_prevBlockId = 0, cb_dataAreaOffset = 1024, cb_dataAreaSize = 4096,
      cb_nextDataOffset = 0, cb_commitedDataOffset = 0, cb_fillTimestamp = 0,
      cb_digest = replicate 64 0\<rparr>"
  let ?i = "\<lparr>ih_version = 1, ih_indexType = 7, ih_databaseUuid = replicate 16 0, ih_tableId = 1,
      ih_indexId = 2\<rparr>"
  have "valid_blockheader ?h" "valid_indexheader 7 ?i" "cb_version (?h\<lparr>cb_version := 2\<rparr>) > kBlockHeaderVersion"
    by (simp_all add: valid_blockheader_def valid_indexheader_def kBlockHeaderVersion_def
        kIndexHeaderVersion_def kUuidSize_def kDigestLength_def)
  with headers_roundtrip [of ?h 7 ?i 6 "?h\<lparr>cb_version := 2\<rparr>" "[]"] show ?thesis
    unfolding Let_def by simp
qed

text \<open>Two declared sizes are too small.  The serialized size of a column data address reaches 15
  bytes, one more than the declared maximum, and an index file header takes four bytes more than
  declared, because its version is not counted.\<close>

theorem declared_sizes_too_small:
  assumes "valid_indexheader t i"
  shows "address_getSerializedSize a \<le> kMaxSerializedAddressSize + 1 \<and>
    address_getSerializedSize \<lparr>m_blockId = -1, m_offset = -1\<rparr> = kMaxSerializedAddressSize + 1 \<and>
    length (indexheader_serialize i) = kIndexFileHeaderSerializedSize + 4"
proof -
  have "getVarUInt64Size (-1) = 10" "getVarUInt32Size (-1) = 5" by code_simp+
  then show ?thesis
    using getVarUIntSize_max(2) [of "m_offset a"] getVarUIntSize_max(3) [of "m_blockId a"]
      indexhdr.length_ser [OF assms]
    by (simp add: address_getSerializedSize_def kMaxSerializedAddressSize_def
        kMaxSerializedInt32Size_def kMaxSerializedInt64Size_def)
qed

theorem declared_sizes_too_small_witness:
  "length (indexheader_serialize \<lparr>ih_version = 1, ih_indexType = 7, ih_databaseUuid = replicate 16 0,
    ih_tableId = 1, ih_indexId = 2\<rparr>) = 33"
proof -
  have "valid_indexheader 7 \<lparr>ih_version = 1, ih_indexType = 7, ih_databaseUuid = replicate 16 0,
    ih_tableId = 1, ih_indexId = 2\<rparr>"
    by (simp add: valid_indexheader_def kIndexHeaderVersion_def kUuidSize_def)
  from declared_sizes_too_small [OF this] show ?thesis
    by (simp add: kIndexFileHeaderSerializedSize_def kFullIndexIdSize_def kUuidSize_def)
qed

end
