(* ===== verification/IndexKeys.thy ===== *)
theory IndexKeys
  imports Prelude
begin

text \<open>
  Keys of the linear indexes: the key traits classes (\<open>ikt/*IndexKeyTraits.cpp\<close>) and the mapping between
  a key and the unsigned number that selects its record (\<open>UniqueLinearIndex::decodeKey\<close>,
  \<open>UniqueLinearIndex::encodeKey\<close>).  A key is its bytes in memory (little-endian); \<open>le_nat\<close> reads it as an
  unsigned number.
\<close>

section \<open>Key traits\<close>

datatype KeyType =
    Int8Key | UInt8Key | Int16Key | UInt16Key | Int32Key | UInt32Key | Int64Key | UInt64Key

definition getKeySize :: "KeyType \<Rightarrow> nat" where
  "getKeySize t = (case t of
      Int8Key \<Rightarrow> 1 | UInt8Key \<Rightarrow> 1 | Int16Key \<Rightarrow> 2 | UInt16Key \<Rightarrow> 2
    | Int32Key \<Rightarrow> 4 | UInt32Key \<Rightarrow> 4 | Int64Key \<Rightarrow> 8 | UInt64Key \<Rightarrow> 8)"

text \<open>\<open>getNumericKeyType\<close> and \<open>validateKeyType\<close>: whether the key is a signed integer.\<close>

definition isSignedKey :: "KeyType \<Rightarrow> bool" where
  "isSignedKey t \<longleftrightarrow> t \<in> {Int8Key, Int16Key, Int32Key, Int64Key}"

text \<open>The extreme keys of each class, written byte by byte into a buffer.  The buffer that the index passes is not
  initialised, so its old contents are an argument.\<close>

definition Int8_getMinKey :: "bytes \<Rightarrow> bytes" where
  "Int8_getMinKey k = k[0 := 0x80]"

definition UInt8_getMinKey :: "bytes \<Rightarrow> bytes" where
  "UInt8_getMinKey k = k[0 := 0x80]"

definition Int16_getMinKey :: "bytes \<Rightarrow> bytes" where
  "Int16_getMinKey k = k[0 := 0, 1 := 0x80]"

definition UInt16_getMinKey :: "bytes \<Rightarrow> bytes" where
  "UInt16_getMinKey k = k[0 := 0, 1 := 0]"

definition Int32_getMinKey :: "bytes \<Rightarrow> bytes" where
  "Int32_getMinKey k = k[0 := 0, 1 := 0, 2 := 0, 3 := 0x80]"

definition UInt32_getMinKey :: "bytes \<Rightarrow> bytes" where
  "UInt32_getMinKey k = k[0 := 0, 1 := 0, 2 := 0, 3 := 0]"

definition Int64_getMinKey :: "bytes \<Rightarrow> bytes" where
  "Int64_getMinKey k = k[0 := 0, 1 := 0, 2 := 0, 3 := 0, 4 := 0, 5 := 0, 6 := 0, 7 := 0x80]"

definition UInt64_getMinKey :: "bytes \<Rightarrow> bytes" where
  "UInt64_getMinKey k = k[0 := 0, 1 := 0, 2 := 0, 3 := 0, 4 := 0, 5 := 0, 6 := 0, 7 := 0]"

definition traits_getMinKey :: "KeyType \<Rightarrow> bytes \<Rightarrow> bytes" where
  "traits_getMinKey t = (case t of
      Int8Key \<Rightarrow> Int8_getMinKey
    | UInt8Key \<Rightarrow> UInt8_getMinKey
    | Int16Key \<Rightarrow> Int16_getMinKey
    | UInt16Key \<Rightarrow> UInt16_getMinKey
    | Int32Key \<Rightarrow> Int32_getMinKey
    | UInt32Key \<Rightarrow> UInt32_getMinKey
    | Int64Key \<Rightarrow> Int64_getMinKey
    | UInt64Key \<Rightarrow> UInt64_getMinKey)"

definition Int8_getMaxKey :: "bytes \<Rightarrow> bytes" where
  "Int8_getMaxKey k = k[0 := 0x7F]"

definition UInt8_getMaxKey :: "bytes \<Rightarrow> bytes" where
  "UInt8_getMaxKey k = k[0 := 0x7F]"

definition Int16_getMaxKey :: "bytes \<Rightarrow> bytes" where
  "Int16_getMaxKey k = k[0 := 0xFF, 1 := 0x7F]"

definition UInt16_getMaxKey :: "bytes \<Rightarrow> bytes" where
  "UInt16_getMaxKey k = k[0 := 0xFF, 1 := 0xFF]"

definition Int32_getMaxKey :: "bytes \<Rightarrow> bytes" where
  "Int32_getMaxKey k = k[0 := 0xFF, 1 := 0xFF, 2 := 0xFF, 3 := 0x7F]"

definition UInt32_getMaxKey :: "bytes \<Rightarrow> bytes" where
  "UInt32_getMaxKey k = k[0 := 0xFF, 1 := 0xFF, 2 := 0xFF, 3 := 0xFF]"

definition Int64_getMaxKey :: "bytes \<Rightarrow> bytes" where
  "Int64_getMaxKey k = k[0 := 0xFF, 1 := 0xFF, 2 := 0xFF, 3 := 0xFF, 4 := 0xFF, 5 := 0xFF, 6 := 0xFF, 1 := 0x7F]"

definition UInt64_getMaxKey :: "bytes \<Rightarrow> bytes" where
  "UInt64_getMaxKey k = k[0 := 0xFF, 1 := 0xFF, 2 := 0xFF, 3 := 0xFF, 4 := 0xFF, 5 := 0xFF, 6 := 0xFF, 1 := 0xFF]"

definition traits_getMaxKey :: "KeyType \<Rightarrow> bytes \<Rightarrow> bytes" where
  "traits_getMaxKey t = (case t of
      Int8Key \<Rightarrow> Int8_getMaxKey
    | UInt8Key \<Rightarrow> UInt8_getMaxKey
    | Int16Key \<Rightarrow> Int16_getMaxKey
    | UInt16Key \<Rightarrow> UInt16_getMaxKey
    | Int32Key \<Rightarrow> Int32_getMaxKey
    | UInt32Key \<Rightarrow> UInt32_getMaxKey
    | Int64Key \<Rightarrow> Int64_getMaxKey
    | UInt64Key \<Rightarrow> UInt64_getMaxKey)"

section \<open>Numeric keys\<close>

fun le_nat :: "bytes \<Rightarrow> nat" where
  "le_nat [] = 0"
| "le_nat (b # bs) = unat b + 256 * le_nat bs"

fun le_bytes :: "nat \<Rightarrow> nat \<Rightarrow> bytes" where
  "le_bytes 0 n = []"
| "le_bytes (Suc k) n = of_nat (n mod 256) # le_bytes k (n div 256)"

definition keyBits :: "KeyType \<Rightarrow> nat" where
  "keyBits t = 8 * getKeySize t"

text \<open>\<open>encodeSignedInt\<close> and \<open>decodeSignedInt8/16/32/64\<close> on the unsigned bit patterns: both add the weight of
  the sign bit modulo the width of the type.\<close>

definition encodeSignedInt :: "nat \<Rightarrow> nat \<Rightarrow> nat" where
  "encodeSignedInt w n = (n + 2 ^ (w - 1)) mod 2 ^ w"

definition decodeSignedInt :: "nat \<Rightarrow> nat \<Rightarrow> nat" where
  "decodeSignedInt w n = (n mod 2 ^ w + 2 ^ w - 2 ^ (w - 1)) mod 2 ^ w"

definition decodeKey :: "KeyType \<Rightarrow> bytes \<Rightarrow> nat" where
  "decodeKey t key =
    (if isSignedKey t then encodeSignedInt (keyBits t) (le_nat key) else le_nat key)"

definition encodeKey :: "KeyType \<Rightarrow> nat \<Rightarrow> bytes" where
  "encodeKey t numericKey =
    le_bytes (getKeySize t)
      (if isSignedKey t then decodeSignedInt (keyBits t) numericKey
       else numericKey mod 2 ^ keyBits t)"

text \<open>\<open>compareKeys\<close> of the traits class: the keys as C++ integers of the class's type.\<close>

definition key_int :: "KeyType \<Rightarrow> bytes \<Rightarrow> int" where
  "key_int t key =
    (if isSignedKey t \<and> 2 ^ (keyBits t - 1) \<le> le_nat key then int (le_nat key) - 2 ^ keyBits t
     else int (le_nat key))"

definition compareKeys :: "KeyType \<Rightarrow> bytes \<Rightarrow> bytes \<Rightarrow> int" where
  "compareKeys t a b =
    (if key_int t a = key_int t b then 0 else if key_int t a < key_int t b then -1 else 1)"

section \<open>Keys and numbers correspond\<close>

lemma le_nat_bound: "le_nat bs < 256 ^ length bs"
proof (induction bs)
  case (Cons b bs)
  define p :: nat where "p = 256 ^ length bs"
  have "unat b < 256" by simp
  moreover have "le_nat bs < p" using Cons.IH by (simp add: p_def)
  ultimately have "unat b + 256 * le_nat bs < 256 * p" by linarith
  then show ?case by (simp add: p_def)
qed simp

lemma length_le_bytes [simp]: "length (le_bytes k n) = k"
  by (induction k arbitrary: n) simp_all

lemma le_nat_bytes: "le_nat (le_bytes k n) = n mod 256 ^ k"
proof (induction k arbitrary: n)
  case (Suc k)
  have "unat (of_nat (n mod 256) :: uint8) = n mod 256" by (simp add: unat_of_nat)
  then show ?case using Suc by (simp add: mod_mult2_eq)
qed simp

lemma le_bytes_nat: "le_bytes (length bs) (le_nat bs) = bs"
  by (induction bs) (simp_all add: of_nat_unat)

lemma le_nat_inj: "length a = length b \<Longrightarrow> le_nat a = le_nat b \<Longrightarrow> a = b"
  by (metis le_bytes_nat)

lemma pow_keyBits: "256 ^ getKeySize t = (2::nat) ^ keyBits t"
  by (simp add: keyBits_def power_mult)

lemma keyBits_pos: "0 < keyBits t"
  by (cases t) (simp_all add: keyBits_def getKeySize_def)

lemma half_pow: "0 < w \<Longrightarrow> (2::nat) ^ w = 2 * 2 ^ (w - 1)"
  by (cases w) simp_all

lemma mod_add_half:
  assumes "n < 2 * (h::nat)"
  shows "(n + h) mod (2 * h) = (if n < h then n + h else n - h)"
    "(n + 2 * h - h) mod (2 * h) = (if n < h then n + h else n - h)"
proof -
  have "(n + h) mod (2 * h) = n - h" if "\<not> n < h"
  proof -
    have "n + h = n - h + 2 * h" using that by simp
    then have "(n + h) mod (2 * h) = (n - h) mod (2 * h)" by (simp only: mod_add_self2)
    then show ?thesis using assms by simp
  qed
  then show *: "(n + h) mod (2 * h) = (if n < h then n + h else n - h)" by simp
  have "n + 2 * h - h = n + h" by simp
  with * show "(n + 2 * h - h) mod (2 * h) = (if n < h then n + h else n - h)" by (simp only:)
qed

lemma signed_inverse:
  assumes "0 < w" "n < 2 ^ w"
  shows "encodeSignedInt w (decodeSignedInt w n) = n" "decodeSignedInt w (encodeSignedInt w n) = n"
proof -
  define h :: nat where "h = 2 ^ (w - 1)"
  have h: "(2::nat) ^ w = 2 * h" "0 < h" using half_pow [OF assms(1)] by (simp_all add: h_def)
  have n: "n < 2 * h" using assms(2) h(1) by simp
  show "encodeSignedInt w (decodeSignedInt w n) = n" "decodeSignedInt w (encodeSignedInt w n) = n"
    unfolding encodeSignedInt_def decodeSignedInt_def h_def [symmetric] h(1)
    using n h(2) mod_add_half(1) [of n h] mod_add_half(2) [of n h]
      mod_add_half(1) [of "if n < h then n + h else n - h" h]
      mod_add_half(2) [of "if n < h then n + h else n - h" h]
    by (simp_all split: if_splits)
qed

lemma key_bound: "length key = getKeySize t \<Longrightarrow> le_nat key < 2 ^ keyBits t"
  using le_nat_bound [of key] by (simp add: pow_keyBits)

lemma decodeKey_bound: "length key = getKeySize t \<Longrightarrow> decodeKey t key < 2 ^ keyBits t"
  using key_bound by (simp add: decodeKey_def encodeSignedInt_def)

lemma length_encodeKey [simp]: "length (encodeKey t n) = getKeySize t"
  by (simp add: encodeKey_def)

lemma decode_encodeKey: "n < 2 ^ keyBits t \<Longrightarrow> decodeKey t (encodeKey t n) = n"
proof -
  assume n: "n < 2 ^ keyBits t"
  have "decodeSignedInt (keyBits t) n < 2 ^ keyBits t" by (simp add: decodeSignedInt_def)
  then show ?thesis
    using n signed_inverse(1) [OF keyBits_pos n]
    by (simp add: decodeKey_def encodeKey_def le_nat_bytes pow_keyBits)
qed

lemma encode_decodeKey: "length key = getKeySize t \<Longrightarrow> encodeKey t (decodeKey t key) = key"
  using signed_inverse(2) [OF keyBits_pos key_bound [of key t]] key_bound [of key t] le_bytes_nat [of key]
  by (simp add: decodeKey_def encodeKey_def)

lemma key_int_decode:
  assumes "length key = getKeySize t"
  shows "key_int t key = int (decodeKey t key) - (if isSignedKey t then 2 ^ (keyBits t - 1) else 0)"
proof -
  define h :: nat where "h = 2 ^ (keyBits t - 1)"
  have p: "(2::nat) ^ keyBits t = 2 * h" "0 < h"
    using half_pow [OF keyBits_pos, of t] by (simp_all add: h_def)
  have pi: "(2::int) ^ keyBits t = 2 * int h" "(2::int) ^ (keyBits t - 1) = int h"
    using p(1) by (simp_all add: h_def) (metis of_nat_numeral of_nat_mult of_nat_power)
  show ?thesis
    using key_bound [OF assms] mod_add_half(1) [of "le_nat key" h]
    unfolding key_int_def decodeKey_def encodeSignedInt_def p(1) pi h_def [symmetric] by simp
qed

lemma compareKeys_numeric:
  assumes "length a = getKeySize t" "length b = getKeySize t"
  shows "compareKeys t a b = 0 \<longleftrightarrow> decodeKey t a = decodeKey t b"
    "compareKeys t a b < 0 \<longleftrightarrow> decodeKey t a < decodeKey t b"
    "compareKeys t a b > 0 \<longleftrightarrow> decodeKey t a > decodeKey t b"
  unfolding compareKeys_def key_int_decode [OF assms(1)] key_int_decode [OF assms(2)] by auto

lemma decodeKey_inj:
  "length a = getKeySize t \<Longrightarrow> length b = getKeySize t \<Longrightarrow> decodeKey t a = decodeKey t b \<Longrightarrow> a = b"
  by (metis encode_decodeKey)

lemma list_1_2_4_8:
  "length k = 1 \<Longrightarrow> k = [k ! 0]" "length k = 2 \<Longrightarrow> k = [k ! 0, k ! 1]"
  "length k = 4 \<Longrightarrow> k = [k ! 0, k ! 1, k ! 2, k ! 3]"
  "length k = 8 \<Longrightarrow> k = [k ! 0, k ! 1, k ! 2, k ! 3, k ! 4, k ! 5, k ! 6, k ! 7]"
  using map_nth [of k, symmetric] by (simp_all add: upt_rec numeral_eq_Suc)

lemmas traits_key_defs = traits_getMinKey_def traits_getMaxKey_def
  Int8_getMinKey_def UInt8_getMinKey_def Int16_getMinKey_def UInt16_getMinKey_def
  Int32_getMinKey_def UInt32_getMinKey_def Int64_getMinKey_def UInt64_getMinKey_def
  Int8_getMaxKey_def UInt8_getMaxKey_def Int16_getMaxKey_def UInt16_getMaxKey_def
  Int32_getMaxKey_def UInt32_getMaxKey_def Int64_getMaxKey_def UInt64_getMaxKey_def

lemmas key_traits_simps = traits_key_defs getKeySize_def isSignedKey_def
  keyBits_def decodeKey_def encodeSignedInt_def

lemma key_shape:
  assumes "length k = getKeySize t"
  obtains a b c d e f g h where "k = (case t of Int8Key \<Rightarrow> [a] | UInt8Key \<Rightarrow> [a]
      | Int16Key \<Rightarrow> [a, b] | UInt16Key \<Rightarrow> [a, b] | Int32Key \<Rightarrow> [a, b, c, d] | UInt32Key \<Rightarrow> [a, b, c, d]
      | _ \<Rightarrow> [a, b, c, d, e, f, g, h])"
proof -
  have "k = (case t of Int8Key \<Rightarrow> [k ! 0] | UInt8Key \<Rightarrow> [k ! 0]
      | Int16Key \<Rightarrow> [k ! 0, k ! 1] | UInt16Key \<Rightarrow> [k ! 0, k ! 1]
      | Int32Key \<Rightarrow> [k ! 0, k ! 1, k ! 2, k ! 3] | UInt32Key \<Rightarrow> [k ! 0, k ! 1, k ! 2, k ! 3]
      | _ \<Rightarrow> [k ! 0, k ! 1, k ! 2, k ! 3, k ! 4, k ! 5, k ! 6, k ! 7])"
    using assms list_1_2_4_8 [of k] by (cases t) (simp_all add: getKeySize_def)
  then show ?thesis by (rule that)
qed

lemma traits_min_zero:
  assumes "length k = getKeySize t" and "t \<noteq> UInt8Key"
  shows "decodeKey t (traits_getMinKey t k) = 0"
proof -
  obtain a b c d e f g h where "k = (case t of Int8Key \<Rightarrow> [a] | UInt8Key \<Rightarrow> [a]
      | Int16Key \<Rightarrow> [a, b] | UInt16Key \<Rightarrow> [a, b] | Int32Key \<Rightarrow> [a, b, c, d] | UInt32Key \<Rightarrow> [a, b, c, d]
      | _ \<Rightarrow> [a, b, c, d, e, f, g, h])" by (rule key_shape [OF assms(1)])
  then show ?thesis using assms(2) by (cases t) (simp_all add: key_traits_simps)
qed

section \<open>Properties\<close>

text \<open>C24: Keys and record numbers correspond one to one for all eight key types, and comparing two keys as
  C++ integers is comparing their numbers, so that walking record numbers upwards visits signed keys in
  their order.\<close>

theorem key_number_order_isomorphism:
  assumes "length a = getKeySize t" and "length b = getKeySize t" and "n < 2 ^ keyBits t"
  shows "encodeKey t (decodeKey t a) = a \<and> decodeKey t (encodeKey t n) = n \<and>
    decodeKey t a < 2 ^ keyBits t \<and>
    (compareKeys t a b = 0 \<longleftrightarrow> decodeKey t a = decodeKey t b) \<and>
    (compareKeys t a b < 0 \<longleftrightarrow> decodeKey t a < decodeKey t b) \<and>
    (compareKeys t a b > 0 \<longleftrightarrow> decodeKey t a > decodeKey t b)"
  using assms compareKeys_numeric [OF assms(1,2)]
  by (simp add: encode_decodeKey decode_encodeKey decodeKey_bound)

theorem key_number_order_isomorphism_witness:
  "compareKeys Int16Key [0xFF, 0xFF] [1, 0] < 0 \<and> decodeKey Int16Key [0xFF, 0xFF] = 32767 \<and>
   encodeKey Int16Key (decodeKey Int16Key [0xFF, 0xFF]) = [0xFF, 0xFF]"
proof -
  have "decodeKey Int16Key [0xFF, 0xFF] = 32767" "decodeKey Int16Key [1, 0] = 32769"
    by (simp_all add: decodeKey_def isSignedKey_def keyBits_def getKeySize_def encodeSignedInt_def)
  with key_number_order_isomorphism [of "[0xFF, 0xFF]" Int16Key "[1, 0]" 0] show ?thesis
    by (simp add: getKeySize_def)
qed

text \<open>The extreme keys announced by the traits classes.  For seven of the eight types the smallest key has
  number 0, for five the largest key has the largest number.  The class for unsigned bytes announces 128
  and 127, so its smallest key is above its largest, and the classes for 64-bit keys leave the top byte
  of the largest key as they find it.\<close>

theorem traits_extreme_keys:
  assumes "length k = getKeySize t"
  shows "(t \<noteq> UInt8Key \<longleftrightarrow> decodeKey t (traits_getMinKey t k) = 0) \<and>
    (t \<in> {Int8Key, Int16Key, UInt16Key, Int32Key, UInt32Key} \<longrightarrow>
      decodeKey t (traits_getMaxKey t k) = 2 ^ keyBits t - 1) \<and>
    (t = UInt8Key \<longrightarrow>
      decodeKey t (traits_getMaxKey t k) < decodeKey t (traits_getMinKey t k)) \<and>
    (t \<in> {Int64Key, UInt64Key} \<longrightarrow> traits_getMaxKey t k ! 7 = k ! 7)"
proof -
  obtain a b c d e f g h where "k = (case t of Int8Key \<Rightarrow> [a] | UInt8Key \<Rightarrow> [a]
      | Int16Key \<Rightarrow> [a, b] | UInt16Key \<Rightarrow> [a, b] | Int32Key \<Rightarrow> [a, b, c, d] | UInt32Key \<Rightarrow> [a, b, c, d]
      | _ \<Rightarrow> [a, b, c, d, e, f, g, h])" by (rule key_shape [OF assms])
  then show ?thesis by (cases t) (simp_all add: key_traits_simps)
qed

theorem traits_extreme_keys_witness:
  "decodeKey UInt8Key (traits_getMaxKey UInt8Key [0]) < decodeKey UInt8Key (traits_getMinKey UInt8Key [0]) \<and>
   traits_getMaxKey UInt64Key [0, 0, 0, 0, 0, 0, 0, 0] ! 7 = 0"
  using traits_extreme_keys [of "[0]" UInt8Key]
    traits_extreme_keys [of "[0, 0, 0, 0, 0, 0, 0, 0]" UInt64Key]
  by (simp add: getKeySize_def)

end
