(* ===== verification/LinearIndex.thy ===== *)
theory LinearIndex
  imports IndexKeys
begin

text \<open>
  The unique linear index (\<open>uli/UniqueLinearIndex.cpp\<close>, \<open>uli/FileData.cpp\<close>): the index that maps the
  row identifiers of a table to the addresses of the rows.  Every possible key has a fixed slot: record
  \<open>k mod R\<close> of file \<open>k div R + 1\<close>, where \<open>R\<close> is the number of records per file.  A record is a state byte
  and two value slots; an update writes the slot not in use and then flips the state byte.

  The state holds the data areas of the files that exist (the file cache writes through, so memory and
  disk agree) and the two cached extreme keys.  Numeric keys are natural numbers: file ids stay at or
  below \<open>m_maxPossibleFileId\<close>, so the 64-bit arithmetic of the code does not wrap.
\<close>

section \<open>State\<close>

record ULI =
  u_type :: KeyType
  u_sortDescending :: bool
  u_valueSize :: nat
  u_dataFileSize :: nat
  u_minPossibleKey :: bytes
  u_maxPossibleKey :: bytes
  u_fileIds :: "nat list"
  u_data :: "nat \<rightharpoonup> bytes"
  u_minKey :: bytes
  u_maxKey :: bytes
  u_minNumericKey :: nat
  u_maxNumericKey :: nat

text \<open>Errors: a file id above the maximum, a file that should exist, a state byte above 2, an update
  outside of the data area, the two failures of the extreme key search, an invalid file size, and
  the decrement of the begin iterator of an empty set.\<close>

datatype uli_error =
    FileIdOutOfRange | MissingFile | Corrupted | UpdateOutOfRange
  | MissingGreaterValue | MissingLessValue | InvalidFileSize | IteratorBeforeBegin

type_synonym 'a uli_result = "uli_error + 'a"

definition kIndexFileHeaderSize :: nat where "kIndexFileHeaderSize = 1024"
definition kMinDataFileSize :: nat where "kMinDataFileSize = kIndexFileHeaderSize + 4096"
definition kMaxDataFileSize :: nat where
  "kMaxDataFileSize = kIndexFileHeaderSize + 100 * 1024 * 1024"

definition kValueStateFree :: uint8 where "kValueStateFree = 0"
definition kValueStateExists1 :: uint8 where "kValueStateExists1 = 1"
definition kValueStateExists2 :: uint8 where "kValueStateExists2 = 2"

definition validateIndexFileSize :: "nat \<Rightarrow> nat uli_result" where
  "validateIndexFileSize n =
    (if n < kMinDataFileSize then Inl InvalidFileSize
     else if n > kMaxDataFileSize then Inl InvalidFileSize
     else Inr n)"

definition m_recordSize :: "ULI \<Rightarrow> nat" where
  "m_recordSize s = u_valueSize s * 2 + 1"

definition m_numberOfRecordsPerFile :: "ULI \<Rightarrow> nat" where
  "m_numberOfRecordsPerFile s = (u_dataFileSize s - kIndexFileHeaderSize) div m_recordSize s"

definition getFileIdForKey :: "ULI \<Rightarrow> nat \<Rightarrow> nat" where
  "getFileIdForKey s numericKey = numericKey div m_numberOfRecordsPerFile s + 1"

definition computeMaxPossibleFileId :: "ULI \<Rightarrow> nat" where
  "computeMaxPossibleFileId s =
    (let n = decodeKey (u_type s) (u_maxPossibleKey s) in
     n div m_numberOfRecordsPerFile s + (if n mod m_numberOfRecordsPerFile s > 0 then 1 else 0))"

definition m_keyCompare :: "ULI \<Rightarrow> bytes \<Rightarrow> bytes \<Rightarrow> int" where
  "m_keyCompare s = compareKeys (u_type s)"

definition getMinAvailableFileId :: "ULI \<Rightarrow> nat" where
  "getMinAvailableFileId s = (if u_fileIds s = [] then 0 else hd (u_fileIds s))"

definition getMaxAvailableFileId :: "ULI \<Rightarrow> nat" where
  "getMaxAvailableFileId s = (if u_fileIds s = [] then 0 else last (u_fileIds s))"

section \<open>Files\<close>

definition getRecordOffsetInMemory :: "ULI \<Rightarrow> nat \<Rightarrow> nat" where
  "getRecordOffsetInMemory s recordId =
    (recordId mod m_numberOfRecordsPerFile s) * m_recordSize s"

text \<open>\<open>FileData::update\<close>: \<open>m_data.at(pos)\<close> throws for a position outside of the data.\<close>

definition FileData_update :: "bytes \<Rightarrow> nat \<Rightarrow> bytes \<Rightarrow> bytes uli_result" where
  "FileData_update m_data pos src =
    (if pos \<ge> length m_data then Inl UpdateOutOfRange
     else if length src > 0 then
       (if length src > length m_data \<or> length m_data - length src < pos then Inl UpdateOutOfRange
        else Inr (splice m_data pos src))
     else Inr m_data)"

definition findFile :: "ULI \<Rightarrow> nat \<Rightarrow> bytes option uli_result" where
  "findFile s fileId =
    (if fileId > computeMaxPossibleFileId s then Inl FileIdOutOfRange
     else if fileId \<notin> set (u_fileIds s) then Inr None
     else Inr (u_data s fileId))"

definition findFileChecked :: "ULI \<Rightarrow> nat \<Rightarrow> bytes uli_result" where
  "findFileChecked s fileId =
    (case findFile s fileId of
       Inl e \<Rightarrow> Inl e | Inr None \<Rightarrow> Inl MissingFile | Inr (Some file) \<Rightarrow> Inr file)"

text \<open>\<open>makeFile\<close>: a new file is extended to its size with zero bytes.\<close>

definition makeFile :: "ULI \<Rightarrow> nat \<Rightarrow> ULI \<times> bytes" where
  "makeFile s fileId =
    (let d = replicate (u_dataFileSize s - kIndexFileHeaderSize) 0 in
     (s\<lparr>u_fileIds := insort_insert fileId (u_fileIds s), u_data := (u_data s)(fileId \<mapsto> d)\<rparr>, d))"

definition put_file :: "ULI \<Rightarrow> nat \<Rightarrow> bytes \<Rightarrow> ULI" where
  "put_file s fileId d = s\<lparr>u_data := (u_data s)(fileId \<mapsto> d)\<rparr>"

definition preallocate :: "ULI \<Rightarrow> bytes \<Rightarrow> (ULI \<times> bool) uli_result" where
  "preallocate s key =
    (let fileId = getFileIdForKey s (decodeKey (u_type s) key) in
     case findFile s fileId of
       Inl e \<Rightarrow> Inl e
     | Inr (Some file) \<Rightarrow> Inr (s, False)
     | Inr None \<Rightarrow> Inr (fst (makeFile s fileId), True))"

section \<open>Insertion, update, lookup\<close>

text \<open>The extreme keys after an insertion.\<close>

definition insert_minmax :: "ULI \<Rightarrow> bytes \<Rightarrow> ULI" where
  "insert_minmax s key =
    (let numericKey = decodeKey (u_type s) key in
     if m_keyCompare s (u_maxKey s) (u_minKey s) < 0 then
       s\<lparr>u_minKey := key, u_maxKey := key,
         u_minNumericKey := numericKey, u_maxNumericKey := numericKey\<rparr>
     else
       s\<lparr>u_minKey := if m_keyCompare s key (u_minKey s) < 0 then key else u_minKey s,
         u_maxKey := if m_keyCompare s key (u_maxKey s) > 0 then key else u_maxKey s,
         u_minNumericKey := if numericKey < u_minNumericKey s then numericKey else u_minNumericKey s,
         u_maxNumericKey := if numericKey > u_maxNumericKey s then numericKey else u_maxNumericKey s\<rparr>)"

definition insert_open :: "ULI \<Rightarrow> nat \<Rightarrow> (ULI \<times> bytes) uli_result" where
  "insert_open s fileId =
    (case findFile s fileId of
       Inl e \<Rightarrow> Inl e | Inr (Some file) \<Rightarrow> Inr (s, file) | Inr None \<Rightarrow> Inr (makeFile s fileId))"

definition uli_insert :: "ULI \<Rightarrow> bytes \<Rightarrow> bytes \<Rightarrow> (ULI \<times> bool) uli_result" where
  "uli_insert s key v =
    (let numericKey = decodeKey (u_type s) key; fileId = getFileIdForKey s numericKey;
         offset = getRecordOffsetInMemory s numericKey in
     case insert_open s fileId of
       Inl e \<Rightarrow> Inl e
     | Inr (s1, file) \<Rightarrow>
         if file ! offset = kValueStateFree then
           (case FileData_update file (offset + 1) v of
              Inl e \<Rightarrow> Inl e
            | Inr file1 \<Rightarrow>
                (case FileData_update file1 offset [kValueStateExists1] of
                   Inl e \<Rightarrow> Inl e
                 | Inr file2 \<Rightarrow> Inr (insert_minmax (put_file s1 fileId file2) key, True)))
         else Inr (s1, False))"

definition uli_update :: "ULI \<Rightarrow> bytes \<Rightarrow> bytes \<Rightarrow> (ULI \<times> nat) uli_result" where
  "uli_update s key v =
    (let numericKey = decodeKey (u_type s) key; fileId = getFileIdForKey s numericKey;
         offset = getRecordOffsetInMemory s numericKey in
     case findFile s fileId of
       Inl e \<Rightarrow> Inl e
     | Inr None \<Rightarrow> Inr (s, 0)
     | Inr (Some file) \<Rightarrow>
         if file ! offset \<noteq> kValueStateFree then
           let state = (if file ! offset = kValueStateExists1 then kValueStateExists2
                        else kValueStateExists1) in
           (case FileData_update file (offset + 1 + u_valueSize s * (unat state - 1)) v of
              Inl e \<Rightarrow> Inl e
            | Inr file1 \<Rightarrow>
                (case FileData_update file1 offset [state] of
                   Inl e \<Rightarrow> Inl e
                 | Inr file2 \<Rightarrow> Inr (put_file s fileId file2, 1)))
         else Inr (s, 0))"

text \<open>\<open>find\<close> with a positive \<open>count\<close>.\<close>

definition uli_find :: "ULI \<Rightarrow> bytes \<Rightarrow> bytes option uli_result" where
  "uli_find s key =
    (let numericKey = decodeKey (u_type s) key; offset = getRecordOffsetInMemory s numericKey in
     case findFile s (getFileIdForKey s numericKey) of
       Inl e \<Rightarrow> Inl e
     | Inr None \<Rightarrow> Inr None
     | Inr (Some file) \<Rightarrow>
         let state = file ! offset in
         if state \<noteq> kValueStateFree then
           if state \<le> kValueStateExists2 then
             Inr (Some (slice file (offset + 1 + (unat state - 1) * u_valueSize s) (u_valueSize s)))
           else Inl Corrupted
         else Inr None)"

definition uli_count :: "ULI \<Rightarrow> bytes \<Rightarrow> nat uli_result" where
  "uli_count s key =
    (let numericKey = decodeKey (u_type s) key in
     case findFile s (getFileIdForKey s numericKey) of
       Inl e \<Rightarrow> Inl e
     | Inr None \<Rightarrow> Inr 0
     | Inr (Some file) \<Rightarrow>
         Inr (if file ! getRecordOffsetInMemory s numericKey \<noteq> kValueStateFree then 1 else 0))"

definition uli_getMinKey :: "ULI \<Rightarrow> bytes option" where
  "uli_getMinKey s =
    (if m_keyCompare s (u_minKey s) (u_maxKey s) > 0 then None else Some (u_minKey s))"

definition uli_getMaxKey :: "ULI \<Rightarrow> bytes option" where
  "uli_getMaxKey s =
    (if m_keyCompare s (u_minKey s) (u_maxKey s) > 0 then None else Some (u_maxKey s))"

section \<open>Scans\<close>

text \<open>One file of \<open>findLeadingKey\<close>: \<open>i\<close> slots have been seen, \<open>n\<close> are left.\<close>

fun leading_scan :: "bytes \<Rightarrow> nat \<Rightarrow> nat \<Rightarrow> nat \<Rightarrow> nat option" where
  "leading_scan d rs i 0 = None"
| "leading_scan d rs i (Suc n) =
    (if d ! (i * rs) \<noteq> kValueStateFree then Some i else leading_scan d rs (i + 1) n)"

fun trailing_scan :: "bytes \<Rightarrow> nat \<Rightarrow> nat \<Rightarrow> nat option" where
  "trailing_scan d rs 0 = None"
| "trailing_scan d rs (Suc i) =
    (if d ! (i * rs) \<noteq> kValueStateFree then Some i else trailing_scan d rs i)"

fun leading_files :: "ULI \<Rightarrow> nat list \<Rightarrow> bytes option uli_result" where
  "leading_files s [] = Inr None"
| "leading_files s (fileId # fs) =
    (case findFileChecked s fileId of
       Inl e \<Rightarrow> Inl e
     | Inr d \<Rightarrow>
        (case leading_scan d (m_recordSize s) 0 (m_numberOfRecordsPerFile s) of
           Some i \<Rightarrow>
             Inr (Some (encodeKey (u_type s) ((fileId - 1) * m_numberOfRecordsPerFile s + i)))
         | None \<Rightarrow> leading_files s fs))"

fun trailing_files :: "ULI \<Rightarrow> nat list \<Rightarrow> bytes option uli_result" where
  "trailing_files s [] = Inr None"
| "trailing_files s (fileId # fs) =
    (case findFileChecked s fileId of
       Inl e \<Rightarrow> Inl e
     | Inr d \<Rightarrow>
        (case trailing_scan d (m_recordSize s) (m_numberOfRecordsPerFile s) of
           Some i \<Rightarrow>
             Inr (Some (encodeKey (u_type s) ((fileId - 1) * m_numberOfRecordsPerFile s + i)))
         | None \<Rightarrow> trailing_files s fs))"

definition findLeadingKey :: "ULI \<Rightarrow> bytes option uli_result" where
  "findLeadingKey s = leading_files s (u_fileIds s)"

definition findTrailingKey :: "ULI \<Rightarrow> bytes option uli_result" where
  "findTrailingKey s = trailing_files s (rev (u_fileIds s))"

text \<open>The inner loop of \<open>findKeyBefore\<close> after its first decrement has been made: \<open>n\<close> is \<open>recordId + 1\<close>
  and \<open>cur\<close> is \<open>currentNumericKey + 1\<close>.\<close>

fun before_scan :: "ULI \<Rightarrow> bytes \<Rightarrow> bytes \<Rightarrow> nat \<Rightarrow> nat \<Rightarrow> bytes option" where
  "before_scan s d key 0 cur = None"
| "before_scan s d key (Suc recordId) cur =
    (if d ! (recordId * m_recordSize s) \<noteq> kValueStateFree \<and>
        m_keyCompare s (encodeKey (u_type s) (cur - 1)) key < 0
     then Some (encodeKey (u_type s) (cur - 1))
     else before_scan s d key recordId (cur - 1))"

text \<open>The file loop of \<open>findKeyBefore\<close>, which scans every file below the first one from its end.\<close>

definition before_file :: "ULI \<Rightarrow> bytes \<Rightarrow> nat \<Rightarrow> nat \<Rightarrow> nat \<Rightarrow> bytes option uli_result" where
  "before_file s key fileId recordId cur =
    (case findFileChecked s fileId of
       Inl e \<Rightarrow> Inl e | Inr d \<Rightarrow> Inr (before_scan s d key recordId cur))"

fun before_files :: "ULI \<Rightarrow> bytes \<Rightarrow> nat list \<Rightarrow> bytes option uli_result" where
  "before_files s key [] = Inr None"
| "before_files s key (fileId # fs) =
    (let r = m_numberOfRecordsPerFile s in
     case before_file s key fileId r ((fileId - 1) * r + r) of
       Inl e \<Rightarrow> Inl e | Inr (Some k) \<Rightarrow> Inr (Some k) | Inr None \<Rightarrow> before_files s key fs)"

definition findKeyBefore :: "ULI \<Rightarrow> bytes \<Rightarrow> bytes option uli_result" where
  "findKeyBefore s key =
    (if m_keyCompare s key (u_minKey s) = 0 \<or> m_keyCompare s key (u_minPossibleKey s) = 0
     then Inr None
     else
      let numericKey = decodeKey (u_type s) key; fileId = getFileIdForKey s numericKey;
          down = rev (filter (\<lambda>f. f < fileId) (u_fileIds s)) in
      if fileId < getMinAvailableFileId s then Inr None
      else if fileId \<in> set (u_fileIds s) then
        (case before_file s key fileId (numericKey mod m_numberOfRecordsPerFile s) numericKey of
           Inl e \<Rightarrow> Inl e | Inr (Some k) \<Rightarrow> Inr (Some k) | Inr None \<Rightarrow> before_files s key down)
      else if down = [] then Inl IteratorBeforeBegin
      else before_files s key down)"

text \<open>The inner loop of \<open>findKeyAfter\<close>: \<open>i\<close> is the record under the pointer, \<open>n\<close> records are left up to
  the end of the file.\<close>

fun after_scan :: "ULI \<Rightarrow> bytes \<Rightarrow> bytes \<Rightarrow> nat \<Rightarrow> nat \<Rightarrow> nat \<Rightarrow> bytes option" where
  "after_scan s d key i 0 cur = None"
| "after_scan s d key i (Suc n) cur =
    (if d ! (i * m_recordSize s) \<noteq> kValueStateFree \<and>
        m_keyCompare s (encodeKey (u_type s) cur) key > 0
     then Some (encodeKey (u_type s) cur)
     else after_scan s d key (i + 1) n (cur + 1))"

text \<open>The file loop of \<open>findKeyAfter\<close>.  The pointer starts at \<open>getRecordOffsetInMemory(recordId)\<close>, that is
  at record \<open>recordId mod R\<close>.\<close>

definition after_file :: "ULI \<Rightarrow> bytes \<Rightarrow> nat \<Rightarrow> nat \<Rightarrow> nat \<Rightarrow> bytes option uli_result" where
  "after_file s key fileId recordId cur =
    (case findFileChecked s fileId of
       Inl e \<Rightarrow> Inl e
     | Inr d \<Rightarrow>
        let r = m_numberOfRecordsPerFile s; i = recordId mod r in
        Inr (after_scan s d key i (r - i) cur))"

fun after_files :: "ULI \<Rightarrow> bytes \<Rightarrow> nat list \<Rightarrow> bytes option uli_result" where
  "after_files s key [] = Inr None"
| "after_files s key (fileId # fs) =
    (case after_file s key fileId 0 ((fileId - 1) * m_numberOfRecordsPerFile s) of
       Inl e \<Rightarrow> Inl e | Inr (Some k) \<Rightarrow> Inr (Some k) | Inr None \<Rightarrow> after_files s key fs)"

definition findKeyAfter :: "ULI \<Rightarrow> bytes \<Rightarrow> bytes option uli_result" where
  "findKeyAfter s key =
    (if m_keyCompare s key (u_maxKey s) = 0 \<or> m_keyCompare s key (u_maxPossibleKey s) = 0
     then Inr None
     else
      let numericKey = decodeKey (u_type s) key; fileId = getFileIdForKey s numericKey;
          up = filter (\<lambda>f. fileId < f) (u_fileIds s) in
      if fileId > getMaxAvailableFileId s then Inr None
      else if fileId \<in> set (u_fileIds s) then
        (case after_file s key fileId (numericKey mod m_numberOfRecordsPerFile s + 1) (numericKey + 1) of
           Inl e \<Rightarrow> Inl e | Inr (Some k) \<Rightarrow> Inr (Some k) | Inr None \<Rightarrow> after_files s key up)
      else if up = [] then after_files s key (u_fileIds s)
      else after_files s key up)"

definition uli_findFirstKey :: "ULI \<Rightarrow> bytes option uli_result" where
  "uli_findFirstKey s = (if u_sortDescending s then findTrailingKey s else findLeadingKey s)"

definition uli_findLastKey :: "ULI \<Rightarrow> bytes option uli_result" where
  "uli_findLastKey s = (if u_sortDescending s then findLeadingKey s else findTrailingKey s)"

definition uli_findPreviousKey :: "ULI \<Rightarrow> bytes \<Rightarrow> bytes option uli_result" where
  "uli_findPreviousKey s key =
    (if u_sortDescending s then findKeyAfter s key else findKeyBefore s key)"

definition uli_findNextKey :: "ULI \<Rightarrow> bytes \<Rightarrow> bytes option uli_result" where
  "uli_findNextKey s key =
    (if u_sortDescending s then findKeyBefore s key else findKeyAfter s key)"

section \<open>Removal\<close>

text \<open>The last statement of the update of the extreme keys: ordering the two numeric keys.\<close>

definition order_numeric :: "ULI \<Rightarrow> ULI" where
  "order_numeric s =
    (if u_minNumericKey s > u_maxNumericKey s
     then s\<lparr>u_minNumericKey := u_maxNumericKey s, u_maxNumericKey := u_minNumericKey s\<rparr> else s)"

definition set_minKey :: "ULI \<Rightarrow> bytes \<Rightarrow> ULI" where
  "set_minKey s k = order_numeric (s\<lparr>u_minKey := k, u_minNumericKey := decodeKey (u_type s) k\<rparr>)"

definition set_maxKey :: "ULI \<Rightarrow> bytes \<Rightarrow> ULI" where
  "set_maxKey s k = order_numeric (s\<lparr>u_maxKey := k, u_maxNumericKey := decodeKey (u_type s) k\<rparr>)"

text \<open>\<open>lesser\<close> and \<open>greater\<close> are the two searches as the code selects them by the sort order.\<close>

definition search_lesser :: "ULI \<Rightarrow> bytes \<Rightarrow> bytes option uli_result" where
  "search_lesser s key =
    (if u_sortDescending s then uli_findNextKey s key else uli_findPreviousKey s key)"

definition search_greater :: "ULI \<Rightarrow> bytes \<Rightarrow> bytes option uli_result" where
  "search_greater s key =
    (if u_sortDescending s then uli_findPreviousKey s key else uli_findNextKey s key)"

definition updateMinAndMaxKeysAfterRemoval :: "ULI \<Rightarrow> bytes \<Rightarrow> ULI uli_result" where
  "updateMinAndMaxKeysAfterRemoval s removedKey =
    (let isMinKeyRemoved = m_keyCompare s removedKey (u_minKey s) = 0;
         isMaxKeyRemoved = m_keyCompare s removedKey (u_maxKey s) = 0 in
     if isMinKeyRemoved \<and> isMaxKeyRemoved then
       Inr (s\<lparr>u_minKey := u_maxPossibleKey s, u_maxKey := u_minPossibleKey s,
              u_minNumericKey := 0, u_maxNumericKey := 0\<rparr>)
     else if isMinKeyRemoved then
       (case search_lesser s removedKey of
          Inl e \<Rightarrow> Inl e
        | Inr (Some k) \<Rightarrow> Inr (set_minKey s k)
        | Inr None \<Rightarrow>
            (case search_greater s removedKey of
               Inl e \<Rightarrow> Inl e
             | Inr (Some k) \<Rightarrow> Inr (set_minKey s k)
             | Inr None \<Rightarrow> Inl MissingGreaterValue))
     else if isMaxKeyRemoved then
       (case search_lesser s removedKey of
          Inl e \<Rightarrow> Inl e
        | Inr (Some k) \<Rightarrow> Inr (set_maxKey s k)
        | Inr None \<Rightarrow>
            (case search_lesser s removedKey of
               Inl e \<Rightarrow> Inl e
             | Inr (Some k) \<Rightarrow> Inr (set_maxKey s k)
             | Inr None \<Rightarrow> Inl MissingLessValue))
     else Inr s)"

definition uli_erase :: "ULI \<Rightarrow> bytes \<Rightarrow> (ULI \<times> nat) uli_result" where
  "uli_erase s key =
    (let numericKey = decodeKey (u_type s) key; fileId = getFileIdForKey s numericKey;
         offset = getRecordOffsetInMemory s numericKey in
     case findFile s fileId of
       Inl e \<Rightarrow> Inl e
     | Inr None \<Rightarrow> Inr (s, 0)
     | Inr (Some file) \<Rightarrow>
         if file ! offset = kValueStateFree then Inr (s, 0)
         else
          (case FileData_update file offset [kValueStateFree] of
             Inl e \<Rightarrow> Inl e
           | Inr file1 \<Rightarrow>
               (case updateMinAndMaxKeysAfterRemoval (put_file s fileId file1) key of
                  Inl e \<Rightarrow> Inl e
                | Inr s1 \<Rightarrow> Inr (s1, 1))))"

section \<open>Construction\<close>

text \<open>A new index; \<open>buf\<close> holds the contents of the uninitialised key buffers.\<close>

definition uli_new :: "KeyType \<Rightarrow> bool \<Rightarrow> nat \<Rightarrow> nat \<Rightarrow> bytes \<Rightarrow> ULI uli_result" where
  "uli_new t desc valueSize dataFileSize buf =
    (case validateIndexFileSize dataFileSize of
       Inl e \<Rightarrow> Inl e
     | Inr sz \<Rightarrow>
        Inr \<lparr>u_type = t, u_sortDescending = desc, u_valueSize = valueSize, u_dataFileSize = sz,
             u_minPossibleKey = traits_getMinKey t buf, u_maxPossibleKey = traits_getMaxKey t buf,
             u_fileIds = [], u_data = (\<lambda>_. None),
             u_minKey = traits_getMaxKey t buf, u_maxKey = traits_getMinKey t buf,
             u_minNumericKey = 0, u_maxNumericKey = 0\<rparr>)"

text \<open>Opening an existing index: \<open>fileIds\<close> is the result of the directory scan, \<open>files\<close> the data on disk.\<close>

definition uli_open ::
    "KeyType \<Rightarrow> bool \<Rightarrow> nat \<Rightarrow> nat \<Rightarrow> bytes \<Rightarrow> nat list \<Rightarrow> (nat \<rightharpoonup> bytes) \<Rightarrow> ULI uli_result" where
  "uli_open t desc valueSize dataFileSize buf fileIds files =
    (case uli_new t desc valueSize dataFileSize buf of
       Inl e \<Rightarrow> Inl e
     | Inr s0 \<Rightarrow>
        let s1 = s0\<lparr>u_fileIds := fileIds, u_data := files\<rparr> in
        (case findLeadingKey s1 of
           Inl e \<Rightarrow> Inl e
         | Inr mn \<Rightarrow>
            (case findTrailingKey s1 of
               Inl e \<Rightarrow> Inl e
             | Inr mx \<Rightarrow>
                let minKey = (case mn of Some k \<Rightarrow> k | None \<Rightarrow> u_maxPossibleKey s0);
                    maxKey = (case mx of Some k \<Rightarrow> k | None \<Rightarrow> u_minPossibleKey s0);
                    s2 = s1\<lparr>u_minKey := minKey, u_maxKey := maxKey\<rparr> in
                Inr (if m_keyCompare s2 minKey maxKey \<le> 0
                     then order_numeric (s2\<lparr>u_minNumericKey := decodeKey t minKey,
                                            u_maxNumericKey := decodeKey t maxKey\<rparr>)
                     else s2))))"

section \<open>Records\<close>

text \<open>The map from numeric keys to values that the files represent.\<close>

definition rec_value :: "nat \<Rightarrow> bytes \<Rightarrow> bytes option" where
  "rec_value vs rc =
    (if rc ! 0 = kValueStateFree then None else Some (slice rc (1 + (unat (rc ! 0) - 1) * vs) vs))"

definition record_of :: "ULI \<Rightarrow> bytes \<Rightarrow> nat \<Rightarrow> bytes" where
  "record_of s d i = slice d (i * m_recordSize s) (m_recordSize s)"

definition uli_abs :: "ULI \<Rightarrow> nat \<rightharpoonup> bytes" where
  "uli_abs s k =
    (case u_data s (getFileIdForKey s k) of
       None \<Rightarrow> None
     | Some d \<Rightarrow> rec_value (u_valueSize s) (record_of s d (k mod m_numberOfRecordsPerFile s)))"

definition max_number :: "ULI \<Rightarrow> nat" where
  "max_number s = decodeKey (u_type s) (u_maxPossibleKey s)"

text \<open>The invariant of the files, of the announced key range, and of the cached extreme keys.\<close>

definition data_ok :: "ULI \<Rightarrow> bytes \<Rightarrow> bool" where
  "data_ok s d \<longleftrightarrow> length d = u_dataFileSize s - kIndexFileHeaderSize \<and>
    (\<forall>i < m_numberOfRecordsPerFile s. record_of s d i ! 0 \<le> kValueStateExists2)"

definition files_ok :: "ULI \<Rightarrow> bool" where
  "files_ok s \<longleftrightarrow>
    0 < u_valueSize s \<and> 0 < m_numberOfRecordsPerFile s \<and> sorted_wrt (<) (u_fileIds s) \<and>
    dom (u_data s) = set (u_fileIds s) \<and>
    (\<forall>f \<in> set (u_fileIds s). 1 \<le> f \<and> f \<le> computeMaxPossibleFileId s) \<and>
    (\<forall>d \<in> ran (u_data s). data_ok s d) \<and>
    (\<forall>k \<in> dom (uli_abs s). k \<le> max_number s)"

definition range_ok :: "ULI \<Rightarrow> bool" where
  "range_ok s \<longleftrightarrow>
    length (u_minPossibleKey s) = getKeySize (u_type s) \<and>
    length (u_maxPossibleKey s) = getKeySize (u_type s) \<and>
    decodeKey (u_type s) (u_minPossibleKey s) = 0 \<and> 0 < max_number s"

definition minmax_on :: "ULI \<Rightarrow> nat set \<Rightarrow> bool" where
  "minmax_on s D \<longleftrightarrow>
    (if D = {} then
       u_minKey s = u_maxPossibleKey s \<and> u_maxKey s = u_minPossibleKey s \<and>
       u_minNumericKey s = 0 \<and> u_maxNumericKey s = 0
     else
       u_minKey s = encodeKey (u_type s) (Min D) \<and> u_maxKey s = encodeKey (u_type s) (Max D) \<and>
       u_minNumericKey s = Min D \<and> u_maxNumericKey s = Max D)"

definition uli_inv :: "ULI \<Rightarrow> bool" where
  "uli_inv s \<longleftrightarrow> files_ok s \<and> range_ok s \<and> minmax_on s (dom (uli_abs s))"

text \<open>A key that the index accepts: of the right length, within the announced range, and in a file whose
  id is possible.\<close>

definition key_ok :: "ULI \<Rightarrow> bytes \<Rightarrow> bool" where
  "key_ok s key \<longleftrightarrow> length key = getKeySize (u_type s) \<and>
    decodeKey (u_type s) key \<le> max_number s \<and>
    getFileIdForKey s (decodeKey (u_type s) key) \<le> computeMaxPossibleFileId s"

lemma recordSize_pos [simp]: "0 < m_recordSize s"
  by (simp add: m_recordSize_def)

lemma record_in_file:
  assumes "i < m_numberOfRecordsPerFile s" and "length d = u_dataFileSize s - kIndexFileHeaderSize"
  shows "i * m_recordSize s + m_recordSize s \<le> length d"
proof -
  have "Suc i * m_recordSize s \<le> m_numberOfRecordsPerFile s * m_recordSize s"
    using assms(1) by (intro mult_le_mono1) simp
  also have "\<dots> \<le> length d"
    unfolding assms(2) m_numberOfRecordsPerFile_def by (rule div_times_less_eq_dividend)
  finally show ?thesis by simp
qed

lemma length_record [simp]:
  "i < m_numberOfRecordsPerFile s \<Longrightarrow> length d = u_dataFileSize s - kIndexFileHeaderSize \<Longrightarrow>
    length (record_of s d i) = m_recordSize s"
  using record_in_file [of i s d] by (simp add: record_of_def slice_def)

lemma record_state:
  assumes "i < m_numberOfRecordsPerFile s" and "length d = u_dataFileSize s - kIndexFileHeaderSize"
  shows "d ! (i * m_recordSize s) = record_of s d i ! 0"
  using record_in_file [OF assms] by (simp add: record_of_def slice_def)

lemma slice_slice:
  "p + m \<le> n \<Longrightarrow> slice (slice xs off n) p m = slice xs (off + p) m"
  by (simp add: slice_def drop_take min_def add.commute)

lemma record_splice_same:
  assumes "i < m_numberOfRecordsPerFile s" and "length d = u_dataFileSize s - kIndexFileHeaderSize"
    and "p + length x \<le> m_recordSize s"
  shows "record_of s (splice d (i * m_recordSize s + p) x) i = splice (record_of s d i) p x"
proof (rule nth_equalityI)
  have len: "i * m_recordSize s + p + length x \<le> length d"
    using record_in_file [OF assms(1,2)] assms(3) by simp
  then show "length (record_of s (splice d (i * m_recordSize s + p) x) i) =
      length (splice (record_of s d i) p x)"
    using assms by simp
  fix j
  assume "j < length (record_of s (splice d (i * m_recordSize s + p) x) i)"
  then have j: "j < m_recordSize s" using assms len by simp
  have "i * m_recordSize s + j < length d" using j record_in_file [OF assms(1,2)] by simp
  then show "record_of s (splice d (i * m_recordSize s + p) x) i ! j =
      splice (record_of s d i) p x ! j"
    using j len assms record_in_file [OF assms(1,2)]
    by (simp add: nth_splice) (simp add: record_of_def slice_def nth_splice)
qed

lemma record_splice_other:
  assumes "i < m_numberOfRecordsPerFile s" and "length d = u_dataFileSize s - kIndexFileHeaderSize"
    and "p + length x \<le> m_recordSize s" and "j \<noteq> i"
  shows "record_of s (splice d (i * m_recordSize s + p) x) j = record_of s d j"
  unfolding record_of_def
proof (rule slice_splice_disjoint)
  show "i * m_recordSize s + p + length x \<le> length d"
    using record_in_file [OF assms(1,2)] assms(3) by simp
  have "Suc j * m_recordSize s \<le> i * m_recordSize s \<or> Suc i * m_recordSize s \<le> j * m_recordSize s"
    using assms(4) mult_le_mono1 [of "Suc j" i "m_recordSize s"]
      mult_le_mono1 [of "Suc i" j "m_recordSize s"] by (auto simp: neq_iff Suc_le_eq)
  then show "j * m_recordSize s + m_recordSize s \<le> i * m_recordSize s + p \<or>
      i * m_recordSize s + p + length x \<le> j * m_recordSize s"
    using assms(3) by auto
qed

section \<open>Files and numbers\<close>

lemma number_of_slot:
  assumes "0 < m_numberOfRecordsPerFile s" and "1 \<le> f" and "i < m_numberOfRecordsPerFile s"
  shows "getFileIdForKey s ((f - 1) * m_numberOfRecordsPerFile s + i) = f"
    "((f - 1) * m_numberOfRecordsPerFile s + i) mod m_numberOfRecordsPerFile s = i"
  using assms by (simp_all add: getFileIdForKey_def)

lemma slot_of_number:
  "(getFileIdForKey s k - 1) * m_numberOfRecordsPerFile s + k mod m_numberOfRecordsPerFile s = k"
  by (simp add: getFileIdForKey_def)

lemma put_file_params [simp]:
  "u_type (put_file s f d) = u_type s" "u_valueSize (put_file s f d) = u_valueSize s"
  "u_dataFileSize (put_file s f d) = u_dataFileSize s" "u_fileIds (put_file s f d) = u_fileIds s"
  "u_minPossibleKey (put_file s f d) = u_minPossibleKey s"
  "u_maxPossibleKey (put_file s f d) = u_maxPossibleKey s"
  "u_minKey (put_file s f d) = u_minKey s" "u_maxKey (put_file s f d) = u_maxKey s"
  "u_minNumericKey (put_file s f d) = u_minNumericKey s"
  "u_maxNumericKey (put_file s f d) = u_maxNumericKey s"
  "u_data (put_file s f d) = (u_data s)(f \<mapsto> d)" "u_sortDescending (put_file s f d) = u_sortDescending s"
  by (simp_all add: put_file_def)

text \<open>The parameters of an index: the fields that no operation changes.\<close>

definition same_params :: "ULI \<Rightarrow> ULI \<Rightarrow> bool" where
  "same_params s s' \<longleftrightarrow> u_type s' = u_type s \<and> u_sortDescending s' = u_sortDescending s \<and>
    u_valueSize s' = u_valueSize s \<and> u_dataFileSize s' = u_dataFileSize s \<and>
    u_minPossibleKey s' = u_minPossibleKey s \<and> u_maxPossibleKey s' = u_maxPossibleKey s"

lemma same_params_fields:
  assumes "same_params s s'"
  shows "u_type s' = u_type s" "u_sortDescending s' = u_sortDescending s" "u_valueSize s' = u_valueSize s"
    "u_dataFileSize s' = u_dataFileSize s" "u_minPossibleKey s' = u_minPossibleKey s"
    "u_maxPossibleKey s' = u_maxPossibleKey s"
  using assms by (simp_all add: same_params_def)

lemma same_params_geometry:
  assumes "same_params s s'"
  shows "m_recordSize s' = m_recordSize s" "m_numberOfRecordsPerFile s' = m_numberOfRecordsPerFile s"
    "getFileIdForKey s' = getFileIdForKey s" "computeMaxPossibleFileId s' = computeMaxPossibleFileId s"
    "record_of s' = record_of s" "max_number s' = max_number s" "data_ok s' = data_ok s"
    "m_keyCompare s' = m_keyCompare s" "getRecordOffsetInMemory s' = getRecordOffsetInMemory s"
    "range_ok s' = range_ok s" "key_ok s' = key_ok s"
proof -
  note p = same_params_fields [OF assms]
  from p show 1: "m_recordSize s' = m_recordSize s" by (simp add: m_recordSize_def)
  with p show 2: "m_numberOfRecordsPerFile s' = m_numberOfRecordsPerFile s"
    by (simp add: m_numberOfRecordsPerFile_def)
  with p show 3: "getFileIdForKey s' = getFileIdForKey s"
    by (simp add: getFileIdForKey_def fun_eq_iff)
  from p 2 show 4: "computeMaxPossibleFileId s' = computeMaxPossibleFileId s"
    by (simp add: computeMaxPossibleFileId_def)
  from 1 show 5: "record_of s' = record_of s" by (simp add: record_of_def fun_eq_iff)
  from p show 6: "max_number s' = max_number s" by (simp add: max_number_def)
  from p 2 5 show "data_ok s' = data_ok s" by (simp add: data_ok_def fun_eq_iff)
  from p show "m_keyCompare s' = m_keyCompare s" by (simp add: m_keyCompare_def)
  from 1 2 show "getRecordOffsetInMemory s' = getRecordOffsetInMemory s"
    by (simp add: getRecordOffsetInMemory_def fun_eq_iff)
  from p 6 show "range_ok s' = range_ok s" by (simp add: range_ok_def)
  from p 3 4 6 show "key_ok s' = key_ok s" by (simp add: key_ok_def fun_eq_iff)
qed

lemma same_params_refl [simp]: "same_params s s"
  by (simp add: same_params_def)

lemma same_params_trans: "same_params a b \<Longrightarrow> same_params b c \<Longrightarrow> same_params a c"
  by (simp add: same_params_def)

lemma same_params_abs:
  "same_params s s' \<Longrightarrow> u_data s' = u_data s \<Longrightarrow> uli_abs s' = uli_abs s"
  by (rule ext)
    (simp add: uli_abs_def same_params_geometry same_params_fields split: option.split)

lemma same_params_files_ok:
  "same_params s s' \<Longrightarrow> u_data s' = u_data s \<Longrightarrow> u_fileIds s' = u_fileIds s \<Longrightarrow> files_ok s' = files_ok s"
  unfolding files_ok_def
  by (simp add: same_params_geometry same_params_abs same_params_fields)

lemma same_params_put_file [simp]: "same_params s (put_file s f d)"
  by (simp add: same_params_def)

lemma abs_put_file:
  assumes "0 < m_numberOfRecordsPerFile s" and "u_data s f = Some d"
    and "1 \<le> f" and "i < m_numberOfRecordsPerFile s"
    and other: "\<And>j. j \<noteq> i \<Longrightarrow> record_of s d' j = record_of s d j"
  shows "uli_abs (put_file s f d') =
    (uli_abs s)((f - 1) * m_numberOfRecordsPerFile s + i := rec_value (u_valueSize s) (record_of s d' i))"
proof (rule ext)
  fix k
  have geo: "getFileIdForKey (put_file s f d') k = getFileIdForKey s k"
    "m_numberOfRecordsPerFile (put_file s f d') = m_numberOfRecordsPerFile s"
    "record_of (put_file s f d') = record_of s"
    using same_params_geometry [OF same_params_put_file [of s f d']] by simp_all
  have k: "k = (f - 1) * m_numberOfRecordsPerFile s + i"
    if "getFileIdForKey s k = f" "k mod m_numberOfRecordsPerFile s = i"
    using slot_of_number [of s k] that by simp
  show "uli_abs (put_file s f d') k =
    ((uli_abs s)((f - 1) * m_numberOfRecordsPerFile s + i := rec_value (u_valueSize s) (record_of s d' i))) k"
  proof (cases "k = (f - 1) * m_numberOfRecordsPerFile s + i")
    case True
    then have "getFileIdForKey s k = f" "k mod m_numberOfRecordsPerFile s = i"
      using number_of_slot [OF assms(1,3,4)] by simp_all
    then show ?thesis unfolding True [symmetric] by (simp add: uli_abs_def geo)
  next
    case False
    then have "getFileIdForKey s k = f \<Longrightarrow> k mod m_numberOfRecordsPerFile s \<noteq> i" using k by blast
    then show ?thesis using False assms(2) by (auto simp: uli_abs_def geo other split: option.split)
  qed
qed

lemma FileData_update_ok:
  "pos + length src \<le> length d \<Longrightarrow> src \<noteq> [] \<Longrightarrow> FileData_update d pos src = Inr (splice d pos src)"
  by (cases src) (auto simp: FileData_update_def)

section \<open>Writing a record\<close>

lemma two_writes:
  assumes "length d = u_dataFileSize s - kIndexFileHeaderSize" and "i < m_numberOfRecordsPerFile s"
    and "p + length v \<le> m_recordSize s" and "v \<noteq> []"
  obtains d1 d2 where "FileData_update d (i * m_recordSize s + p) v = Inr d1"
    "FileData_update d1 (i * m_recordSize s) [st] = Inr d2" "length d2 = length d"
    "record_of s d2 i = splice (splice (record_of s d i) p v) 0 [st]"
    "\<forall>j. j \<noteq> i \<longrightarrow> record_of s d2 j = record_of s d j"
proof -
  let ?o = "i * m_recordSize s" and ?d1 = "splice d (i * m_recordSize s + p) v"
  have len: "?o + p + length v \<le> length d" "?o + length [st] \<le> length d"
    using record_in_file [OF assms(2,1)] assms(3) by (simp_all add: m_recordSize_def)
  have l1: "length ?d1 = u_dataFileSize s - kIndexFileHeaderSize" "length ?d1 = length d"
    using len assms(1) by simp_all
  have st: "0 + length [st] \<le> m_recordSize s" by (simp add: m_recordSize_def)
  show ?thesis
  proof (rule that)
    show "FileData_update d (?o + p) v = Inr ?d1" using len(1) assms(4) by (intro FileData_update_ok) auto
    show "FileData_update ?d1 ?o [st] = Inr (splice ?d1 ?o [st])"
      using len(2) l1(2) by (intro FileData_update_ok) auto
    show "length (splice ?d1 ?o [st]) = length d" using len(2) l1(2) by simp
    show "record_of s (splice ?d1 ?o [st]) i = splice (splice (record_of s d i) p v) 0 [st]"
      using record_splice_same [OF assms(2) l1(1) st] record_splice_same [OF assms(2,1,3)] by simp
    show "\<forall>j. j \<noteq> i \<longrightarrow> record_of s (splice ?d1 ?o [st]) j = record_of s d j"
      using record_splice_other [OF assms(2) l1(1) st] record_splice_other [OF assms(2,1,3)] by simp
  qed
qed

lemma rec_value_write:
  assumes "length rc = vs * 2 + 1" and "length v = vs" and "st = kValueStateExists1 \<or> st = kValueStateExists2"
  shows "rec_value vs (splice (splice rc (1 + vs * (unat st - 1)) v) 0 [st]) = Some v"
proof -
  let ?p = "1 + vs * (unat st - 1)"
  have st: "unat st = 1 \<or> unat st = 2" "st \<noteq> 0"
    using assms(3) by (auto simp: kValueStateExists1_def kValueStateExists2_def)
  then have len: "?p + length v \<le> length rc" using assms by auto
  have "splice (splice rc ?p v) 0 [st] ! 0 = st" by (simp add: splice_def)
  moreover have "slice (splice (splice rc ?p v) 0 [st]) ?p vs = slice (splice rc ?p v) ?p vs"
    using len assms(1) by (intro slice_splice_after) simp_all
  moreover have "slice (splice rc ?p v) ?p vs = v" using len assms(2) by simp
  ultimately show ?thesis using st(2) by (simp add: rec_value_def kValueStateFree_def mult.commute)
qed

lemma rec_value_free: "rec_value vs (splice rc 0 [kValueStateFree]) = None"
  by (simp add: rec_value_def splice_def)

lemma files_okD:
  assumes "files_ok s"
  shows "0 < u_valueSize s" "0 < m_numberOfRecordsPerFile s" "sorted_wrt (<) (u_fileIds s)"
    "dom (u_data s) = set (u_fileIds s)"
    "\<And>f. f \<in> set (u_fileIds s) \<Longrightarrow> 1 \<le> f" "\<And>f. f \<in> set (u_fileIds s) \<Longrightarrow> f \<le> computeMaxPossibleFileId s"
    "\<And>f d. u_data s f = Some d \<Longrightarrow> data_ok s d" "\<And>k. k \<in> dom (uli_abs s) \<Longrightarrow> k \<le> max_number s"
    "finite (dom (uli_abs s))"
proof -
  show "\<And>k. k \<in> dom (uli_abs s) \<Longrightarrow> k \<le> max_number s" using assms by (simp add: files_ok_def)
  then have "dom (uli_abs s) \<subseteq> {..max_number s}" by auto
  then show "finite (dom (uli_abs s))" by (rule finite_subset) simp
qed (use assms in \<open>auto simp: files_ok_def intro: ranI\<close>)

lemma data_okD:
  assumes "data_ok s d"
  shows "length d = u_dataFileSize s - kIndexFileHeaderSize"
    "\<And>i. i < m_numberOfRecordsPerFile s \<Longrightarrow> record_of s d i ! 0 \<le> kValueStateExists2"
  using assms by (simp_all add: data_ok_def)

text \<open>Replacing the record of one key in an existing file is a point update of the represented map.\<close>

lemma write_record:
  assumes ok: "files_ok s" and f: "u_data s (getFileIdForKey s k) = Some d" and k: "k \<le> max_number s"
    and len: "length d' = length d"
    and rc: "record_of s d' (k mod m_numberOfRecordsPerFile s) ! 0 \<le> kValueStateExists2"
    and other: "\<And>j. j \<noteq> k mod m_numberOfRecordsPerFile s \<Longrightarrow> record_of s d' j = record_of s d j"
  defines "s' \<equiv> put_file s (getFileIdForKey s k) d'"
  shows "files_ok s'"
    "uli_abs s' = (uli_abs s)(k := rec_value (u_valueSize s) (record_of s d' (k mod m_numberOfRecordsPerFile s)))"
proof -
  note okD = files_okD [OF ok]
  have f1: "1 \<le> getFileIdForKey s k" by (simp add: getFileIdForKey_def)
  have i: "k mod m_numberOfRecordsPerFile s < m_numberOfRecordsPerFile s" using okD(2) by simp
  show abs: "uli_abs s' =
      (uli_abs s)(k := rec_value (u_valueSize s) (record_of s d' (k mod m_numberOfRecordsPerFile s)))"
    using abs_put_file [OF okD(2) f f1 i, of d'] other unfolding s'_def slot_of_number by blast
  have geo: "m_numberOfRecordsPerFile s' = m_numberOfRecordsPerFile s" "data_ok s' = data_ok s"
    "computeMaxPossibleFileId s' = computeMaxPossibleFileId s" "max_number s' = max_number s"
    unfolding s'_def by (simp_all add: same_params_geometry [OF same_params_put_file])
  have d': "data_ok s d'" unfolding data_ok_def
    using data_okD [OF okD(7) [OF f]] len rc other by metis
  have "ran (u_data s') \<subseteq> insert d' (ran (u_data s))" unfolding s'_def by (auto simp: ran_def)
  moreover have "dom (u_data s') = set (u_fileIds s')" using okD(4) f unfolding s'_def by auto
  moreover have "\<forall>x \<in> dom (uli_abs s'). x \<le> max_number s" using abs okD(8) k by (auto split: if_splits)
  ultimately show "files_ok s'"
    using ok d' unfolding files_ok_def geo by (auto simp: s'_def)
qed

section \<open>Reading a record\<close>

lemma state_le_2: "(st :: uint8) \<le> kValueStateExists2 \<Longrightarrow> st \<noteq> kValueStateFree \<Longrightarrow>
    st = kValueStateExists1 \<or> st = kValueStateExists2"
proof -
  assume "st \<le> kValueStateExists2" "st \<noteq> kValueStateFree"
  then have "unat st \<le> 2" "unat st \<noteq> 0"
    by (simp_all add: kValueStateExists2_def kValueStateFree_def word_le_nat_alt unat_eq_zero)
  then have "unat st = unat (1 :: uint8) \<or> unat st = unat (2 :: uint8)" by auto
  then show ?thesis
    unfolding kValueStateExists1_def kValueStateExists2_def by (metis unsigned_word_eqI)
qed

lemma findFile_key:
  assumes "files_ok s" and "getFileIdForKey s k \<le> computeMaxPossibleFileId s"
  shows "findFile s (getFileIdForKey s k) = Inr (u_data s (getFileIdForKey s k))"
proof -
  have "u_data s f = None" if "f \<notin> set (u_fileIds s)" for f
    using that files_okD(4) [OF assms(1)] by auto
  then show ?thesis using assms(2) by (simp add: findFile_def)
qed

lemma key_offset:
  assumes "files_ok s" and "u_data s (getFileIdForKey s k) = Some d"
  shows "getRecordOffsetInMemory s k = k mod m_numberOfRecordsPerFile s * m_recordSize s"
    "d ! (k mod m_numberOfRecordsPerFile s * m_recordSize s) = record_of s d (k mod m_numberOfRecordsPerFile s) ! 0"
    "length (record_of s d (k mod m_numberOfRecordsPerFile s)) = m_recordSize s"
    "length d = u_dataFileSize s - kIndexFileHeaderSize"
    "record_of s d (k mod m_numberOfRecordsPerFile s) ! 0 \<le> kValueStateExists2"
    "k mod m_numberOfRecordsPerFile s < m_numberOfRecordsPerFile s"
    "record_of s d (k mod m_numberOfRecordsPerFile s) ! 0 = kValueStateFree \<longleftrightarrow> uli_abs s k = None"
proof -
  note d = data_okD [OF files_okD(7) [OF assms]]
  show i: "k mod m_numberOfRecordsPerFile s < m_numberOfRecordsPerFile s"
    using files_okD(2) [OF assms(1)] by simp
  show "d ! (k mod m_numberOfRecordsPerFile s * m_recordSize s) =
      record_of s d (k mod m_numberOfRecordsPerFile s) ! 0"
    using record_state [OF i d(1)] .
  show "record_of s d (k mod m_numberOfRecordsPerFile s) ! 0 = kValueStateFree \<longleftrightarrow> uli_abs s k = None"
    using assms(2) by (simp add: uli_abs_def rec_value_def)
qed (use data_okD [OF files_okD(7) [OF assms]] files_okD(2) [OF assms(1)] in
  \<open>simp_all add: getRecordOffsetInMemory_def\<close>)

lemma value_in_record:
  assumes "st = kValueStateExists1 \<or> st = kValueStateExists2"
  shows "slice d (i * m_recordSize s + 1 + (unat st - 1) * u_valueSize s) (u_valueSize s) =
    slice (record_of s d i) (1 + (unat st - 1) * u_valueSize s) (u_valueSize s)"
proof -
  have "1 + (unat st - 1) * u_valueSize s + u_valueSize s \<le> m_recordSize s"
    using assms by (auto simp: m_recordSize_def kValueStateExists1_def kValueStateExists2_def)
  then show ?thesis unfolding record_of_def by (subst slice_slice) (simp_all only: add.assoc)
qed

lemma find_abs:
  assumes ok: "files_ok s" and "getFileIdForKey s (decodeKey (u_type s) key) \<le> computeMaxPossibleFileId s"
  shows "uli_find s key = Inr (uli_abs s (decodeKey (u_type s) key))"
    "uli_count s key = Inr (if decodeKey (u_type s) key \<in> dom (uli_abs s) then 1 else 0)"
proof -
  define k where "k = decodeKey (u_type s) key"
  note ff = findFile_key [OF assms, folded k_def]
  show "uli_find s key = Inr (uli_abs s (decodeKey (u_type s) key))"
  proof (cases "u_data s (getFileIdForKey s k)")
    case (Some d)
    note off = key_offset [OF ok Some]
    define st where "st = record_of s d (k mod m_numberOfRecordsPerFile s) ! 0"
    show ?thesis
    proof (cases "st = kValueStateFree")
      case True
      then show ?thesis using ff Some off(1,2,7)
        by (simp add: uli_find_def st_def Let_def flip: k_def)
    next
      case False
      have "uli_abs s k = Some (slice (record_of s d (k mod m_numberOfRecordsPerFile s))
          (1 + (unat st - 1) * u_valueSize s) (u_valueSize s))"
        using False Some by (simp add: uli_abs_def rec_value_def st_def)
      then show ?thesis
        using False ff Some off(1,2,5) value_in_record [OF state_le_2 [OF off(5) [folded st_def] False]]
        by (simp add: uli_find_def Let_def flip: k_def st_def)
    qed
  qed (simp add: uli_find_def ff uli_abs_def flip: k_def)
  show "uli_count s key = Inr (if decodeKey (u_type s) key \<in> dom (uli_abs s) then 1 else 0)"
  proof (cases "u_data s (getFileIdForKey s k)")
    case (Some d)
    then show ?thesis
      using ff key_offset(1,2,7) [OF ok Some] by (auto simp: uli_count_def Let_def simp flip: k_def)
  qed (simp add: uli_count_def ff uli_abs_def dom_def flip: k_def)
qed

end
