(* ===== verification/LinearIndexOps.thy ===== *)
theory LinearIndexOps
  imports LinearIndex
begin

text \<open>
  Correctness of the operations of the unique linear index: every operation keeps the invariant and acts on
  the represented map as the corresponding map operation, and the ordered searches return neighbouring keys.
\<close>

section \<open>Comparing keys\<close>

lemma cmp_encode:
  assumes "k < 2 ^ keyBits (u_type s)" and "l < 2 ^ keyBits (u_type s)"
  shows "m_keyCompare s (encodeKey (u_type s) k) (encodeKey (u_type s) l) = 0 \<longleftrightarrow> k = l"
    "m_keyCompare s (encodeKey (u_type s) k) (encodeKey (u_type s) l) < 0 \<longleftrightarrow> k < l"
    "m_keyCompare s (encodeKey (u_type s) k) (encodeKey (u_type s) l) > 0 \<longleftrightarrow> k > l"
  using compareKeys_numeric [of "encodeKey (u_type s) k" "u_type s" "encodeKey (u_type s) l"] assms
  by (simp_all add: m_keyCompare_def decode_encodeKey)

lemma max_number_bound: "range_ok s \<Longrightarrow> max_number s < 2 ^ keyBits (u_type s)"
  unfolding max_number_def range_ok_def by (intro decodeKey_bound) simp

lemma range_keys:
  assumes "range_ok s"
  shows "u_minPossibleKey s = encodeKey (u_type s) 0"
    "u_maxPossibleKey s = encodeKey (u_type s) (max_number s)"
  using assms encode_decodeKey [of "u_minPossibleKey s" "u_type s"]
    encode_decodeKey [of "u_maxPossibleKey s" "u_type s"]
  by (auto simp: range_ok_def max_number_def)

lemma key_okD:
  assumes "key_ok s key"
  shows "length key = getKeySize (u_type s)" "decodeKey (u_type s) key \<le> max_number s"
    "getFileIdForKey s (decodeKey (u_type s) key) \<le> computeMaxPossibleFileId s"
    "encodeKey (u_type s) (decodeKey (u_type s) key) = key"
    "decodeKey (u_type s) key < 2 ^ keyBits (u_type s)"
  using assms by (simp_all add: key_ok_def encode_decodeKey decodeKey_bound)

section \<open>Extreme keys\<close>

lemma minmax_on_put_file [simp]: "minmax_on (put_file s f d) D = minmax_on s D"
  by (simp add: minmax_on_def)

lemma insert_minmax_params: "same_params s (insert_minmax s key)"
  "u_data (insert_minmax s key) = u_data s" "u_fileIds (insert_minmax s key) = u_fileIds s"
  by (simp_all add: insert_minmax_def Let_def same_params_def)

lemma insert_minmax_ok:
  assumes "range_ok s" and "minmax_on s D" and "finite D" and D: "\<And>x. x \<in> D \<Longrightarrow> x \<le> max_number s"
    and "k \<le> max_number s" and "k \<notin> D"
  shows "minmax_on (insert_minmax s (encodeKey (u_type s) k)) (insert k D)"
proof -
  note M = max_number_bound [OF assms(1)]
  have k: "k < 2 ^ keyBits (u_type s)" "decodeKey (u_type s) (encodeKey (u_type s) k) = k"
    using assms(5) M by (simp_all add: decode_encodeKey)
  show ?thesis
  proof (cases "D = {}")
    case True
    then have "m_keyCompare s (u_maxKey s) (u_minKey s) < 0"
      using assms(1,2) range_keys [OF assms(1)] M cmp_encode(2) [of 0 s "max_number s"]
      by (simp add: minmax_on_def range_ok_def)
    then show ?thesis using True k by (simp add: insert_minmax_def minmax_on_def)
  next
    case False
    define a b where "a = Min D" and "b = Max D"
    have mm: "u_minKey s = encodeKey (u_type s) a" "u_maxKey s = encodeKey (u_type s) b"
      "u_minNumericKey s = a" "u_maxNumericKey s = b"
      using assms(2) False by (simp_all add: minmax_on_def a_def b_def)
    have ab: "a \<in> D" "b \<in> D" "a \<le> b" using False assms(3) by (simp_all add: a_def b_def)
    then have bd: "a < 2 ^ keyBits (u_type s)" "b < 2 ^ keyBits (u_type s)" using D [of a] D [of b] M by simp_all
    have new: "Min (insert k D) = min k a" "Max (insert k D) = max k b"
      using False assms(3) by (simp_all add: a_def b_def)
    have "k \<noteq> a" "k \<noteq> b" using ab assms(6) by auto
    then show ?thesis
      using ab(3) unfolding insert_minmax_def minmax_on_def Let_def k(2) new
      by (simp add: mm cmp_encode k(1) bd)
  qed
qed

section \<open>Insertion\<close>

lemma free_record: "i < m_numberOfRecordsPerFile s \<Longrightarrow>
  rec_value vs (record_of s (replicate (u_dataFileSize s - kIndexFileHeaderSize) 0) i) = None \<and>
  record_of s (replicate (u_dataFileSize s - kIndexFileHeaderSize) 0) i ! 0 = kValueStateFree"
proof -
  assume i: "i < m_numberOfRecordsPerFile s"
  let ?d = "replicate (u_dataFileSize s - kIndexFileHeaderSize) 0 :: bytes"
  have "i * m_recordSize s < length ?d"
    using record_in_file [OF i, of ?d] recordSize_pos [of s] by (simp del: recordSize_pos)
  then have "record_of s ?d i ! 0 = 0" using record_state [OF i, of ?d] by simp
  then show ?thesis by (simp add: rec_value_def kValueStateFree_def)
qed

lemma makeFile_ok:
  assumes ok: "files_ok s" and f: "1 \<le> f" "f \<le> computeMaxPossibleFileId s" and new: "u_data s f = None"
  defines "s' \<equiv> fst (makeFile s f)"
  shows "files_ok s'" "uli_abs s' = uli_abs s" "same_params s s'" "u_data s' f = Some (snd (makeFile s f))"
    "minmax_on s' D = minmax_on s D" "u_minKey s' = u_minKey s" "u_maxKey s' = u_maxKey s"
    "u_minNumericKey s' = u_minNumericKey s" "u_maxNumericKey s' = u_maxNumericKey s"
proof -
  let ?d = "replicate (u_dataFileSize s - kIndexFileHeaderSize) 0 :: bytes"
  note okD = files_okD [OF ok]
  have s': "s' = s\<lparr>u_fileIds := insort_insert f (u_fileIds s), u_data := (u_data s)(f \<mapsto> ?d)\<rparr>"
    by (simp add: s'_def makeFile_def Let_def)
  show par: "same_params s s'" by (simp add: s' same_params_def)
  note geo = same_params_geometry [OF par] same_params_fields [OF par]
  show d: "u_data s' f = Some (snd (makeFile s f))" by (simp add: s' makeFile_def Let_def)
  show abs: "uli_abs s' = uli_abs s"
  proof (rule ext)
    fix k
    have "k mod m_numberOfRecordsPerFile s < m_numberOfRecordsPerFile s" using okD(2) by simp
    from free_record [OF this] show "uli_abs s' k = uli_abs s k"
      using new unfolding uli_abs_def geo by (auto simp: s' split: option.split)
  qed
  have dk: "data_ok s ?d" using free_record [of _ s] by (simp add: data_ok_def kValueStateFree_def)
  have "sorted_wrt (<) (insort_insert f (u_fileIds s))"
    using okD(3) by (simp add: strict_sorted_iff sorted_insort_insert distinct_insort_insert)
  moreover have "dom (u_data s') = set (u_fileIds s')" using okD(4) by (simp add: s' set_insort_insert)
  moreover have "ran (u_data s') \<subseteq> insert ?d (ran (u_data s))" by (auto simp: s' ran_def)
  ultimately show "files_ok s'"
    using ok f dk unfolding files_ok_def geo abs by (auto simp: s' set_insort_insert)
  show "minmax_on s' D = minmax_on s D" by (simp add: s' minmax_on_def)
qed (simp_all add: s'_def makeFile_def Let_def)

lemma insert_open_ok:
  assumes ok: "files_ok s" and f: "f = getFileIdForKey s k" "f \<le> computeMaxPossibleFileId s"
  obtains s1 d where "insert_open s f = Inr (s1, d)" "files_ok s1" "uli_abs s1 = uli_abs s" "same_params s s1"
    "u_data s1 f = Some d" "\<And>D. minmax_on s1 D = minmax_on s D"
proof (cases "u_data s f")
  case None
  have "1 \<le> f" using f(1) by (simp add: getFileIdForKey_def)
  note m = makeFile_ok [OF ok this f(2) None]
  show ?thesis
  proof (rule that)
    show "insert_open s f = Inr (fst (makeFile s f), snd (makeFile s f))"
      using findFile_key [OF ok, of k] f None by (simp add: insert_open_def)
  qed (use m in auto)
next
  case (Some d)
  then have "insert_open s f = Inr (s, d)" using findFile_key [OF ok, of k] f by (simp add: insert_open_def)
  then show ?thesis using that ok Some by simp
qed

lemma write_value:
  assumes ok: "files_ok s" and d: "u_data s (getFileIdForKey s k) = Some d" and k: "k \<le> max_number s"
    and v: "length v = u_valueSize s" and st: "st = kValueStateExists1 \<or> st = kValueStateExists2"
  obtains d1 d2 where
    "FileData_update d (getRecordOffsetInMemory s k + 1 + u_valueSize s * (unat st - 1)) v = Inr d1"
    "FileData_update d1 (getRecordOffsetInMemory s k) [st] = Inr d2"
    "files_ok (put_file s (getFileIdForKey s k) d2)"
    "uli_abs (put_file s (getFileIdForKey s k) d2) = (uli_abs s)(k \<mapsto> v)"
proof -
  let ?i = "k mod m_numberOfRecordsPerFile s" and ?p = "1 + u_valueSize s * (unat st - 1)"
  note off = key_offset [OF ok d]
  have p: "?p + length v \<le> m_recordSize s"
    using v st by (auto simp: m_recordSize_def kValueStateExists1_def kValueStateExists2_def)
  have vn: "v \<noteq> []" using v files_okD(1) [OF ok] by auto
  obtain d1 d2 where w:
    "FileData_update d (?i * m_recordSize s + ?p) v = Inr d1"
    "FileData_update d1 (?i * m_recordSize s) [st] = Inr d2" "length d2 = length d"
    "record_of s d2 ?i = splice (splice (record_of s d ?i) ?p v) 0 [st]"
    "\<forall>j. j \<noteq> ?i \<longrightarrow> record_of s d2 j = record_of s d j"
    by (rule two_writes [OF off(4,6) p vn, of st])
  have le: "record_of s d2 ?i ! 0 \<le> kValueStateExists2"
    using st unfolding w(4) by (auto simp: splice_def kValueStateExists1_def kValueStateExists2_def)
  have wr: "files_ok (put_file s (getFileIdForKey s k) d2)"
    "uli_abs (put_file s (getFileIdForKey s k) d2) =
      (uli_abs s)(k := rec_value (u_valueSize s) (record_of s d2 ?i))"
    by (rule write_record [OF ok d k w(3) le], erule w(5) [rule_format])+
  have rv: "rec_value (u_valueSize s) (record_of s d2 ?i) = Some v"
    unfolding w(4) using off(3) v st by (intro rec_value_write) (simp_all add: m_recordSize_def)
  show ?thesis
  proof (rule that)
    show "FileData_update d (getRecordOffsetInMemory s k + 1 + u_valueSize s * (unat st - 1)) v = Inr d1"
      using w(1) off(1) by (simp add: add.assoc)
    show "FileData_update d1 (getRecordOffsetInMemory s k) [st] = Inr d2" using w(2) off(1) by simp
    show "files_ok (put_file s (getFileIdForKey s k) d2)" by (rule wr(1))
    show "uli_abs (put_file s (getFileIdForKey s k) d2) = (uli_abs s)(k \<mapsto> v)" using wr(2) rv by simp
  qed
qed

lemma insert_ok:
  assumes inv: "uli_inv s" and key: "key_ok s key" and v: "length v = u_valueSize s"
  defines "k \<equiv> decodeKey (u_type s) key"
  obtains s' where "uli_insert s key v = Inr (s', k \<notin> dom (uli_abs s))" "uli_inv s'" "same_params s s'"
    "uli_abs s' = (if k \<in> dom (uli_abs s) then uli_abs s else (uli_abs s)(k \<mapsto> v))"
proof -
  note kD = key_okD [OF key, folded k_def]
  have ok: "files_ok s" and rg: "range_ok s" and mm: "minmax_on s (dom (uli_abs s))"
    using inv by (simp_all add: uli_inv_def)
  obtain s1 d where o: "insert_open s (getFileIdForKey s k) = Inr (s1, d)" "files_ok s1" "uli_abs s1 = uli_abs s"
      "same_params s s1" "u_data s1 (getFileIdForKey s k) = Some d" "\<And>D. minmax_on s1 D = minmax_on s D"
    using insert_open_ok [OF ok refl kD(3)] by metis
  note geo = same_params_geometry [OF o(4)] same_params_fields [OF o(4)]
  have d: "u_data s1 (getFileIdForKey s1 k) = Some d" using o(5) geo by simp
  note off = key_offset [OF o(2) d]
  have st: "d ! getRecordOffsetInMemory s k = kValueStateFree \<longleftrightarrow> k \<notin> dom (uli_abs s)"
    using off(1,2,7) o(3) geo by auto
  show ?thesis
  proof (cases "k \<in> dom (uli_abs s)")
    case True
    then have "uli_insert s key v = Inr (s1, k \<notin> dom (uli_abs s))"
      using st o(1) by (simp add: uli_insert_def Let_def flip: k_def)
    moreover have "uli_inv s1" using o(2,3,6) mm rg geo by (simp add: uli_inv_def)
    ultimately show ?thesis using that True o(3,4) by simp
  next
    case False
    obtain d1 d2 where w: "FileData_update d (getRecordOffsetInMemory s k + 1) v = Inr d1"
        "FileData_update d1 (getRecordOffsetInMemory s k) [kValueStateExists1] = Inr d2"
        "files_ok (put_file s1 (getFileIdForKey s k) d2)"
        "uli_abs (put_file s1 (getFileIdForKey s k) d2) = (uli_abs s)(k \<mapsto> v)"
      using write_value [OF o(2) d, of v kValueStateExists1] v kD(2) geo o(3)
      by (auto simp: kValueStateExists1_def)
    define s2 where "s2 = put_file s1 (getFileIdForKey s k) d2"
    have par: "same_params s s2" unfolding s2_def
      using same_params_trans [OF o(4) same_params_put_file] .
    have s3: "uli_insert s key v = Inr (insert_minmax s2 key, k \<notin> dom (uli_abs s))"
      using False st o(1) w(1,2) by (simp add: uli_insert_def Let_def s2_def flip: k_def)
    have fin: "files_ok (insert_minmax s2 key)" "uli_abs (insert_minmax s2 key) = (uli_abs s)(k \<mapsto> v)"
      using w(3,4) same_params_files_ok [OF insert_minmax_params(1), of s2]
        same_params_abs [OF insert_minmax_params(1), of s2]
      by (simp_all add: insert_minmax_params s2_def)
    have "minmax_on s2 (dom (uli_abs s))" using mm o(6) by (simp add: s2_def)
    moreover have "range_ok s2" using rg par by (simp add: same_params_geometry)
    ultimately have "minmax_on (insert_minmax s2 key) (insert k (dom (uli_abs s)))"
      using insert_minmax_ok [of s2 "dom (uli_abs s)" k] files_okD(8,9) [OF ok] kD(2,4) False
        same_params_geometry(6) [OF par] same_params_fields(1) [OF par] by simp
    then have "uli_inv (insert_minmax s2 key)"
      using fin rg par same_params_geometry(10) [OF same_params_trans [OF par insert_minmax_params(1)]]
      by (simp add: uli_inv_def)
    then show ?thesis
      using that s3 fin(2) False same_params_trans [OF par insert_minmax_params(1)] by simp
  qed
qed

lemma update_ok:
  assumes inv: "uli_inv s" and key: "key_ok s key" and v: "length v = u_valueSize s"
  defines "k \<equiv> decodeKey (u_type s) key"
  obtains s' where "uli_update s key v = Inr (s', if k \<in> dom (uli_abs s) then 1 else 0)" "uli_inv s'"
    "same_params s s'" "uli_abs s' = (if k \<in> dom (uli_abs s) then (uli_abs s)(k \<mapsto> v) else uli_abs s)"
proof -
  note kD = key_okD [OF key, folded k_def]
  have ok: "files_ok s" and rg: "range_ok s" and mm: "minmax_on s (dom (uli_abs s))"
    using inv by (simp_all add: uli_inv_def)
  note ff = findFile_key [OF ok kD(3)]
  show ?thesis
  proof (cases "k \<in> dom (uli_abs s)")
    case True
    then obtain d where d: "u_data s (getFileIdForKey s k) = Some d"
      by (auto simp: uli_abs_def split: option.splits)
    note off = key_offset [OF ok d]
    define st where "st = (if d ! getRecordOffsetInMemory s k = kValueStateExists1 then kValueStateExists2
      else kValueStateExists1)"
    have "st = kValueStateExists1 \<or> st = kValueStateExists2" by (simp add: st_def)
    from write_value [OF ok d kD(2) v this] obtain d1 d2 where w:
      "FileData_update d (getRecordOffsetInMemory s k + 1 + u_valueSize s * (unat st - 1)) v = Inr d1"
      "FileData_update d1 (getRecordOffsetInMemory s k) [st] = Inr d2"
      "files_ok (put_file s (getFileIdForKey s k) d2)"
      "uli_abs (put_file s (getFileIdForKey s k) d2) = (uli_abs s)(k \<mapsto> v)" by blast
    have ne: "d ! getRecordOffsetInMemory s k \<noteq> kValueStateFree" using off(1,2,7) True by auto
    have "uli_update s key v = Inr (put_file s (getFileIdForKey s k) d2, 1)"
      using ff d ne w(1,2) unfolding uli_update_def k_def [symmetric] Let_def
      by (cases "d ! getRecordOffsetInMemory s k = kValueStateExists1") (simp_all add: st_def)
    moreover have "uli_inv (put_file s (getFileIdForKey s k) d2)"
      using w(3,4) rg mm True insert_absorb [OF True] same_params_geometry(10) [OF same_params_put_file]
      by (simp add: uli_inv_def)
    ultimately show ?thesis using that True w(4) by simp
  next
    case False
    have "uli_update s key v = Inr (s, 0)"
    proof (cases "u_data s (getFileIdForKey s k)")
      case (Some d)
      then have "d ! getRecordOffsetInMemory s k = kValueStateFree"
        using key_offset(1,2,7) [OF ok Some] False by auto
      then show ?thesis using ff Some by (simp add: uli_update_def flip: k_def)
    qed (use ff in \<open>simp add: uli_update_def flip: k_def\<close>)
    then show ?thesis using that False inv by simp
  qed
qed

section \<open>Scanning the records of a file\<close>

lemma leading_scan_spec:
  "case leading_scan d rs i n of
     None \<Rightarrow> \<forall>j. i \<le> j \<and> j < i + n \<longrightarrow> d ! (j * rs) = kValueStateFree
   | Some j \<Rightarrow> i \<le> j \<and> j < i + n \<and> d ! (j * rs) \<noteq> kValueStateFree \<and>
       (\<forall>l. i \<le> l \<and> l < j \<longrightarrow> d ! (l * rs) = kValueStateFree)"
proof (induction d rs i n rule: leading_scan.induct)
  case (2 d rs i n)
  have step: "i \<le> l \<longleftrightarrow> l = i \<or> i + 1 \<le> l" for l by auto
  show ?case
  proof (cases "d ! (i * rs) = kValueStateFree")
    case True
    then show ?thesis using 2 by (auto simp: step split: option.splits)
  qed auto
qed auto

lemma trailing_scan_spec:
  "case trailing_scan d rs n of
     None \<Rightarrow> \<forall>j < n. d ! (j * rs) = kValueStateFree
   | Some j \<Rightarrow> j < n \<and> d ! (j * rs) \<noteq> kValueStateFree \<and>
       (\<forall>l. j < l \<and> l < n \<longrightarrow> d ! (l * rs) = kValueStateFree)"
  by (induction n) (auto simp: less_Suc_eq split: option.splits)

lemma after_scan_eq:
  assumes "\<And>j. j < n \<Longrightarrow> d ! ((i + j) * m_recordSize s) \<noteq> kValueStateFree \<Longrightarrow>
      m_keyCompare s (encodeKey (u_type s) (cur + j)) key > 0"
  shows "after_scan s d key i n cur =
    map_option (\<lambda>j. encodeKey (u_type s) (cur + (j - i))) (leading_scan d (m_recordSize s) i n)"
  using assms
proof (induction n arbitrary: i cur)
  case (Suc n)
  have IH: "after_scan s d key (i + 1) n (cur + 1) =
      map_option (\<lambda>j. encodeKey (u_type s) (cur + 1 + (j - (i + 1))))
        (leading_scan d (m_recordSize s) (i + 1) n)"
    using Suc.prems [of "Suc j" for j] by (intro Suc.IH) simp
  have "map_option (\<lambda>j. encodeKey (u_type s) (cur + 1 + (j - (i + 1))))
        (leading_scan d (m_recordSize s) (i + 1) n) =
      map_option (\<lambda>j. encodeKey (u_type s) (cur + (j - i))) (leading_scan d (m_recordSize s) (i + 1) n)"
  proof (cases "leading_scan d (m_recordSize s) (i + 1) n")
    case (Some j)
    then have "i + 1 \<le> j"
      using leading_scan_spec [where d = d and rs = "m_recordSize s" and i = "i + 1" and n = n] by simp
    then have "cur + 1 + (j - (i + 1)) = cur + (j - i)" by simp
    then show ?thesis unfolding Some option.map by (simp only:)
  qed simp
  then show ?case using IH Suc.prems [of 0] by auto
qed simp

lemma before_scan_eq:
  assumes "\<And>j. j < n \<Longrightarrow> d ! (j * m_recordSize s) \<noteq> kValueStateFree \<Longrightarrow>
      m_keyCompare s (encodeKey (u_type s) (b + j)) key < 0"
  shows "before_scan s d key n (b + n) =
    map_option (\<lambda>j. encodeKey (u_type s) (b + j)) (trailing_scan d (m_recordSize s) n)"
  using assms by (induction n) auto

text \<open>The numbers stored in one file.\<close>

lemma slot_stored:
  assumes "files_ok s" and "u_data s f = Some d" and "i < m_numberOfRecordsPerFile s"
  shows "d ! (i * m_recordSize s) \<noteq> kValueStateFree \<longleftrightarrow>
    (f - 1) * m_numberOfRecordsPerFile s + i \<in> dom (uli_abs s)"
proof -
  have "f \<in> set (u_fileIds s)" using assms(2) files_okD(4) [OF assms(1)] by auto
  then have f: "1 \<le> f" using files_okD(5) [OF assms(1)] by simp
  note n = number_of_slot [OF files_okD(2) [OF assms(1)] f assms(3)]
  then have "u_data s (getFileIdForKey s ((f - 1) * m_numberOfRecordsPerFile s + i)) = Some d"
    using assms(2) by simp
  from key_offset(2,7) [OF assms(1) this] n(2) show ?thesis by auto
qed

lemma stored_file:
  assumes "files_ok s" and "x \<in> dom (uli_abs s)"
  shows "getFileIdForKey s x \<in> set (u_fileIds s)"
  using assms files_okD(4) [OF assms(1)] by (auto simp: uli_abs_def split: option.splits)

lemma file_order:
  assumes "0 < m_numberOfRecordsPerFile s"
  shows "getFileIdForKey s x \<le> g \<longleftrightarrow> x < g * m_numberOfRecordsPerFile s"
    "1 \<le> g \<Longrightarrow> getFileIdForKey s x < g \<longleftrightarrow> x < (g - 1) * m_numberOfRecordsPerFile s"
    "x \<le> y \<Longrightarrow> getFileIdForKey s x \<le> getFileIdForKey s y"
    "getFileIdForKey s x < getFileIdForKey s y \<Longrightarrow> x < y"
proof -
  show 1: "getFileIdForKey s x \<le> g \<longleftrightarrow> x < g * m_numberOfRecordsPerFile s" for g x
    unfolding getFileIdForKey_def div_less_iff_less_mult [OF assms, symmetric] by linarith
  show "1 \<le> g \<Longrightarrow> getFileIdForKey s x < g \<longleftrightarrow> x < (g - 1) * m_numberOfRecordsPerFile s"
    unfolding 1 [symmetric] by linarith
  show m: "x \<le> y \<Longrightarrow> getFileIdForKey s x \<le> getFileIdForKey s y" for x y
    by (simp add: getFileIdForKey_def div_le_mono)
  show "getFileIdForKey s x < getFileIdForKey s y \<Longrightarrow> x < y" using m [of y x] by linarith
qed

section \<open>Neighbouring keys\<close>

text \<open>The least stored number from a bound on, and the greatest one below a bound.\<close>

definition least_from :: "nat set \<Rightarrow> nat \<Rightarrow> nat option \<Rightarrow> bool" where
  "least_from D lo r \<longleftrightarrow> (case r of
     None \<Rightarrow> \<forall>x \<in> D. x < lo
   | Some m \<Rightarrow> m \<in> D \<and> lo \<le> m \<and> (\<forall>x \<in> D. lo \<le> x \<longrightarrow> m \<le> x))"

definition greatest_below :: "nat set \<Rightarrow> nat \<Rightarrow> nat option \<Rightarrow> bool" where
  "greatest_below D hi r \<longleftrightarrow> (case r of
     None \<Rightarrow> \<forall>x \<in> D. hi \<le> x
   | Some m \<Rightarrow> m \<in> D \<and> m < hi \<and> (\<forall>x \<in> D. x < hi \<longrightarrow> x \<le> m))"

lemma least_from_unique: "least_from D lo r \<Longrightarrow> least_from D lo r' \<Longrightarrow> r = r'"
  by (cases r; cases r') (force simp: least_from_def intro: antisym)+

lemma greatest_below_unique: "greatest_below D hi r \<Longrightarrow> greatest_below D hi r' \<Longrightarrow> r = r'"
  by (cases r; cases r') (force simp: greatest_below_def intro: antisym)+

text \<open>Joining a scan of an interval with a scan of the rest.\<close>

lemma least_from_Some: "m \<in> D \<Longrightarrow> lo \<le> m \<Longrightarrow> (\<And>x. x \<in> D \<Longrightarrow> lo \<le> x \<Longrightarrow> x < mid \<Longrightarrow> m \<le> x) \<Longrightarrow> m < mid \<Longrightarrow>
    least_from D lo (Some m)"
  by (simp add: least_from_def) (metis le_cases le_trans nat_less_le not_le)

lemma least_from_skip: "least_from D mid r \<Longrightarrow> lo \<le> mid \<Longrightarrow> (\<And>x. x \<in> D \<Longrightarrow> lo \<le> x \<Longrightarrow> \<not> x < mid) \<Longrightarrow>
    least_from D lo r"
  by (cases r) (auto simp: least_from_def not_less intro: leI)

lemma greatest_below_Some: "m \<in> D \<Longrightarrow> m < hi \<Longrightarrow> (\<And>x. x \<in> D \<Longrightarrow> x < hi \<Longrightarrow> mid \<le> x \<Longrightarrow> x \<le> m) \<Longrightarrow> mid \<le> m \<Longrightarrow>
    greatest_below D hi (Some m)"
  by (simp add: greatest_below_def) (metis le_cases le_trans)

lemma greatest_below_skip: "greatest_below D mid r \<Longrightarrow> mid \<le> hi \<Longrightarrow> (\<And>x. x \<in> D \<Longrightarrow> x < hi \<Longrightarrow> \<not> mid \<le> x) \<Longrightarrow>
    greatest_below D hi r"
  by (cases r) (auto simp: greatest_below_def not_le intro: leI)

text \<open>The scan of one file, upwards from a record and downwards from a record, in numbers.\<close>

lemma scan_up_numbers:
  assumes "files_ok s" and "u_data s f = Some d" and "i \<le> m_numberOfRecordsPerFile s"
  defines "b \<equiv> (f - 1) * m_numberOfRecordsPerFile s"
  shows "case leading_scan d (m_recordSize s) i (m_numberOfRecordsPerFile s - i) of
      None \<Rightarrow> \<forall>x \<in> dom (uli_abs s). b + i \<le> x \<longrightarrow> \<not> x < b + m_numberOfRecordsPerFile s
    | Some j \<Rightarrow> i \<le> j \<and> b + j \<in> dom (uli_abs s) \<and> j < m_numberOfRecordsPerFile s \<and>
        (\<forall>x \<in> dom (uli_abs s). b + i \<le> x \<longrightarrow> x < b + m_numberOfRecordsPerFile s \<longrightarrow> b + j \<le> x)"
proof -
  let ?R = "m_numberOfRecordsPerFile s"
  note occ = slot_stored [OF assms(1,2), folded b_def]
  have occ': "x < b + ?R \<Longrightarrow> b \<le> x \<Longrightarrow> x \<in> dom (uli_abs s) \<longleftrightarrow> d ! ((x - b) * m_recordSize s) \<noteq> kValueStateFree" for x
    using occ [of "x - b"] by auto
  note spec = leading_scan_spec [where d = d and rs = "m_recordSize s" and i = i and n = "?R - i",
    unfolded le_add_diff_inverse [OF assms(3)]]
  show ?thesis
  proof (cases "leading_scan d (m_recordSize s) i (?R - i)")
    case None
    then have free: "\<And>j. i \<le> j \<Longrightarrow> j < ?R \<Longrightarrow> d ! (j * m_recordSize s) = kValueStateFree" using spec by simp
    have "\<not> x < b + ?R" if "x \<in> dom (uli_abs s)" "b + i \<le> x" for x
      using that occ' [of x] free [of "x - b"] by fastforce
    then show ?thesis using None by simp
  next
    case (Some j)
    then have j: "i \<le> j" "j < ?R" "d ! (j * m_recordSize s) \<noteq> kValueStateFree"
      and free: "\<And>l. i \<le> l \<Longrightarrow> l < j \<Longrightarrow> d ! (l * m_recordSize s) = kValueStateFree" using spec by simp_all
    have "b + j \<le> x" if "x \<in> dom (uli_abs s)" "b + i \<le> x" "x < b + ?R" for x
      using that occ' [of x] free [of "x - b"] by fastforce
    then show ?thesis using Some j occ by simp
  qed
qed

lemma scan_down_numbers:
  assumes "files_ok s" and "u_data s f = Some d" and "n \<le> m_numberOfRecordsPerFile s"
  defines "b \<equiv> (f - 1) * m_numberOfRecordsPerFile s"
  shows "case trailing_scan d (m_recordSize s) n of
      None \<Rightarrow> \<forall>x \<in> dom (uli_abs s). x < b + n \<longrightarrow> \<not> b \<le> x
    | Some j \<Rightarrow> b + j \<in> dom (uli_abs s) \<and> j < n \<and>
        (\<forall>x \<in> dom (uli_abs s). x < b + n \<longrightarrow> b \<le> x \<longrightarrow> x \<le> b + j)"
proof -
  let ?R = "m_numberOfRecordsPerFile s"
  note occ = slot_stored [OF assms(1,2), folded b_def]
  have occ': "x < b + ?R \<Longrightarrow> b \<le> x \<Longrightarrow> x \<in> dom (uli_abs s) \<longleftrightarrow> d ! ((x - b) * m_recordSize s) \<noteq> kValueStateFree" for x
    using occ [of "x - b"] by auto
  note spec = trailing_scan_spec [where d = d and rs = "m_recordSize s" and n = n]
  show ?thesis
  proof (cases "trailing_scan d (m_recordSize s) n")
    case None
    then have free: "\<And>j. j < n \<Longrightarrow> d ! (j * m_recordSize s) = kValueStateFree" using spec by simp
    have "\<not> b \<le> x" if "x \<in> dom (uli_abs s)" "x < b + n" for x
      using that occ' [of x] free [of "x - b"] assms(3) by fastforce
    then show ?thesis using None by simp
  next
    case (Some j)
    then have j: "j < n" "d ! (j * m_recordSize s) \<noteq> kValueStateFree"
      and free: "\<And>l. j < l \<Longrightarrow> l < n \<Longrightarrow> d ! (l * m_recordSize s) = kValueStateFree" using spec by simp_all
    have "x \<le> b + j" if "x \<in> dom (uli_abs s)" "x < b + n" "b \<le> x" for x
      using that occ' [of x] free [of "x - b"] assms(3) by fastforce
    then show ?thesis using Some j occ [of j] assms(3) by simp
  qed
qed

section \<open>Walking the files\<close>

lemma findFileChecked_id:
  assumes "files_ok s" and "f \<in> set (u_fileIds s)"
  obtains d where "findFileChecked s f = Inr d" "u_data s f = Some d" "1 \<le> f"
proof -
  from assms obtain d where "u_data s f = Some d" using files_okD(4) [OF assms(1)] by auto
  then show ?thesis
    using that assms(2) files_okD(5,6) [OF assms] by (simp add: findFileChecked_def findFile_def)
qed

lemma walk_up:
  assumes ok: "files_ok s"
    and nil: "walk [] = Inr None"
    and step: "\<And>f fs d. f \<in> set (u_fileIds s) \<Longrightarrow> g \<le> f \<Longrightarrow> u_data s f = Some d \<Longrightarrow> walk (f # fs) =
      (case leading_scan d (m_recordSize s) 0 (m_numberOfRecordsPerFile s) of
         Some j \<Rightarrow> Inr (Some (encodeKey (u_type s) ((f - 1) * m_numberOfRecordsPerFile s + j)))
       | None \<Rightarrow> walk fs)"
    and "sorted_wrt (<) fs" and "set fs = {f \<in> set (u_fileIds s). g \<le> f}" and "1 \<le> g"
  shows "\<exists>r. walk fs = Inr (map_option (encodeKey (u_type s)) r) \<and>
    least_from (dom (uli_abs s)) ((g - 1) * m_numberOfRecordsPerFile s) r"
  using assms(3-)
proof (induction fs arbitrary: g)
  case Nil
  have "x < (g - 1) * m_numberOfRecordsPerFile s" if "x \<in> dom (uli_abs s)" for x
    using stored_file [OF ok that] Nil(3) file_order(2) [OF files_okD(2) [OF ok] Nil(4)]
    by (metis (mono_tags, lifting) empty_iff list.set(1) mem_Collect_eq not_le)
  then show ?case using nil by (intro exI [of _ None]) (simp add: least_from_def)
next
  case (Cons f fs)
  let ?R = "m_numberOfRecordsPerFile s"
  have f: "f \<in> set (u_fileIds s)" "g \<le> f" using Cons.prems(3) by auto
  obtain d where d: "u_data s f = Some d" "1 \<le> f" by (rule findFileChecked_id [OF ok f(1)])
  define lo b where "lo = (g - 1) * ?R" and "b = (f - 1) * ?R"
  have gap: "b \<le> x" if "x \<in> dom (uli_abs s)" "lo \<le> x" for x
  proof -
    have "g \<le> getFileIdForKey s x"
      using file_order(2) [OF files_okD(2) [OF ok] Cons.prems(4), of x] that(2) unfolding lo_def by linarith
    then have "getFileIdForKey s x \<in> set (f # fs)" using Cons.prems(3) stored_file [OF ok that(1)] by simp
    then have "f \<le> getFileIdForKey s x" using Cons.prems(2) by auto
    then show ?thesis using file_order(2) [OF files_okD(2) [OF ok] d(2), of x] unfolding b_def by linarith
  qed
  have end_eq: "f * ?R = b + ?R" using d(2) unfolding b_def by (cases f) simp_all
  have le: "lo \<le> b" using f(2) unfolding lo_def b_def by (intro mult_le_mono1 diff_le_mono)
  note scan = scan_up_numbers [OF ok d(1) le0, folded b_def, unfolded add_0_right diff_zero]
  note walk = Cons.prems(1) [OF f d(1), folded b_def]
  show ?case unfolding lo_def [symmetric]
  proof (cases "leading_scan d (m_recordSize s) 0 ?R")
    case (Some j)
    with scan have j: "b + j \<in> dom (uli_abs s)" "j < ?R"
      "\<forall>x \<in> dom (uli_abs s). b \<le> x \<longrightarrow> x < b + ?R \<longrightarrow> b + j \<le> x"
      by simp_all
    have "least_from (dom (uli_abs s)) lo (Some (b + j))"
      using j gap le by (intro least_from_Some [where mid = "b + ?R"]) auto
    then show "\<exists>r. walk (f # fs) = Inr (map_option (encodeKey (u_type s)) r) \<and> least_from (dom (uli_abs s)) lo r"
      using walk Some by (intro exI [of _ "Some (b + j)"]) simp
  next
    case None
    have less: "\<And>h. h \<in> set fs \<Longrightarrow> f < h" and srt: "sorted_wrt (<) fs" using Cons.prems(2) by simp_all
    have mem: "h = f \<or> h \<in> set fs \<longleftrightarrow> h \<in> set (u_fileIds s) \<and> g \<le> h" for h
      using Cons.prems(3) by (simp add: set_eq_iff)
    have "h \<in> set fs \<longleftrightarrow> h \<in> set (u_fileIds s) \<and> f + 1 \<le> h" for h
    proof
      assume "h \<in> set fs"
      then show "h \<in> set (u_fileIds s) \<and> f + 1 \<le> h" using mem [of h] less [of h] by simp
    next
      assume "h \<in> set (u_fileIds s) \<and> f + 1 \<le> h"
      then show "h \<in> set fs" using mem [of h] f(2) by simp
    qed
    then have up: "set fs = {h \<in> set (u_fileIds s). f + 1 \<le> h}" by (simp add: set_eq_iff)
    have "\<exists>r. walk fs = Inr (map_option (encodeKey (u_type s)) r) \<and>
        least_from (dom (uli_abs s)) ((f + 1 - 1) * ?R) r"
      by (rule Cons.IH [OF _ srt up]) (use Cons.prems(1) f(2) in simp_all)
    then obtain r where r: "walk fs = Inr (map_option (encodeKey (u_type s)) r)"
        "least_from (dom (uli_abs s)) (b + ?R) r" using end_eq by auto
    have "\<forall>x \<in> dom (uli_abs s). b \<le> x \<longrightarrow> \<not> x < b + ?R" using scan None by simp
    then have "least_from (dom (uli_abs s)) lo r" using gap le by (intro least_from_skip [OF r(2)]) simp_all
    then show "\<exists>r. walk (f # fs) = Inr (map_option (encodeKey (u_type s)) r) \<and> least_from (dom (uli_abs s)) lo r"
      using walk None r(1) by (intro exI [of _ r]) simp
  qed
qed

lemma walk_down:
  assumes ok: "files_ok s"
    and nil: "walk [] = Inr None"
    and step: "\<And>f fs d. f \<in> set (u_fileIds s) \<Longrightarrow> f < g \<Longrightarrow> u_data s f = Some d \<Longrightarrow> walk (f # fs) =
      (case trailing_scan d (m_recordSize s) (m_numberOfRecordsPerFile s) of
         Some j \<Rightarrow> Inr (Some (encodeKey (u_type s) ((f - 1) * m_numberOfRecordsPerFile s + j)))
       | None \<Rightarrow> walk fs)"
    and "sorted_wrt (>) fs" and "set fs = {f \<in> set (u_fileIds s). f < g}" and "1 \<le> g"
  shows "\<exists>r. walk fs = Inr (map_option (encodeKey (u_type s)) r) \<and>
    greatest_below (dom (uli_abs s)) ((g - 1) * m_numberOfRecordsPerFile s) r"
  using assms(3-)
proof (induction fs arbitrary: g)
  case Nil
  have "(g - 1) * m_numberOfRecordsPerFile s \<le> x" if "x \<in> dom (uli_abs s)" for x
  proof -
    have "\<not> getFileIdForKey s x < g" using stored_file [OF ok that] Nil(3) by auto
    then show ?thesis using file_order(2) [OF files_okD(2) [OF ok] Nil(4), of x] by linarith
  qed
  then show ?case using nil by (intro exI [of _ None]) (simp add: greatest_below_def)
next
  case (Cons f fs)
  let ?R = "m_numberOfRecordsPerFile s"
  have f: "f \<in> set (u_fileIds s)" "f < g" using Cons.prems(3) by auto
  obtain d where d: "u_data s f = Some d" "1 \<le> f" by (rule findFileChecked_id [OF ok f(1)])
  define hi b where "hi = (g - 1) * ?R" and "b = (f - 1) * ?R"
  have end_eq: "f * ?R = b + ?R" using d(2) unfolding b_def by (cases f) simp_all
  have gap: "x < b + ?R" if "x \<in> dom (uli_abs s)" "x < hi" for x
  proof -
    have "getFileIdForKey s x < g"
      using file_order(2) [OF files_okD(2) [OF ok] Cons.prems(4), of x] that(2) unfolding hi_def by linarith
    then have "getFileIdForKey s x \<in> set (f # fs)" using Cons.prems(3) stored_file [OF ok that(1)] by simp
    then have "getFileIdForKey s x \<le> f" using Cons.prems(2) by auto
    then show ?thesis using file_order(1) [OF files_okD(2) [OF ok], of x f] end_eq by linarith
  qed
  have le: "b + ?R \<le> hi"
    using f(2) unfolding hi_def end_eq [symmetric] by (intro mult_le_mono1) simp
  note scan = scan_down_numbers [OF ok d(1) order_refl, folded b_def]
  note walk = Cons.prems(1) [OF f d(1), folded b_def]
  show ?case unfolding hi_def [symmetric]
  proof (cases "trailing_scan d (m_recordSize s) ?R")
    case (Some j)
    with scan have j: "b + j \<in> dom (uli_abs s)" "j < ?R"
      "\<forall>x \<in> dom (uli_abs s). x < b + ?R \<longrightarrow> b \<le> x \<longrightarrow> x \<le> b + j"
      by simp_all
    then have "greatest_below (dom (uli_abs s)) hi (Some (b + j))"
      using gap le by (intro greatest_below_Some [where mid = b]) simp_all
    then show "\<exists>r. walk (f # fs) = Inr (map_option (encodeKey (u_type s)) r) \<and> greatest_below (dom (uli_abs s)) hi r"
      using walk Some by (intro exI [of _ "Some (b + j)"]) simp
  next
    case None
    have less: "\<And>h. h \<in> set fs \<Longrightarrow> h < f" and srt: "sorted_wrt (>) fs" using Cons.prems(2) by simp_all
    have mem: "h = f \<or> h \<in> set fs \<longleftrightarrow> h \<in> set (u_fileIds s) \<and> h < g" for h
      using Cons.prems(3) by (simp add: set_eq_iff)
    have "h \<in> set fs \<longleftrightarrow> h \<in> set (u_fileIds s) \<and> h < f" for h
    proof
      assume "h \<in> set fs"
      then show "h \<in> set (u_fileIds s) \<and> h < f" using mem [of h] less [of h] by simp
    next
      assume "h \<in> set (u_fileIds s) \<and> h < f"
      then show "h \<in> set fs" using mem [of h] f(2) by simp
    qed
    then have down: "set fs = {h \<in> set (u_fileIds s). h < f}" by (simp add: set_eq_iff)
    have "\<exists>r. walk fs = Inr (map_option (encodeKey (u_type s)) r) \<and>
        greatest_below (dom (uli_abs s)) ((f - 1) * ?R) r"
      by (rule Cons.IH [OF _ srt down d(2)]) (use Cons.prems(1) f(2) in simp)
    then obtain r where r: "walk fs = Inr (map_option (encodeKey (u_type s)) r)"
        "greatest_below (dom (uli_abs s)) b r" unfolding b_def by auto
    have "\<forall>x \<in> dom (uli_abs s). x < b + ?R \<longrightarrow> \<not> b \<le> x" using scan None by simp
    then have "greatest_below (dom (uli_abs s)) hi r"
      using gap le by (intro greatest_below_skip [OF r(2)]) simp_all
    then show "\<exists>r. walk (f # fs) = Inr (map_option (encodeKey (u_type s)) r) \<and> greatest_below (dom (uli_abs s)) hi r"
      using walk None r(1) by (intro exI [of _ r]) simp
  qed
qed

section \<open>The ordered searches\<close>

lemma leading_ok:
  assumes ok: "files_ok s"
  shows "\<exists>r. findLeadingKey s = Inr (map_option (encodeKey (u_type s)) r) \<and> least_from (dom (uli_abs s)) 0 r"
proof -
  have "\<exists>r. leading_files s (u_fileIds s) = Inr (map_option (encodeKey (u_type s)) r) \<and>
      least_from (dom (uli_abs s)) ((1 - 1) * m_numberOfRecordsPerFile s) r"
  proof (rule walk_up [OF ok])
    fix f fs d
    assume f: "f \<in> set (u_fileIds s)" and d: "u_data s f = Some d"
    obtain d' where "findFileChecked s f = Inr d'" "u_data s f = Some d'" by (rule findFileChecked_id [OF ok f])
    then show "leading_files s (f # fs) =
      (case leading_scan d (m_recordSize s) 0 (m_numberOfRecordsPerFile s) of
         Some j \<Rightarrow> Inr (Some (encodeKey (u_type s) ((f - 1) * m_numberOfRecordsPerFile s + j)))
       | None \<Rightarrow> leading_files s fs)"
      using d by simp
  qed (use files_okD(3,5) [OF ok] in auto)
  then show ?thesis by (simp add: findLeadingKey_def)
qed

lemma trailing_ok:
  assumes ok: "files_ok s"
  shows "\<exists>r. findTrailingKey s = Inr (map_option (encodeKey (u_type s)) r) \<and>
    greatest_below (dom (uli_abs s)) (computeMaxPossibleFileId s * m_numberOfRecordsPerFile s) r"
proof -
  let ?g = "computeMaxPossibleFileId s + 1"
  have "\<exists>r. trailing_files s (rev (u_fileIds s)) = Inr (map_option (encodeKey (u_type s)) r) \<and>
      greatest_below (dom (uli_abs s)) ((?g - 1) * m_numberOfRecordsPerFile s) r"
  proof (rule walk_down [OF ok])
    fix f fs d
    assume f: "f \<in> set (u_fileIds s)" and d: "u_data s f = Some d"
    obtain d' where "findFileChecked s f = Inr d'" "u_data s f = Some d'" by (rule findFileChecked_id [OF ok f])
    then show "trailing_files s (f # fs) =
      (case trailing_scan d (m_recordSize s) (m_numberOfRecordsPerFile s) of
         Some j \<Rightarrow> Inr (Some (encodeKey (u_type s) ((f - 1) * m_numberOfRecordsPerFile s + j)))
       | None \<Rightarrow> trailing_files s fs)"
      using d by simp
  next
    show "sorted_wrt (>) (rev (u_fileIds s))" using files_okD(3) [OF ok] by (simp add: sorted_wrt_rev)
  qed (use files_okD(6) [OF ok] in \<open>auto simp: less_Suc_eq_le\<close>)
  then show ?thesis by (simp add: findTrailingKey_def)
qed

lemma before_files_ok:
  assumes ok: "files_ok s" and rg: "range_ok s" and k: "k < 2 ^ keyBits (u_type s)"
    and g: "1 \<le> g" "(g - 1) * m_numberOfRecordsPerFile s \<le> k"
  shows "\<exists>r. before_files s (encodeKey (u_type s) k) (rev (filter (\<lambda>f. f < g) (u_fileIds s))) =
      Inr (map_option (encodeKey (u_type s)) r) \<and>
    greatest_below (dom (uli_abs s)) ((g - 1) * m_numberOfRecordsPerFile s) r"
proof (rule walk_down [OF ok _ _ _ _ g(1)])
  fix f fs d
  assume f: "f \<in> set (u_fileIds s)" "f < g" and d: "u_data s f = Some d"
  obtain d' where d': "findFileChecked s f = Inr d'" "u_data s f = Some d'" "1 \<le> f"
    by (rule findFileChecked_id [OF ok f(1)])
  let ?R = "m_numberOfRecordsPerFile s" and ?b = "(f - 1) * m_numberOfRecordsPerFile s"
  have "?b + ?R = f * ?R" using d'(3) by (cases f) simp_all
  also have "\<dots> \<le> (g - 1) * ?R" using f(2) by (intro mult_le_mono1) simp
  finally have "?b + j < k" if "j < ?R" for j using that g(2) by linarith
  then have "before_scan s d (encodeKey (u_type s) k) ?R (?b + ?R) =
      map_option (\<lambda>j. encodeKey (u_type s) (?b + j)) (trailing_scan d (m_recordSize s) ?R)"
    by (intro before_scan_eq) (metis cmp_encode(2) k order_less_trans)
  then show "before_files s (encodeKey (u_type s) k) (f # fs) =
      (case trailing_scan d (m_recordSize s) (m_numberOfRecordsPerFile s) of
         Some j \<Rightarrow> Inr (Some (encodeKey (u_type s) ((f - 1) * m_numberOfRecordsPerFile s + j)))
       | None \<Rightarrow> before_files s (encodeKey (u_type s) k) fs)"
    using d d'(1,2) by (simp add: before_file_def Let_def split: option.split)
next
  show "sorted_wrt (>) (rev (filter (\<lambda>f. f < g) (u_fileIds s)))"
    using files_okD(3) [OF ok] by (simp add: sorted_wrt_rev sorted_wrt_filter)
qed auto

lemma after_files_ok:
  assumes ok: "files_ok s" and rg: "range_ok s" and k: "k < 2 ^ keyBits (u_type s)"
    and g: "1 \<le> g" "k < (g - 1) * m_numberOfRecordsPerFile s"
  shows "\<exists>r. after_files s (encodeKey (u_type s) k) (filter (\<lambda>f. g \<le> f) (u_fileIds s)) =
      Inr (map_option (encodeKey (u_type s)) r) \<and>
    least_from (dom (uli_abs s)) ((g - 1) * m_numberOfRecordsPerFile s) r"
proof (rule walk_up [OF ok _ _ _ _ g(1)])
  fix f fs d
  assume f: "f \<in> set (u_fileIds s)" "g \<le> f" and d: "u_data s f = Some d"
  obtain d' where d': "findFileChecked s f = Inr d'" "u_data s f = Some d'" "1 \<le> f"
    by (rule findFileChecked_id [OF ok f(1)])
  let ?R = "m_numberOfRecordsPerFile s" and ?b = "(f - 1) * m_numberOfRecordsPerFile s"
  have "(g - 1) * ?R \<le> ?b" using f(2) by (intro mult_le_mono1 diff_le_mono)
  then have b: "k < ?b" using g(2) by linarith
  have "after_scan s d (encodeKey (u_type s) k) 0 ?R ?b =
      map_option (\<lambda>j. encodeKey (u_type s) (?b + (j - 0))) (leading_scan d (m_recordSize s) 0 ?R)"
  proof (rule after_scan_eq)
    fix j
    assume "j < ?R" "d ! ((0 + j) * m_recordSize s) \<noteq> kValueStateFree"
    then have "?b + j \<in> dom (uli_abs s)" using slot_stored [OF ok d, of j] by simp
    then have "?b + j < 2 ^ keyBits (u_type s)"
      using files_okD(8) [OF ok] max_number_bound [OF rg] by (meson le_less_trans)
    then show "m_keyCompare s (encodeKey (u_type s) (?b + j)) (encodeKey (u_type s) k) > 0"
      using k b by (simp add: cmp_encode)
  qed
  then show "after_files s (encodeKey (u_type s) k) (f # fs) =
      (case leading_scan d (m_recordSize s) 0 (m_numberOfRecordsPerFile s) of
         Some j \<Rightarrow> Inr (Some (encodeKey (u_type s) ((f - 1) * m_numberOfRecordsPerFile s + j)))
       | None \<Rightarrow> after_files s (encodeKey (u_type s) k) fs)"
    using d d'(1,2) by (simp add: after_file_def Let_def split: option.split)
next
  show "sorted_wrt (<) (filter (\<lambda>f. g \<le> f) (u_fileIds s))"
    using files_okD(3) [OF ok] by (simp add: sorted_wrt_filter)
qed auto

lemma sorted_hd_last:
  fixes xs :: "nat list"
  shows "sorted xs \<Longrightarrow> x \<in> set xs \<Longrightarrow> hd xs \<le> x" "sorted xs \<Longrightarrow> x \<in> set xs \<Longrightarrow> x \<le> last xs"
  by (cases xs, auto) (cases xs rule: rev_cases, auto simp: sorted_append)

lemma available_range:
  assumes "files_ok s" and "f \<in> set (u_fileIds s)"
  shows "getMinAvailableFileId s \<le> f" "f \<le> getMaxAvailableFileId s"
proof -
  have "sorted (u_fileIds s)" using files_okD(3) [OF assms(1)] by (simp add: strict_sorted_imp_sorted)
  from sorted_hd_last [OF this assms(2)] show "getMinAvailableFileId s \<le> f" "f \<le> getMaxAvailableFileId s"
    using assms(2) by (auto simp: getMinAvailableFileId_def getMaxAvailableFileId_def)
qed

lemma slot_split:
  assumes "files_ok s"
  shows "(getFileIdForKey s k - 1) * m_numberOfRecordsPerFile s + k mod m_numberOfRecordsPerFile s = k"
    "k mod m_numberOfRecordsPerFile s < m_numberOfRecordsPerFile s" "1 \<le> getFileIdForKey s k"
  using files_okD(2) [OF assms] by (simp_all add: slot_of_number getFileIdForKey_def)

lemma before_file_ok:
  assumes ok: "files_ok s" and g: "getFileIdForKey s k \<in> set (u_fileIds s)" and k: "k < 2 ^ keyBits (u_type s)"
    and r: "greatest_below (dom (uli_abs s)) ((getFileIdForKey s k - 1) * m_numberOfRecordsPerFile s) r"
  shows "\<exists>r'. before_file s (encodeKey (u_type s) k) (getFileIdForKey s k) (k mod m_numberOfRecordsPerFile s) k =
      Inr (map_option (encodeKey (u_type s)) r') \<and>
    greatest_below (dom (uli_abs s)) k (if r' = None then r else r')"
proof -
  let ?D = "dom (uli_abs s)" and ?key = "encodeKey (u_type s) k"
  define b i where "b = (getFileIdForKey s k - 1) * m_numberOfRecordsPerFile s"
    and "i = k mod m_numberOfRecordsPerFile s"
  note bi = slot_split [OF ok, of k, folded b_def i_def]
  obtain d where d: "findFileChecked s (getFileIdForKey s k) = Inr d" "u_data s (getFileIdForKey s k) = Some d"
    by (rule findFileChecked_id [OF ok g])
  have "before_scan s d ?key i (b + i) =
      map_option (\<lambda>j. encodeKey (u_type s) (b + j)) (trailing_scan d (m_recordSize s) i)"
    using cmp_encode(2) [of _ s k] k bi(1) by (intro before_scan_eq) simp
  then have find: "before_file s ?key (getFileIdForKey s k) i k =
      Inr (map_option (\<lambda>j. encodeKey (u_type s) (b + j)) (trailing_scan d (m_recordSize s) i))"
    using d(1) bi(1) by (simp add: before_file_def)
  note scan = scan_down_numbers [OF ok d(2) less_imp_le [OF bi(2)], folded b_def, unfolded bi(1)]
  show ?thesis unfolding i_def [symmetric]
  proof (cases "trailing_scan d (m_recordSize s) i")
    case (Some j)
    then have "greatest_below ?D k (Some (b + j))"
      using scan bi(1) by (intro greatest_below_Some [where mid = b]) auto
    then show "\<exists>r'. before_file s ?key (getFileIdForKey s k) i k = Inr (map_option (encodeKey (u_type s)) r') \<and>
        greatest_below ?D k (if r' = None then r else r')"
      using find Some by (intro exI [of _ "Some (b + j)"]) simp
  next
    case None
    then have "greatest_below ?D k r"
      using scan bi(1) r by (intro greatest_below_skip [OF r [folded b_def]]) auto
    then show "\<exists>r'. before_file s ?key (getFileIdForKey s k) i k = Inr (map_option (encodeKey (u_type s)) r') \<and>
        greatest_below ?D k (if r' = None then r else r')"
      using find None by (intro exI [of _ None]) simp
  qed
qed

lemma findKeyBefore_ok:
  assumes ok: "files_ok s" and rg: "range_ok s" and files: "u_fileIds s \<noteq> []"
    and k: "k < 2 ^ keyBits (u_type s)"
    and exit: "m_keyCompare s (encodeKey (u_type s) k) (u_minKey s) = 0 \<Longrightarrow> \<forall>x \<in> dom (uli_abs s). k \<le> x"
  shows "\<exists>r. findKeyBefore s (encodeKey (u_type s) k) = Inr (map_option (encodeKey (u_type s)) r) \<and>
    greatest_below (dom (uli_abs s)) k r"
proof -
  let ?D = "dom (uli_abs s)" and ?key = "encodeKey (u_type s) k" and ?g = "getFileIdForKey s k"
  let ?b = "(getFileIdForKey s k - 1) * m_numberOfRecordsPerFile s"
  note bi = slot_split [OF ok, of k] and dk = decode_encodeKey [OF k] and order = file_order [OF files_okD(2) [OF ok]]
  have zero: "m_keyCompare s ?key (u_minPossibleKey s) = 0 \<longleftrightarrow> k = 0"
    using range_keys(1) [OF rg] cmp_encode(1) [OF k, of 0] by simp
  have "?b \<le> k" using bi(1) by linarith
  then obtain r where r: "before_files s ?key (rev (filter (\<lambda>f. f < ?g) (u_fileIds s))) =
      Inr (map_option (encodeKey (u_type s)) r)" "greatest_below ?D ?b r"
    using before_files_ok [OF ok rg k bi(3)] by auto
  show ?thesis
  proof (cases "(m_keyCompare s ?key (u_minKey s) = 0 \<or> k = 0) \<or> ?g < getMinAvailableFileId s")
    case True
    have "k \<le> x" if "x \<in> ?D" for x
      using True exit that available_range(1) [OF ok stored_file [OF ok that]] order(3) [of x k] by fastforce
    then have "greatest_below ?D k None" by (simp add: greatest_below_def)
    then show ?thesis using True zero dk by (intro exI [of _ None]) (auto simp: findKeyBefore_def Let_def)
  next
    case False
    show ?thesis
    proof (cases "?g \<in> set (u_fileIds s)")
      case True
      from before_file_ok [OF ok True k r(2)] obtain r' where
        "before_file s ?key ?g (k mod m_numberOfRecordsPerFile s) k = Inr (map_option (encodeKey (u_type s)) r')"
        "greatest_below ?D k (if r' = None then r else r')" by blast
      then show ?thesis using False True zero dk r(1)
        by (intro exI [of _ "if r' = None then r else r'"])
          (auto simp: findKeyBefore_def Let_def split: option.split)
    next
      case gap: False
      have "hd (u_fileIds s) \<in> set (filter (\<lambda>f. f < ?g) (u_fileIds s))"
        using False gap files hd_in_set [OF files]
        by (cases "hd (u_fileIds s) = ?g") (simp_all add: getMinAvailableFileId_def)
      then have "filter (\<lambda>f. f < ?g) (u_fileIds s) \<noteq> []" by (metis empty_iff list.set(1))
      then have find: "findKeyBefore s ?key = Inr (map_option (encodeKey (u_type s)) r)"
        using False gap zero dk r(1) by (simp add: findKeyBefore_def Let_def)
      have "\<not> ?b \<le> x" if "x \<in> ?D" "x < k" for x
        using that stored_file [OF ok that(1)] gap order(2) [OF bi(3), of x] order(3) [of x k]
        by (metis le_neq_implies_less less_imp_le_nat not_le)
      then have "greatest_below ?D k r" using \<open>?b \<le> k\<close> by (intro greatest_below_skip [OF r(2)]) auto
      then show ?thesis using find by blast
    qed
  qed
qed

lemma after_file_ok:
  assumes ok: "files_ok s" and rg: "range_ok s" and g: "getFileIdForKey s k \<in> set (u_fileIds s)"
    and k: "k < 2 ^ keyBits (u_type s)" and inner: "k mod m_numberOfRecordsPerFile s + 1 < m_numberOfRecordsPerFile s"
    and r: "least_from (dom (uli_abs s)) (getFileIdForKey s k * m_numberOfRecordsPerFile s) r"
  shows "\<exists>r'. after_file s (encodeKey (u_type s) k) (getFileIdForKey s k) (k mod m_numberOfRecordsPerFile s + 1)
      (k + 1) = Inr (map_option (encodeKey (u_type s)) r') \<and>
    least_from (dom (uli_abs s)) (k + 1) (if r' = None then r else r')"
proof -
  let ?D = "dom (uli_abs s)" and ?key = "encodeKey (u_type s) k" and ?R = "m_numberOfRecordsPerFile s"
  define b i where "b = (getFileIdForKey s k - 1) * ?R" and "i = k mod ?R + 1"
  note bi = slot_split [OF ok, of k, folded b_def]
  have k1: "b + i = k + 1" "i < ?R" using bi(1) inner by (simp_all add: i_def)
  have e: "getFileIdForKey s k * ?R = b + ?R" using bi(3) unfolding b_def by (cases "getFileIdForKey s k") simp_all
  obtain d where d: "findFileChecked s (getFileIdForKey s k) = Inr d" "u_data s (getFileIdForKey s k) = Some d"
    by (rule findFileChecked_id [OF ok g])
  have "after_scan s d ?key i (?R - i) (k + 1) =
      map_option (\<lambda>j. encodeKey (u_type s) (k + 1 + (j - i))) (leading_scan d (m_recordSize s) i (?R - i))"
  proof (rule after_scan_eq)
    fix j
    assume "j < ?R - i" "d ! ((i + j) * m_recordSize s) \<noteq> kValueStateFree"
    then have "b + (i + j) \<in> ?D" using slot_stored [OF ok d(2), of "i + j"] unfolding b_def by simp
    then have "k + 1 + j < 2 ^ keyBits (u_type s)"
      using files_okD(8) [OF ok] max_number_bound [OF rg] k1(1) by (metis add.assoc le_less_trans)
    then show "m_keyCompare s (encodeKey (u_type s) (k + 1 + j)) ?key > 0" using k by (simp add: cmp_encode)
  qed
  then have find: "after_file s ?key (getFileIdForKey s k) i (k + 1) =
      Inr (map_option (\<lambda>j. encodeKey (u_type s) (k + 1 + (j - i))) (leading_scan d (m_recordSize s) i (?R - i)))"
    using d(1) k1(2) by (simp add: after_file_def)
  note scan = scan_up_numbers [OF ok d(2) less_imp_le [OF k1(2)], folded b_def, unfolded k1(1)]
  show ?thesis unfolding i_def [symmetric]
  proof (cases "leading_scan d (m_recordSize s) i (?R - i)")
    case (Some j)
    then have j: "i \<le> j" "b + j \<in> ?D" "j < ?R"
      "\<forall>x \<in> ?D. k + 1 \<le> x \<longrightarrow> x < b + ?R \<longrightarrow> b + j \<le> x" using scan by simp_all
    have "k + 1 + (j - i) = b + j" using j(1) k1(1) by linarith
    moreover have "least_from ?D (k + 1) (Some (b + j))"
      using j k1(1) by (intro least_from_Some [where mid = "b + ?R"]) auto
    ultimately show "\<exists>r'. after_file s ?key (getFileIdForKey s k) i (k + 1) =
        Inr (map_option (encodeKey (u_type s)) r') \<and> least_from ?D (k + 1) (if r' = None then r else r')"
      using find Some by (intro exI [of _ "Some (b + j)"]) simp
  next
    case None
    then have "\<forall>x \<in> ?D. k + 1 \<le> x \<longrightarrow> \<not> x < b + ?R" using scan by simp
    then have "least_from ?D (k + 1) r" using k1 e r by (intro least_from_skip [OF r]) auto
    then show "\<exists>r'. after_file s ?key (getFileIdForKey s k) i (k + 1) =
        Inr (map_option (encodeKey (u_type s)) r') \<and> least_from ?D (k + 1) (if r' = None then r else r')"
      using find None by (intro exI [of _ None]) simp
  qed
qed

text \<open>At the last record of an existing file the offset computation wraps to the first record: the scan
  reads the same file again and numbers its records from the next file on.\<close>

lemma after_file_wrap:
  assumes ok: "files_ok s" and g: "getFileIdForKey s k \<in> set (u_fileIds s)"
    and k: "k < 2 ^ keyBits (u_type s)" and last: "k mod m_numberOfRecordsPerFile s + 1 = m_numberOfRecordsPerFile s"
    and range: "k + m_numberOfRecordsPerFile s < 2 ^ keyBits (u_type s)"
  shows "after_file s (encodeKey (u_type s) k) (getFileIdForKey s k) (k mod m_numberOfRecordsPerFile s + 1) (k + 1) =
    Inr (map_option (\<lambda>j. encodeKey (u_type s) (k + 1 + j))
      (leading_scan (the (u_data s (getFileIdForKey s k))) (m_recordSize s) 0 (m_numberOfRecordsPerFile s)))"
proof -
  let ?R = "m_numberOfRecordsPerFile s"
  obtain d where d: "findFileChecked s (getFileIdForKey s k) = Inr d" "u_data s (getFileIdForKey s k) = Some d"
    by (rule findFileChecked_id [OF ok g])
  have "after_scan s d (encodeKey (u_type s) k) 0 ?R (k + 1) =
      map_option (\<lambda>j. encodeKey (u_type s) (k + 1 + (j - 0))) (leading_scan d (m_recordSize s) 0 ?R)"
    using range k by (intro after_scan_eq) (simp add: cmp_encode)
  then show ?thesis using d last by (simp add: after_file_def)
qed

lemma after_file_empty:
  assumes ok: "files_ok s" and g: "f \<in> set (u_fileIds s)"
    and empty: "\<forall>x \<in> dom (uli_abs s). getFileIdForKey s x \<noteq> f"
  shows "after_file s key f n cur = Inr None"
proof -
  let ?R = "m_numberOfRecordsPerFile s"
  obtain d where d: "findFileChecked s f = Inr d" "u_data s f = Some d" "1 \<le> f"
    by (rule findFileChecked_id [OF ok g])
  have free: "d ! (i * m_recordSize s) = kValueStateFree" if "i < ?R" for i
    using slot_stored [OF ok d(2) that] number_of_slot(1) [OF files_okD(2) [OF ok] d(3) that] empty by metis
  let ?i = "n mod ?R"
  have "after_scan s d key ?i (?R - ?i) cur =
      map_option (\<lambda>j. encodeKey (u_type s) (cur + (j - ?i))) (leading_scan d (m_recordSize s) ?i (?R - ?i))"
    using free by (intro after_scan_eq) simp
  moreover have "leading_scan d (m_recordSize s) ?i (?R - ?i) = None"
    using leading_scan_spec [where d = d and rs = "m_recordSize s" and i = ?i and n = "?R - ?i"] free
    by (cases "leading_scan d (m_recordSize s) ?i (?R - ?i)") auto
  ultimately show ?thesis using d(1) by (simp add: after_file_def Let_def)
qed

lemma findKeyAfter_ok:
  assumes ok: "files_ok s" and rg: "range_ok s" and k: "k < 2 ^ keyBits (u_type s)"
    and exit: "m_keyCompare s (encodeKey (u_type s) k) (u_maxKey s) = 0 \<Longrightarrow> \<forall>x \<in> dom (uli_abs s). x \<le> k"
    and wrap: "k mod m_numberOfRecordsPerFile s + 1 = m_numberOfRecordsPerFile s \<Longrightarrow>
      getFileIdForKey s k \<in> set (u_fileIds s) \<Longrightarrow> \<forall>x \<in> dom (uli_abs s). getFileIdForKey s x \<noteq> getFileIdForKey s k"
  shows "\<exists>r. findKeyAfter s (encodeKey (u_type s) k) = Inr (map_option (encodeKey (u_type s)) r) \<and>
    least_from (dom (uli_abs s)) (k + 1) r"
proof -
  let ?D = "dom (uli_abs s)" and ?key = "encodeKey (u_type s) k" and ?g = "getFileIdForKey s k"
  let ?R = "m_numberOfRecordsPerFile s"
  note bi = slot_split [OF ok, of k] and dk = decode_encodeKey [OF k] and order = file_order [OF files_okD(2) [OF ok]]
  have top: "m_keyCompare s ?key (u_maxPossibleKey s) = 0 \<longleftrightarrow> k = max_number s"
    using range_keys(2) [OF rg] cmp_encode(1) [OF k] max_number_bound [OF rg] by simp
  have kg: "k < ?g * ?R" using order(1) [of k ?g] by simp
  obtain r where r: "after_files s ?key (filter (\<lambda>f. ?g < f) (u_fileIds s)) =
      Inr (map_option (encodeKey (u_type s)) r)" "least_from ?D (?g * ?R) r"
    using after_files_ok [OF ok rg k, of "?g + 1"] kg by (auto simp: Suc_le_eq)
  have gap: "least_from ?D (k + 1) r" if "\<forall>x \<in> ?D. getFileIdForKey s x \<noteq> ?g"
  proof (rule least_from_skip [OF r(2)])
    show "k + 1 \<le> ?g * ?R" using kg by simp
    show "\<not> x < ?g * ?R" if "x \<in> ?D" "k + 1 \<le> x" for x
      using that \<open>\<forall>x \<in> ?D. getFileIdForKey s x \<noteq> ?g\<close> order(1) [of x ?g] order(3) [of k x] by fastforce
  qed
  show ?thesis
  proof (cases "(m_keyCompare s ?key (u_maxKey s) = 0 \<or> k = max_number s) \<or> getMaxAvailableFileId s < ?g")
    case True
    have "x \<le> k" if "x \<in> ?D" for x
      using True exit that files_okD(8) [OF ok that] available_range(2) [OF ok stored_file [OF ok that]]
        order(4) [of x k] by fastforce
    then have "least_from ?D (k + 1) None" by (simp add: least_from_def less_Suc_eq_le)
    then show ?thesis using True top dk by (intro exI [of _ None]) (auto simp: findKeyAfter_def Let_def)
  next
    case False
    consider (inner) "?g \<in> set (u_fileIds s)" "k mod ?R + 1 < ?R"
      | (last) "?g \<in> set (u_fileIds s)" "k mod ?R + 1 = ?R" | (missing) "?g \<notin> set (u_fileIds s)"
      using bi(2) by linarith
    then show ?thesis
    proof cases
      case inner
      from after_file_ok [OF ok rg inner(1) k inner(2) r(2)] obtain r' where
        "after_file s ?key ?g (k mod ?R + 1) (k + 1) = Inr (map_option (encodeKey (u_type s)) r')"
        "least_from ?D (k + 1) (if r' = None then r else r')" by blast
      then show ?thesis using False inner(1) top dk r(1)
        by (intro exI [of _ "if r' = None then r else r'"])
          (auto simp: findKeyAfter_def Let_def split: option.split)
    next
      case last
      note empty = wrap [OF last(2,1)]
      show ?thesis using False last(1) top dk r(1) gap [OF empty] after_file_empty [OF ok last(1) empty]
        by (intro exI [of _ r]) (simp add: findKeyAfter_def Let_def)
    next
      case missing
      then have "\<forall>x \<in> ?D. getFileIdForKey s x \<noteq> ?g" using stored_file [OF ok] by metis
      note r' = gap [OF this]
      have "u_fileIds s \<noteq> []" "?g \<le> last (u_fileIds s)"
        using False bi(3) by (auto simp: getMaxAvailableFileId_def split: if_splits)
      then have "last (u_fileIds s) \<in> set (filter (\<lambda>f. ?g < f) (u_fileIds s))"
        using missing last_in_set [of "u_fileIds s"] by (cases "last (u_fileIds s) = ?g") auto
      then have "filter (\<lambda>f. ?g < f) (u_fileIds s) \<noteq> []" by (metis empty_iff list.set(1))
      then show ?thesis using False missing top dk r(1) r'
        by (intro exI [of _ r]) (simp add: findKeyAfter_def Let_def)
    qed
  qed
qed

section \<open>Removal\<close>

lemma searches [simp]: "search_lesser s = findKeyBefore s" "search_greater s = findKeyAfter s"
  by (rule ext; simp add: search_lesser_def search_greater_def uli_findNextKey_def uli_findPreviousKey_def)+

lemma set_keys_params:
  "same_params s (set_minKey s a)" "u_data (set_minKey s a) = u_data s" "u_fileIds (set_minKey s a) = u_fileIds s"
  "same_params s (set_maxKey s a)" "u_data (set_maxKey s a) = u_data s" "u_fileIds (set_maxKey s a) = u_fileIds s"
  by (simp_all add: set_minKey_def set_maxKey_def order_numeric_def same_params_def)

lemma least_from_Min:
  assumes "least_from D lo r" and "finite D" and "D \<noteq> {}" and "\<And>x. x \<in> D \<Longrightarrow> lo \<le> x"
  shows "r = Some (Min D)"
proof (rule least_from_unique [OF assms(1)])
  show "least_from D lo (Some (Min D))" using assms(2-4) by (simp add: least_from_def)
qed

lemma greatest_below_Max:
  assumes "greatest_below D hi r" and "finite D" and "D \<noteq> {}" and "\<And>x. x \<in> D \<Longrightarrow> x < hi"
  shows "r = Some (Max D)"
proof (rule greatest_below_unique [OF assms(1)])
  show "greatest_below D hi (Some (Max D))" using assms(2-4) by (simp add: greatest_below_def)
qed

lemma set_keys_on:
  assumes "finite E" and "E \<noteq> {}" and "\<And>x. x \<in> E \<Longrightarrow> x < 2 ^ keyBits (u_type s)"
  shows "u_maxKey s = encodeKey (u_type s) (Max E) \<Longrightarrow> u_maxNumericKey s = Max E \<Longrightarrow>
      minmax_on (set_minKey s (encodeKey (u_type s) (Min E))) E"
    "u_minKey s = encodeKey (u_type s) (Min E) \<Longrightarrow> u_minNumericKey s = Min E \<Longrightarrow>
      minmax_on (set_maxKey s (encodeKey (u_type s) (Max E))) E"
proof -
  define a b where "a = Min E" and "b = Max E"
  have "a \<in> E" "b \<in> E" "a \<le> b" using assms(1,2) by (simp_all add: a_def b_def)
  then have dec: "decodeKey (u_type s) (encodeKey (u_type s) a) = a" "decodeKey (u_type s) (encodeKey (u_type s) b) = b"
    "\<not> b < a" using assms(3) by (simp_all add: decode_encodeKey)
  show "u_maxKey s = encodeKey (u_type s) (Max E) \<Longrightarrow> u_maxNumericKey s = Max E \<Longrightarrow>
      minmax_on (set_minKey s (encodeKey (u_type s) (Min E))) E"
    "u_minKey s = encodeKey (u_type s) (Min E) \<Longrightarrow> u_minNumericKey s = Min E \<Longrightarrow>
      minmax_on (set_maxKey s (encodeKey (u_type s) (Max E))) E"
    using dec assms(2) unfolding a_def [symmetric] b_def [symmetric] minmax_on_def
    by (simp_all add: set_minKey_def set_maxKey_def order_numeric_def)
qed

lemma remove_inner:
  fixes D :: "nat set"
  assumes "finite D" and "D \<noteq> {}"
  shows "k \<noteq> Max D \<Longrightarrow> Max (D - {k}) = Max D" "k \<noteq> Min D \<Longrightarrow> Min (D - {k}) = Min D"
proof -
  show "Max (D - {k}) = Max D" if "k \<noteq> Max D"
    using assms that Max_in [OF assms] Max_ge [OF assms(1)] by (intro Max_eqI) auto
  show "Min (D - {k}) = Min D" if "k \<noteq> Min D"
    using assms that Min_in [OF assms] Min_le [OF assms(1)] by (intro Min_eqI) auto
qed

lemma key_above_last_record:
  assumes ok: "files_ok s" and "k mod m_numberOfRecordsPerFile s + 1 = m_numberOfRecordsPerFile s" and "k < x"
  shows "getFileIdForKey s x \<noteq> getFileIdForKey s k"
proof -
  have "k + 1 = getFileIdForKey s k * m_numberOfRecordsPerFile s"
    using slot_split(1,3) [OF ok, of k] assms(2) by (cases "getFileIdForKey s k") auto
  then show ?thesis
    using assms(3) file_order(1) [OF files_okD(2) [OF ok], of x "getFileIdForKey s k"] by auto
qed

lemma remove_minmax:
  assumes ok: "files_ok s" and rg: "range_ok s" and mm: "minmax_on s D" and D: "finite D" "k \<in> D"
    and bound: "\<And>x. x \<in> D \<Longrightarrow> x \<le> max_number s" and dom: "dom (uli_abs s) = D - {k}"
    and files: "u_fileIds s \<noteq> []"
  shows "\<exists>s'. updateMinAndMaxKeysAfterRemoval s (encodeKey (u_type s) k) = Inr s' \<and> minmax_on s' (D - {k}) \<and>
    same_params s s' \<and> u_data s' = u_data s \<and> u_fileIds s' = u_fileIds s"
proof -
  let ?key = "encodeKey (u_type s) k" and ?E = "D - {k}"
  have M: "x < 2 ^ keyBits (u_type s)" if "x \<in> D" for x
    using bound [OF that] max_number_bound [OF rg] by simp
  have ne: "D \<noteq> {}" using D(2) by auto
  have ab: "Min D \<in> D" "Max D \<in> D" using D(1) ne by simp_all
  have keys: "u_minKey s = encodeKey (u_type s) (Min D)" "u_maxKey s = encodeKey (u_type s) (Max D)"
    "u_minNumericKey s = Min D" "u_maxNumericKey s = Max D"
    using mm ne by (auto simp: minmax_on_def)
  have cmp: "m_keyCompare s ?key (u_minKey s) = 0 \<longleftrightarrow> k = Min D" "m_keyCompare s ?key (u_maxKey s) = 0 \<longleftrightarrow> k = Max D"
    using M [OF ab(1)] M [OF ab(2)] M [OF D(2)] unfolding keys by (simp_all add: cmp_encode)
  have E: "finite ?E" "\<And>x. x \<in> ?E \<Longrightarrow> x < 2 ^ keyBits (u_type s)" using D(1) M by auto
  consider (both) "k = Min D" "k = Max D" | (min) "k = Min D" "k \<noteq> Max D" | (max) "k \<noteq> Min D" "k = Max D"
    | (inner) "k \<noteq> Min D" "k \<noteq> Max D" by blast
  then show ?thesis
  proof cases
    case both
    then have "?E = {}" using Min_le [OF D(1)] Max_ge [OF D(1)] by (metis Diff_eq_empty_iff insertI1 le_antisym subsetI)
    then show ?thesis using both cmp by (simp add: updateMinAndMaxKeysAfterRemoval_def minmax_on_def same_params_def)
  next
    case min
    have gr: "k + 1 \<le> x" if "x \<in> ?E" for x using Min_le [OF D(1), of x] that min(1) by auto
    have "?E \<noteq> {}" using ab(2) min(2) by auto
    note on = set_keys_on(1) [OF E(1) this E(2)] and least = least_from_Min [OF _ E(1) this gr]
    have "\<forall>x \<in> dom (uli_abs s). getFileIdForKey s x \<noteq> getFileIdForKey s k"
      if "k mod m_numberOfRecordsPerFile s + 1 = m_numberOfRecordsPerFile s"
      unfolding dom
    proof
      fix x
      assume "x \<in> ?E"
      then have "k < x" using gr by (simp add: Suc_le_eq)
      then show "getFileIdForKey s x \<noteq> getFileIdForKey s k" by (rule key_above_last_record [OF ok that])
    qed
    then obtain r where r: "findKeyAfter s ?key = Inr (map_option (encodeKey (u_type s)) r)" "least_from ?E (k + 1) r"
      using findKeyAfter_ok [OF ok rg M [OF D(2)]] cmp(2) min(2) dom by auto
    have "findKeyBefore s ?key = Inr None" using cmp(1) min(1) by (simp add: findKeyBefore_def)
    then show ?thesis using min cmp r(1) least [OF r(2)] on keys(2,4) remove_inner(1) [OF D(1) ne min(2)]
      by (intro exI [of _ "set_minKey s (encodeKey (u_type s) (Min ?E))"])
        (simp add: updateMinAndMaxKeysAfterRemoval_def set_keys_params)
  next
    case max
    have ls: "x < k" if "x \<in> ?E" for x using Max_ge [OF D(1), of x] that max(2) by auto
    have "?E \<noteq> {}" using ab(1) max(1) by auto
    note on = set_keys_on(2) [OF E(1) this E(2)] and greatest = greatest_below_Max [OF _ E(1) this ls]
    obtain r where r: "findKeyBefore s ?key = Inr (map_option (encodeKey (u_type s)) r)" "greatest_below ?E k r"
      using findKeyBefore_ok [OF ok rg files M [OF D(2)]] cmp(1) max(1) dom by auto
    then show ?thesis using max cmp greatest [OF r(2)] on keys(1,3) remove_inner(2) [OF D(1) ne max(1)]
      by (intro exI [of _ "set_maxKey s (encodeKey (u_type s) (Max ?E))"])
        (simp add: updateMinAndMaxKeysAfterRemoval_def set_keys_params)
  next
    case inner
    have "?E \<noteq> {}" using ab(1) inner(1) by auto
    then have "minmax_on s ?E"
      using keys remove_inner(1) [OF D(1) ne inner(2)] remove_inner(2) [OF D(1) ne inner(1)]
      unfolding minmax_on_def by (simp only: if_False simp_thms)
    then show ?thesis using inner cmp by (intro exI [of _ s]) (simp add: updateMinAndMaxKeysAfterRemoval_def)
  qed
qed

lemma erase_ok:
  assumes inv: "uli_inv s" and key: "key_ok s key"
  defines "k \<equiv> decodeKey (u_type s) key"
  obtains s' where "uli_erase s key = Inr (s', if k \<in> dom (uli_abs s) then 1 else 0)" "uli_inv s'"
    "same_params s s'" "uli_abs s' = (uli_abs s)(k := None)"
proof -
  note kD = key_okD [OF key, folded k_def]
  have ok: "files_ok s" and rg: "range_ok s" and mm: "minmax_on s (dom (uli_abs s))"
    using inv by (simp_all add: uli_inv_def)
  note ff = findFile_key [OF ok kD(3)]
  show ?thesis
  proof (cases "k \<in> dom (uli_abs s)")
    case True
    then obtain d where d: "u_data s (getFileIdForKey s k) = Some d"
      by (auto simp: uli_abs_def split: option.splits)
    note off = key_offset [OF ok d]
    let ?i = "k mod m_numberOfRecordsPerFile s"
    define d1 where "d1 = splice d (?i * m_recordSize s + 0) [kValueStateFree]"
    define s1 where "s1 = put_file s (getFileIdForKey s k) d1"
    have one: "0 + length [kValueStateFree] \<le> m_recordSize s" by (simp add: m_recordSize_def)
    have len: "?i * m_recordSize s + length [kValueStateFree] \<le> length d"
      using record_in_file [OF off(6,4)] one by linarith
    have rec: "record_of s d1 ?i = splice (record_of s d ?i) 0 [kValueStateFree]"
      "\<And>j. j \<noteq> ?i \<Longrightarrow> record_of s d1 j = record_of s d j"
      unfolding d1_def using record_splice_same [OF off(6,4) one] record_splice_other [OF off(6,4) one] by simp_all
    have upd: "FileData_update d (getRecordOffsetInMemory s k) [kValueStateFree] = Inr d1" "length d1 = length d"
      using len FileData_update_ok [of "?i * m_recordSize s" "[kValueStateFree]" d] off(1) by (simp_all add: d1_def)
    have le: "record_of s d1 ?i ! 0 \<le> kValueStateExists2"
      unfolding rec(1) by (simp add: splice_def kValueStateFree_def)
    have w: "files_ok s1" "uli_abs s1 = (uli_abs s)(k := None)"
      using write_record [OF ok d kD(2) upd(2) le] rec(2) rec_value_free unfolding s1_def rec(1) by auto
    have par: "same_params s s1" by (simp add: s1_def)
    note geo = same_params_geometry [OF par] same_params_fields [OF par]
    have "\<exists>s2. updateMinAndMaxKeysAfterRemoval s1 (encodeKey (u_type s1) k) = Inr s2 \<and>
        minmax_on s2 (dom (uli_abs s) - {k}) \<and> same_params s1 s2 \<and> u_data s2 = u_data s1 \<and> u_fileIds s2 = u_fileIds s1"
    proof (rule remove_minmax)
      show "u_fileIds s1 \<noteq> []" using stored_file [OF ok True] by (auto simp: s1_def)
      show "dom (uli_abs s1) = dom (uli_abs s) - {k}" using w(2) by simp
      show "minmax_on s1 (dom (uli_abs s))" using mm by (simp add: s1_def)
    qed (use w(1) rg geo files_okD(8,9) [OF ok] True in simp_all)
    then obtain s2 where s2: "updateMinAndMaxKeysAfterRemoval s1 key = Inr s2"
        "minmax_on s2 (dom (uli_abs s) - {k})" "same_params s1 s2" "u_data s2 = u_data s1" "u_fileIds s2 = u_fileIds s1"
      using kD(4) geo by auto
    have "uli_erase s key = Inr (s2, 1)"
      using ff d True off(1,2,7) upd(1) s2(1) by (auto simp: uli_erase_def Let_def s1_def simp flip: k_def)
    moreover have abs2: "uli_abs s2 = (uli_abs s)(k := None)" using same_params_abs [OF s2(3,4)] w(2) by simp
    moreover have "uli_inv s2"
      using s2(2) w(1) rg same_params_files_ok [OF s2(3,4,5)] same_params_geometry(10) [OF s2(3)] geo abs2
      by (simp add: uli_inv_def)
    ultimately show ?thesis using that True same_params_trans [OF par s2(3)] by simp
  next
    case False
    have "uli_erase s key = Inr (s, 0)"
    proof (cases "u_data s (getFileIdForKey s k)")
      case (Some d)
      then show ?thesis using ff False key_offset(1,2,7) [OF ok Some] by (auto simp: uli_erase_def simp flip: k_def)
    qed (use ff in \<open>simp add: uli_erase_def flip: k_def\<close>)
    moreover have "(uli_abs s)(k := None) = uli_abs s" using False by (simp add: domIff fun_upd_idem)
    ultimately show ?thesis using that False inv by simp
  qed
qed

end
