(* ===== verification/LinearIndexSpec.thy ===== *)
theory LinearIndexSpec
  imports LinearIndexOps
begin

text \<open>
  What the unique linear index promises: the contract of a unique index as a locale over the operations of
  \<open>Index\<close>, its interpretation on the linear index, and the properties of the index.
\<close>

section \<open>The contract of a unique index\<close>

text \<open>A sequence of modifications as clients of an index issue them, and the results they see.\<close>

datatype ('k, 'v) index_op = OpInsert 'k 'v | OpUpdate 'k 'v | OpErase 'k

datatype index_res = ResInserted bool | ResCount nat

fun index_step ::
    "('s \<Rightarrow> 'k \<Rightarrow> 'v \<Rightarrow> 'e + 's \<times> bool) \<Rightarrow> ('s \<Rightarrow> 'k \<Rightarrow> 'v \<Rightarrow> 'e + 's \<times> nat) \<Rightarrow> ('s \<Rightarrow> 'k \<Rightarrow> 'e + 's \<times> nat) \<Rightarrow>
     's \<Rightarrow> ('k, 'v) index_op \<Rightarrow> 'e + 's \<times> index_res" where
  "index_step ins upd del s (OpInsert k v) = map_sum id (map_prod id ResInserted) (ins s k v)"
| "index_step ins upd del s (OpUpdate k v) = map_sum id (map_prod id ResCount) (upd s k v)"
| "index_step ins upd del s (OpErase k) = map_sum id (map_prod id ResCount) (del s k)"

fun index_run ::
    "('s \<Rightarrow> ('k, 'v) index_op \<Rightarrow> 'e + 's \<times> index_res) \<Rightarrow> 's \<Rightarrow> ('k, 'v) index_op list \<Rightarrow> 'e + 's \<times> index_res list" where
  "index_run step s [] = Inr (s, [])"
| "index_run step s (op # ops) =
    (case step s op of
       Inl e \<Rightarrow> Inl e
     | Inr (s1, r) \<Rightarrow> (case index_run step s1 ops of Inl e \<Rightarrow> Inl e | Inr (s2, rs) \<Rightarrow> Inr (s2, r # rs)))"

text \<open>The same on maps.\<close>

fun map_step :: "('k \<rightharpoonup> 'v) \<Rightarrow> ('k, 'v) index_op \<Rightarrow> ('k \<rightharpoonup> 'v) \<times> index_res" where
  "map_step m (OpInsert k v) = (if k \<in> dom m then (m, ResInserted False) else (m(k \<mapsto> v), ResInserted True))"
| "map_step m (OpUpdate k v) = (if k \<in> dom m then (m(k \<mapsto> v), ResCount 1) else (m, ResCount 0))"
| "map_step m (OpErase k) = (m(k := None), ResCount (if k \<in> dom m then 1 else 0))"

fun map_run :: "('k \<rightharpoonup> 'v) \<Rightarrow> ('k, 'v) index_op list \<Rightarrow> ('k \<rightharpoonup> 'v) \<times> index_res list" where
  "map_run m [] = (m, [])"
| "map_run m (op # ops) = (let (m1, r) = map_step m op; (m2, rs) = map_run m1 ops in (m2, r # rs))"

fun op_ok :: "('k \<Rightarrow> bool) \<Rightarrow> ('v \<Rightarrow> bool) \<Rightarrow> ('k, 'v) index_op \<Rightarrow> bool" where
  "op_ok kok vok (OpInsert k v) = (kok k \<and> vok v)"
| "op_ok kok vok (OpUpdate k v) = (kok k \<and> vok v)"
| "op_ok kok vok (OpErase k) = kok k"

locale unique_index =
  fixes ins :: "'s \<Rightarrow> 'k \<Rightarrow> 'v \<Rightarrow> 'e + 's \<times> bool"
    and upd :: "'s \<Rightarrow> 'k \<Rightarrow> 'v \<Rightarrow> 'e + 's \<times> nat"
    and del :: "'s \<Rightarrow> 'k \<Rightarrow> 'e + 's \<times> nat"
    and look :: "'s \<Rightarrow> 'k \<Rightarrow> 'e + 'v option"
    and invar :: "'s \<Rightarrow> bool"
    and abs :: "'s \<Rightarrow> 'k \<rightharpoonup> 'v"
    and kok :: "'s \<Rightarrow> 'k \<Rightarrow> bool"
    and vok :: "'s \<Rightarrow> 'v \<Rightarrow> bool"
    and ext :: "'s \<Rightarrow> 's \<Rightarrow> bool"
  assumes ext_refl: "ext s s"
    and ext_trans: "ext s s1 \<Longrightarrow> ext s1 s2 \<Longrightarrow> ext s s2"
    and ext_ok: "ext s s1 \<Longrightarrow> kok s1 = kok s \<and> vok s1 = vok s"
    and step_law: "invar s \<Longrightarrow> op_ok (kok s) (vok s) op \<Longrightarrow>
      \<exists>s1. index_step ins upd del s op = Inr (s1, snd (map_step (abs s) op)) \<and> invar s1 \<and> ext s s1 \<and>
        abs s1 = fst (map_step (abs s) op)"
    and look_law: "invar s \<Longrightarrow> kok s k \<Longrightarrow> look s k = Inr (abs s k)"
begin

lemma run_refines:
  "invar s \<Longrightarrow> list_all (op_ok (kok s) (vok s)) ops \<Longrightarrow>
    \<exists>s1. index_run (index_step ins upd del) s ops = Inr (s1, snd (map_run (abs s) ops)) \<and> invar s1 \<and> ext s s1 \<and>
      abs s1 = fst (map_run (abs s) ops)"
proof (induction ops arbitrary: s)
  case Nil
  then show ?case by (simp add: ext_refl)
next
  case (Cons op ops)
  from step_law [OF Cons.prems(1), of op] Cons.prems(2) obtain s1 where s1:
    "index_step ins upd del s op = Inr (s1, snd (map_step (abs s) op))" "invar s1" "ext s s1"
    "abs s1 = fst (map_step (abs s) op)" by auto
  have "list_all (op_ok (kok s1) (vok s1)) ops" using Cons.prems(2) ext_ok [OF s1(3)] by simp
  from Cons.IH [OF s1(2) this] obtain s2 where s2:
    "index_run (index_step ins upd del) s1 ops = Inr (s2, snd (map_run (abs s1) ops))" "invar s2" "ext s1 s2"
    "abs s2 = fst (map_run (abs s1) ops)" by auto
  then show ?case
    using s1 ext_trans [OF s1(3) s2(3)] by (simp add: split_def Let_def)
qed

lemma look_after_run:
  assumes "invar s" and "list_all (op_ok (kok s) (vok s)) ops" and "kok s k"
  shows "\<exists>s1. index_run (index_step ins upd del) s ops = Inr (s1, snd (map_run (abs s) ops)) \<and>
    look s1 k = Inr (fst (map_run (abs s) ops) k)"
proof -
  from run_refines [OF assms(1,2)] obtain s1 where s1:
    "index_run (index_step ins upd del) s ops = Inr (s1, snd (map_run (abs s) ops))" "invar s1" "ext s s1"
    "abs s1 = fst (map_run (abs s) ops)" by blast
  then show ?thesis using look_law [OF s1(2), of k] ext_ok [OF s1(3)] assms(3) by simp
qed

end

section \<open>The linear index keeps the contract\<close>

text \<open>The represented map over keys as byte strings.\<close>

definition uli_map :: "ULI \<Rightarrow> bytes \<rightharpoonup> bytes" where
  "uli_map s key = (if length key = getKeySize (u_type s) then uli_abs s (decodeKey (u_type s) key) else None)"

definition value_ok :: "ULI \<Rightarrow> bytes \<Rightarrow> bool" where
  "value_ok s v \<longleftrightarrow> length v = u_valueSize s"

lemma uli_map_upd:
  assumes "length key = getKeySize (u_type s)" and "u_type s' = u_type s"
    and "uli_abs s' = (uli_abs s)(decodeKey (u_type s) key := y)"
  shows "uli_map s' = (uli_map s)(key := y)"
  using assms decodeKey_inj [of _ "u_type s" key] by (auto simp: uli_map_def fun_eq_iff)

lemma uli_map_same: "same_params s s' \<Longrightarrow> uli_abs s' = uli_abs s \<Longrightarrow> uli_map s' = uli_map s"
  by (simp add: uli_map_def fun_eq_iff same_params_fields)

lemma uli_map_dom: "key_ok s key \<Longrightarrow> key \<in> dom (uli_map s) \<longleftrightarrow> decodeKey (u_type s) key \<in> dom (uli_abs s)"
  by (simp add: uli_map_def key_ok_def dom_def)

lemma uli_step_law:
  assumes "uli_inv s" and "op_ok (key_ok s) (value_ok s) op"
  shows "\<exists>s1. index_step uli_insert uli_update uli_erase s op = Inr (s1, snd (map_step (uli_map s) op)) \<and>
    uli_inv s1 \<and> same_params s s1 \<and> uli_map s1 = fst (map_step (uli_map s) op)"
proof (cases op)
  case (OpInsert key v)
  then have key: "key_ok s key" "length v = u_valueSize s" using assms(2) by (simp_all add: value_ok_def)
  from insert_ok [OF assms(1) key] obtain s1 where s1:
    "uli_insert s key v = Inr (s1, decodeKey (u_type s) key \<notin> dom (uli_abs s))" "uli_inv s1" "same_params s s1"
    "uli_abs s1 = (if decodeKey (u_type s) key \<in> dom (uli_abs s) then uli_abs s
      else (uli_abs s)(decodeKey (u_type s) key \<mapsto> v))" by metis
  show ?thesis
    using s1 OpInsert uli_map_dom [OF key(1)] uli_map_same [OF s1(3)]
      uli_map_upd [OF key_okD(1) [OF key(1)] same_params_fields(1) [OF s1(3)], of "Some v"]
    by (cases "key \<in> dom (uli_map s)") auto
next
  case (OpUpdate key v)
  then have key: "key_ok s key" "length v = u_valueSize s" using assms(2) by (simp_all add: value_ok_def)
  from update_ok [OF assms(1) key] obtain s1 where s1:
    "uli_update s key v = Inr (s1, if decodeKey (u_type s) key \<in> dom (uli_abs s) then 1 else 0)" "uli_inv s1"
    "same_params s s1" "uli_abs s1 = (if decodeKey (u_type s) key \<in> dom (uli_abs s)
      then (uli_abs s)(decodeKey (u_type s) key \<mapsto> v) else uli_abs s)" by metis
  show ?thesis
    using s1 OpUpdate uli_map_dom [OF key(1)] uli_map_same [OF s1(3)]
      uli_map_upd [OF key_okD(1) [OF key(1)] same_params_fields(1) [OF s1(3)], of "Some v"]
    by (cases "key \<in> dom (uli_map s)") auto
next
  case (OpErase key)
  then have key: "key_ok s key" using assms(2) by simp
  from erase_ok [OF assms(1) key] obtain s1 where s1:
    "uli_erase s key = Inr (s1, if decodeKey (u_type s) key \<in> dom (uli_abs s) then 1 else 0)" "uli_inv s1"
    "same_params s s1" "uli_abs s1 = (uli_abs s)(decodeKey (u_type s) key := None)" by metis
  show ?thesis
    using s1 OpErase uli_map_dom [OF key]
      uli_map_upd [OF key_okD(1) [OF key] same_params_fields(1) [OF s1(3)], of None]
    by auto
qed

interpretation uli: unique_index uli_insert uli_update uli_erase uli_find uli_inv uli_map key_ok value_ok same_params
proof unfold_locales
  show "same_params s s1 \<Longrightarrow> same_params s1 s2 \<Longrightarrow> same_params s s2" for s s1 s2 by (rule same_params_trans)
  show "same_params s s1 \<Longrightarrow> key_ok s1 = key_ok s \<and> value_ok s1 = value_ok s" for s s1
    by (simp add: same_params_geometry same_params_fields value_ok_def fun_eq_iff)
  show "uli_inv s \<Longrightarrow> key_ok s key \<Longrightarrow> uli_find s key = Inr (uli_map s key)" for s key
    using find_abs(1) [of s key] key_okD [of s key] by (simp add: uli_inv_def uli_map_def)
qed (simp_all add: uli_step_law)

section \<open>Construction\<close>

lemma odd_encode_pos:
  assumes "2 \<le> w" and "n < 2 ^ w" and "odd n"
  shows "0 < encodeSignedInt w n"
proof -
  obtain m where m: "w = Suc (Suc m)" using assms(1) by (metis add_2_eq_Suc le_Suc_ex)
  have "odd (n + 2 ^ (w - 1))" using assms(3) m by simp
  then have "odd ((n + 2 ^ (w - 1)) mod 2 ^ w)" using m by (simp add: dvd_mod_iff)
  then show ?thesis unfolding encodeSignedInt_def by (rule odd_pos)
qed

lemma traits_max_bytes: "length k = getKeySize t \<Longrightarrow> traits_getMaxKey t k ! 0 = 0x7F \<or> traits_getMaxKey t k ! 0 = 0xFF"
  by (cases t) (simp_all add: traits_key_defs getKeySize_def)

lemma length_traits_keys [simp]:
  "length (traits_getMinKey t k) = length k" "length (traits_getMaxKey t k) = length k"
  by (cases t; simp add: traits_key_defs)+

lemma traits_range:
  assumes "length k = getKeySize t" and "t \<noteq> UInt8Key"
  shows "decodeKey t (traits_getMinKey t k) = 0" "0 < decodeKey t (traits_getMaxKey t k)"
proof -
  show "decodeKey t (traits_getMinKey t k) = 0" by (rule traits_min_zero [OF assms])
next
  let ?m = "traits_getMaxKey t k"
  have len: "length ?m = getKeySize t" using assms(1) by simp
  have "0 < getKeySize t" by (cases t) (simp_all add: getKeySize_def)
  then obtain b bs where m: "?m = b # bs" using len by (metis length_greater_0_conv neq_Nil_conv)
  then have "b = 0x7F \<or> b = 0xFF" using traits_max_bytes [OF assms(1)] by simp
  then have "odd (unat b)" by auto
  then have o: "odd (le_nat ?m)" unfolding m by simp
  have "2 \<le> keyBits t" by (cases t) (simp_all add: keyBits_def getKeySize_def)
  then show "0 < decodeKey t ?m"
    using odd_encode_pos [OF _ key_bound [OF len] o] odd_pos [OF o] by (simp add: decodeKey_def)
qed

text \<open>The arguments with which an index is created: a file size within the limits and room for a record.\<close>

definition new_args_ok :: "KeyType \<Rightarrow> nat \<Rightarrow> nat \<Rightarrow> bytes \<Rightarrow> bool" where
  "new_args_ok t valueSize dataFileSize buf \<longleftrightarrow>
    t \<noteq> UInt8Key \<and> length buf = getKeySize t \<and> 0 < valueSize \<and>
    kMinDataFileSize \<le> dataFileSize \<and> dataFileSize \<le> kMaxDataFileSize \<and>
    valueSize * 2 + 1 \<le> dataFileSize - kIndexFileHeaderSize"

lemma new_ok:
  assumes "new_args_ok t valueSize dataFileSize buf"
  obtains s where "uli_new t desc valueSize dataFileSize buf = Inr s" "uli_inv s" "uli_abs s = Map.empty"
    "u_type s = t" "u_sortDescending s = desc" "u_valueSize s = valueSize" "u_dataFileSize s = dataFileSize"
    "u_minPossibleKey s = traits_getMinKey t buf" "u_maxPossibleKey s = traits_getMaxKey t buf" "u_fileIds s = []"
    "u_data s = Map.empty"
proof -
  note a = assms [unfolded new_args_ok_def]
  define s where "s = \<lparr>u_type = t, u_sortDescending = desc, u_valueSize = valueSize, u_dataFileSize = dataFileSize,
    u_minPossibleKey = traits_getMinKey t buf, u_maxPossibleKey = traits_getMaxKey t buf,
    u_fileIds = [], u_data = Map.empty, u_minKey = traits_getMaxKey t buf, u_maxKey = traits_getMinKey t buf,
    u_minNumericKey = 0, u_maxNumericKey = 0\<rparr>"
  have new: "uli_new t desc valueSize dataFileSize buf = Inr s"
    using a by (simp add: uli_new_def validateIndexFileSize_def s_def)
  have abs: "uli_abs s = Map.empty" by (rule ext) (simp add: uli_abs_def s_def)
  have "0 < m_numberOfRecordsPerFile s"
    using a by (simp add: m_numberOfRecordsPerFile_def m_recordSize_def s_def div_greater_zero_iff)
  then have "files_ok s" using a by (simp add: files_ok_def abs) (simp add: s_def)
  moreover have "range_ok s"
    using a traits_range [of buf t] by (simp add: range_ok_def max_number_def s_def)
  moreover have "minmax_on s {}" by (simp add: minmax_on_def s_def)
  ultimately have "uli_inv s" by (simp add: uli_inv_def abs)
  then show ?thesis using that [OF new] abs by (simp add: s_def)
qed

lemma preallocate_ok:
  assumes "uli_inv s" and "key_ok s key"
  obtains s' b where "preallocate s key = Inr (s', b)" "uli_inv s'" "same_params s s'" "uli_abs s' = uli_abs s"
    "getFileIdForKey s (decodeKey (u_type s) key) \<in> set (u_fileIds s')"
proof -
  let ?f = "getFileIdForKey s (decodeKey (u_type s) key)"
  have ok: "files_ok s" using assms(1) by (simp add: uli_inv_def)
  note f = key_okD(3) [OF assms(2)] and ff = findFile_key [OF ok key_okD(3) [OF assms(2)]]
  show ?thesis
  proof (cases "u_data s ?f")
    case None
    have "1 \<le> ?f" by (simp add: getFileIdForKey_def)
    note m = makeFile_ok [OF ok this f None]
    have "?f \<in> set (u_fileIds (fst (makeFile s ?f)))" using m(4) files_okD(4) [OF m(1)] by auto
    moreover have "uli_inv (fst (makeFile s ?f))"
      using assms(1) m(1,2,5) same_params_geometry(10) [OF m(3)] by (simp add: uli_inv_def)
    ultimately show ?thesis using that ff None m(2,3) by (simp add: preallocate_def Let_def)
  next
    case (Some d)
    then have "?f \<in> set (u_fileIds s)" using files_okD(4) [OF ok] by auto
    then show ?thesis using that [of s False] ff Some assms(1) by (simp add: preallocate_def Let_def)
  qed
qed

lemma stored_below_top:
  assumes "files_ok s" and "x \<in> dom (uli_abs s)"
  shows "x < computeMaxPossibleFileId s * m_numberOfRecordsPerFile s"
  using file_order(1) [OF files_okD(2) [OF assms(1)], of x] files_okD(6) [OF assms(1) stored_file [OF assms]] by simp

lemma leading_trailing:
  assumes "files_ok s"
  shows "findLeadingKey s = Inr (if dom (uli_abs s) = {} then None else Some (encodeKey (u_type s) (Min (dom (uli_abs s)))))"
    "findTrailingKey s = Inr (if dom (uli_abs s) = {} then None else Some (encodeKey (u_type s) (Max (dom (uli_abs s)))))"
proof -
  let ?D = "dom (uli_abs s)"
  note fin = files_okD(9) [OF assms]
  obtain r where r: "findLeadingKey s = Inr (map_option (encodeKey (u_type s)) r)" "least_from ?D 0 r"
    using leading_ok [OF assms] by blast
  have "r = (if ?D = {} then None else Some (Min ?D))"
    using r(2) least_from_Min [OF r(2) fin] least_from_unique [OF r(2), of None] by (auto simp: least_from_def)
  then show "findLeadingKey s = Inr (if ?D = {} then None else Some (encodeKey (u_type s) (Min ?D)))"
    using r(1) by simp
  obtain q where q: "findTrailingKey s = Inr (map_option (encodeKey (u_type s)) q)"
      "greatest_below ?D (computeMaxPossibleFileId s * m_numberOfRecordsPerFile s) q"
    using trailing_ok [OF assms] by blast
  have "q = (if ?D = {} then None else Some (Max ?D))"
    using q(2) greatest_below_Max [OF q(2) fin] stored_below_top [OF assms] greatest_below_unique [OF q(2), of None]
    by (auto simp: greatest_below_def)
  then show "findTrailingKey s = Inr (if ?D = {} then None else Some (encodeKey (u_type s) (Max ?D)))"
    using q(1) by simp
qed

lemma min_max_compare:
  assumes "uli_inv s"
  shows "m_keyCompare s (u_minKey s) (u_maxKey s) > 0 \<longleftrightarrow> dom (uli_abs s) = {}"
proof -
  have ok: "files_ok s" and rg: "range_ok s" and mm: "minmax_on s (dom (uli_abs s))"
    using assms by (simp_all add: uli_inv_def)
  note M = max_number_bound [OF rg]
  show ?thesis
  proof (cases "dom (uli_abs s) = {}")
    case True
    then have "u_minKey s = encodeKey (u_type s) (max_number s)" "u_maxKey s = encodeKey (u_type s) 0"
      using mm range_keys [OF rg] by (simp_all add: minmax_on_def)
    then show ?thesis using True M rg cmp_encode(3) [of "max_number s" s 0] by (simp add: range_ok_def)
  next
    case False
    define a b where "a = Min (dom (uli_abs s))" and "b = Max (dom (uli_abs s))"
    have "a \<in> dom (uli_abs s)" "b \<in> dom (uli_abs s)" "a \<le> b"
      using False files_okD(9) [OF ok] by (simp_all add: a_def b_def)
    then have "a < 2 ^ keyBits (u_type s)" "b < 2 ^ keyBits (u_type s)" "a \<le> b"
      using files_okD(8) [OF ok] M by (meson le_less_trans)+
    moreover have "u_minKey s = encodeKey (u_type s) a" "u_maxKey s = encodeKey (u_type s) b"
      using mm False by (simp_all add: minmax_on_def a_def b_def)
    ultimately show ?thesis using False by (simp add: cmp_encode)
  qed
qed

lemma new_params:
  assumes "new_args_ok (u_type s) (u_valueSize s) (u_dataFileSize s) buf"
    and "u_minPossibleKey s = traits_getMinKey (u_type s) buf" and "u_maxPossibleKey s = traits_getMaxKey (u_type s) buf"
  shows "uli_new (u_type s) (u_sortDescending s) (u_valueSize s) (u_dataFileSize s) buf =
    Inr (s\<lparr>u_fileIds := [], u_data := Map.empty, u_minKey := u_maxPossibleKey s, u_maxKey := u_minPossibleKey s,
      u_minNumericKey := 0, u_maxNumericKey := 0\<rparr>)"
  using assms by (cases s) (simp add: uli_new_def validateIndexFileSize_def new_args_ok_def)

lemma at_extreme_key:
  assumes "uli_inv s" and "k < 2 ^ keyBits (u_type s)"
  shows "m_keyCompare s (encodeKey (u_type s) k) (u_minKey s) = 0 \<Longrightarrow> \<forall>x \<in> dom (uli_abs s). k \<le> x"
    "m_keyCompare s (encodeKey (u_type s) k) (u_maxKey s) = 0 \<Longrightarrow> \<forall>x \<in> dom (uli_abs s). x \<le> k"
proof -
  have ok: "files_ok s" and rg: "range_ok s" and mm: "minmax_on s (dom (uli_abs s))"
    using assms(1) by (simp_all add: uli_inv_def)
  define D where "D = dom (uli_abs s)"
  have bound: "x < 2 ^ keyBits (u_type s)" if "x \<in> D" for x
    using that files_okD(8) [OF ok] max_number_bound [OF rg] unfolding D_def by (meson le_less_trans)
  have fin: "finite D" using files_okD(9) [OF ok] by (simp add: D_def)
  have mem: "Min D < 2 ^ keyBits (u_type s)" "Max D < 2 ^ keyBits (u_type s)" if "D \<noteq> {}"
    using bound [OF Min_in [OF fin that]] bound [OF Max_in [OF fin that]] .
  show "\<forall>x \<in> dom (uli_abs s). k \<le> x" if c: "m_keyCompare s (encodeKey (u_type s) k) (u_minKey s) = 0"
    unfolding D_def [symmetric]
  proof
    fix x
    assume x: "x \<in> D"
    then have ne: "D \<noteq> {}" by auto
    then have key: "u_minKey s = encodeKey (u_type s) (Min D)" using mm by (simp add: minmax_on_def flip: D_def)
    show "k \<le> x"
      using Min_le [OF fin x] key c cmp_encode(1) [OF assms(2) mem(1) [OF ne]] by simp
  qed
  show "\<forall>x \<in> dom (uli_abs s). x \<le> k" if c: "m_keyCompare s (encodeKey (u_type s) k) (u_maxKey s) = 0"
    unfolding D_def [symmetric]
  proof
    fix x
    assume x: "x \<in> D"
    then have ne: "D \<noteq> {}" by auto
    then have key: "u_maxKey s = encodeKey (u_type s) (Max D)" using mm by (simp add: minmax_on_def flip: D_def)
    show "x \<le> k"
      using Max_ge [OF fin x] key c cmp_encode(1) [OF assms(2) mem(2) [OF ne]] by simp
  qed
qed

section \<open>An index to exercise the properties on\<close>

lemma sample_index:
  obtains s where "uli_new UInt32Key False 8 5120 [0, 0, 0, 0] = Inr s" "uli_inv s" "uli_abs s = Map.empty"
    "u_type s = UInt32Key" "u_valueSize s = 8" "m_numberOfRecordsPerFile s = 240" "u_fileIds s = []"
    "max_number s = 4294967295" "\<forall>key. length key = 4 \<longrightarrow> key_ok s key" "uli_map s = Map.empty"
    "u_sortDescending s = False" "u_dataFileSize s = 5120"
    "u_minPossibleKey s = traits_getMinKey UInt32Key [0, 0, 0, 0]"
    "u_maxPossibleKey s = traits_getMaxKey UInt32Key [0, 0, 0, 0]"
proof -
  have "new_args_ok UInt32Key 8 5120 [0, 0, 0, 0]"
    by (simp add: new_args_ok_def getKeySize_def kMinDataFileSize_def kMaxDataFileSize_def kIndexFileHeaderSize_def)
  then obtain s where s:
    "uli_new UInt32Key False 8 5120 [0, 0, 0, 0] = Inr s" "uli_inv s" "uli_abs s = Map.empty" "u_type s = UInt32Key"
    "u_valueSize s = 8" "u_dataFileSize s = 5120" "u_maxPossibleKey s = traits_getMaxKey UInt32Key [0, 0, 0, 0]"
    "u_fileIds s = []" "u_sortDescending s = False" "u_minPossibleKey s = traits_getMinKey UInt32Key [0, 0, 0, 0]"
    by (rule new_ok)
  have R: "m_numberOfRecordsPerFile s = 240"
    by (simp add: m_numberOfRecordsPerFile_def m_recordSize_def s kIndexFileHeaderSize_def)
  have M: "max_number s = 4294967295" by (simp add: max_number_def s key_traits_simps)
  have F: "computeMaxPossibleFileId s = 17895698"
    using M by (simp add: computeMaxPossibleFileId_def R max_number_def)
  have "key_ok s key" if "length key = 4" for key
  proof -
    have len: "length key = getKeySize (u_type s)" using that s by (simp add: getKeySize_def)
    have le: "decodeKey (u_type s) key \<le> 4294967295"
      using decodeKey_bound [OF len] by (simp add: s(4) keyBits_def getKeySize_def)
    have "decodeKey (u_type s) key div 240 \<le> 4294967295 div 240" by (rule div_le_mono [OF le])
    then have "getFileIdForKey s (decodeKey (u_type s) key) \<le> 17895698"
      unfolding getFileIdForKey_def R by simp
    then show ?thesis using len le by (simp add: key_ok_def M F)
  qed
  then show ?thesis using that [OF s(1-5) R s(8) M] s(3,6,7,9,10) by (simp add: uli_map_def fun_eq_iff)
qed

definition sample_ops :: "(bytes, bytes) index_op list" where
  "sample_ops = [OpInsert [0, 0, 0, 0] [1, 0, 0, 0, 0, 0, 0, 0], OpInsert [239, 0, 0, 0] [2, 0, 0, 0, 0, 0, 0, 0],
    OpInsert [245, 0, 0, 0] [3, 0, 0, 0, 0, 0, 0, 0]]"

lemma sample_populated:
  obtains s s1 where "uli_new UInt32Key False 8 5120 [0, 0, 0, 0] = Inr s"
    "index_run (index_step uli_insert uli_update uli_erase) s sample_ops =
      Inr (s1, [ResInserted True, ResInserted True, ResInserted True])"
    "uli_inv s1" "dom (uli_abs s1) = {0, 239, 245}" "u_type s1 = UInt32Key" "m_numberOfRecordsPerFile s1 = 240"
    "max_number s1 = 4294967295"
proof -
  obtain s where s: "uli_new UInt32Key False 8 5120 [0, 0, 0, 0] = Inr s" "uli_inv s" "uli_map s = Map.empty"
      "\<forall>key. length key = 4 \<longrightarrow> key_ok s key" "u_valueSize s = 8" "u_type s = UInt32Key"
      "m_numberOfRecordsPerFile s = 240" "max_number s = 4294967295" by (rule sample_index)
  have ops: "list_all (op_ok (key_ok s) (value_ok s)) sample_ops" by (simp add: sample_ops_def s value_ok_def)
  from uli.run_refines [OF s(2) ops] obtain s1 where s1:
    "index_run (index_step uli_insert uli_update uli_erase) s sample_ops =
      Inr (s1, [ResInserted True, ResInserted True, ResInserted True])" "uli_inv s1" "same_params s s1"
    "uli_map s1 = [[0, 0, 0, 0] \<mapsto> [1, 0, 0, 0, 0, 0, 0, 0], [239, 0, 0, 0] \<mapsto> [2, 0, 0, 0, 0, 0, 0, 0],
      [245, 0, 0, 0] \<mapsto> [3, 0, 0, 0, 0, 0, 0, 0]]"
    by (auto simp: sample_ops_def s(3))
  note par = same_params_fields(1) [OF s1(3)] same_params_geometry(2,6) [OF s1(3)]
  have "x \<in> dom (uli_abs s1) \<longleftrightarrow> x \<in> {0, 239, 245}" for x
  proof
    assume x: "x \<in> dom (uli_abs s1)"
    have "x \<le> 4294967295" using s1(2) files_okD(8) [OF _ x] par s(8) by (simp add: uli_inv_def)
    then have x32: "x < 2 ^ keyBits UInt32Key" by (simp add: keyBits_def getKeySize_def)
    have "encodeKey UInt32Key x \<in> dom (uli_map s1)"
      using x decode_encodeKey [OF x32] par s(6) by (auto simp: uli_map_def dom_def)
    then have "encodeKey UInt32Key x \<in> {[0, 0, 0, 0], [239, 0, 0, 0], [245, 0, 0, 0]}" using s1(4) by auto
    then have "decodeKey UInt32Key (encodeKey UInt32Key x) \<in> {0, 239, 245}"
      by (auto simp: decodeKey_def isSignedKey_def)
    then show "x \<in> {0, 239, 245}" using decode_encodeKey [OF x32] by simp
  next
    assume "x \<in> {0, 239, 245}"
    moreover have "uli_map s1 [0, 0, 0, 0] = uli_abs s1 0" "uli_map s1 [239, 0, 0, 0] = uli_abs s1 239"
      "uli_map s1 [245, 0, 0, 0] = uli_abs s1 245"
      using par s(6) by (simp_all add: uli_map_def getKeySize_def decodeKey_def isSignedKey_def)
    moreover have "uli_map s1 [0, 0, 0, 0] \<noteq> None" "uli_map s1 [239, 0, 0, 0] \<noteq> None"
      "uli_map s1 [245, 0, 0, 0] \<noteq> None" using s1(4) by simp_all
    ultimately show "x \<in> dom (uli_abs s1)" by auto
  qed
  then have "dom (uli_abs s1) = {0, 239, 245}" by blast
  then show ?thesis using that s(1) s1(1,2) par s(6-8) by simp
qed

section \<open>Properties\<close>







text \<open>The cached extreme keys are the least and the greatest stored key and are absent exactly when the
  index is empty; the scans for the first and last key find the same keys, exchanged for descending order.\<close>

theorem linear_index_extremes:
  assumes "uli_inv s"
  defines "lo \<equiv> (if dom (uli_abs s) = {} then None else Some (encodeKey (u_type s) (Min (dom (uli_abs s)))))"
    and "hi \<equiv> (if dom (uli_abs s) = {} then None else Some (encodeKey (u_type s) (Max (dom (uli_abs s)))))"
  shows "uli_getMinKey s = lo \<and> uli_getMaxKey s = hi \<and>
    uli_findFirstKey s = Inr (if u_sortDescending s then hi else lo) \<and>
    uli_findLastKey s = Inr (if u_sortDescending s then lo else hi)"
proof -
  have ok: "files_ok s" and mm: "minmax_on s (dom (uli_abs s))" using assms(1) by (simp_all add: uli_inv_def)
  show ?thesis
    using min_max_compare [OF assms(1)] leading_trailing [OF ok] mm
    by (simp add: lo_def hi_def uli_getMinKey_def uli_getMaxKey_def uli_findFirstKey_def uli_findLastKey_def minmax_on_def)
qed

theorem linear_index_extremes_witness:
  "\<exists>s. uli_new UInt32Key False 8 5120 [0, 0, 0, 0] = Inr s \<and> uli_getMinKey s = None \<and> uli_findLastKey s = Inr None"
proof -
  obtain s where s: "uli_new UInt32Key False 8 5120 [0, 0, 0, 0] = Inr s" "uli_inv s" "uli_abs s = Map.empty"
    by (rule sample_index)
  then show ?thesis using linear_index_extremes [OF s(2)] by simp
qed



text \<open>C23: The search for the key after a key returns the least stored key above it, provided that the key's
  record is not the last one of an existing file.\<close>

theorem find_key_after_least:
  assumes "uli_inv s" and "length key = getKeySize (u_type s)"
    and "getFileIdForKey s (decodeKey (u_type s) key) \<in> set (u_fileIds s) \<Longrightarrow>
      decodeKey (u_type s) key mod m_numberOfRecordsPerFile s + 1 \<noteq> m_numberOfRecordsPerFile s"
  shows "\<exists>r. findKeyAfter s key = Inr (map_option (encodeKey (u_type s)) r) \<and>
    least_from (dom (uli_abs s)) (decodeKey (u_type s) key + 1) r"
proof -
  let ?k = "decodeKey (u_type s) key"
  have ok: "files_ok s" and rg: "range_ok s" using assms(1) by (simp_all add: uli_inv_def)
  have k: "encodeKey (u_type s) ?k = key" "?k < 2 ^ keyBits (u_type s)"
    using assms(2) by (simp_all add: encode_decodeKey decodeKey_bound)
  show ?thesis
    using findKeyAfter_ok [OF ok rg k(2) at_extreme_key(2) [OF assms(1) k(2)]] assms(3) by (simp add: k(1))
qed

theorem find_key_after_least_witness:
  "\<exists>s s1. uli_new UInt32Key False 8 5120 [0, 0, 0, 0] = Inr s \<and>
    index_run (index_step uli_insert uli_update uli_erase) s sample_ops =
      Inr (s1, [ResInserted True, ResInserted True, ResInserted True]) \<and>
    findKeyAfter s1 [0, 0, 0, 0] = Inr (Some (encodeKey UInt32Key 239))"
proof -
  obtain s s1 where s: "uli_new UInt32Key False 8 5120 [0, 0, 0, 0] = Inr s"
    "index_run (index_step uli_insert uli_update uli_erase) s sample_ops =
      Inr (s1, [ResInserted True, ResInserted True, ResInserted True])"
    "uli_inv s1" "dom (uli_abs s1) = {0, 239, 245}" "u_type s1 = UInt32Key" "m_numberOfRecordsPerFile s1 = 240"
    by (rule sample_populated)
  have k: "decodeKey UInt32Key [0, 0, 0, 0] = 0" by (simp add: decodeKey_def isSignedKey_def)
  obtain r where r: "findKeyAfter s1 [0, 0, 0, 0] = Inr (map_option (encodeKey UInt32Key) r)"
      "least_from {0, 239, 245} 1 r"
    using find_key_after_least [OF s(3), of "[0, 0, 0, 0]"] s(4-6) k by (auto simp: getKeySize_def)
  then have "r = Some 239" by (intro least_from_unique [OF r(2)]) (simp add: least_from_def)
  then show ?thesis using r(1) s(1,2) by auto
qed

text \<open>At the last record of an existing file the search for the next key goes wrong: it reads the records
  of the same file again and numbers them from the next file on.  The result is the number of the first
  stored key of this file increased by the number of records per file, whatever the next file holds.\<close>

theorem find_key_after_last_record:
  assumes "uli_inv s" and "length key = getKeySize (u_type s)"
  defines "k \<equiv> decodeKey (u_type s) key" and "r \<equiv> m_numberOfRecordsPerFile s"
  assumes "k \<in> dom (uli_abs s)" and "k mod r + 1 = r" and "k \<noteq> Max (dom (uli_abs s))" and "k + r < max_number s"
  shows "\<exists>m. least_from (dom (uli_abs s)) (k + 1 - r) (Some m) \<and> m \<le> k \<and>
    findKeyAfter s key = Inr (Some (encodeKey (u_type s) (m + r)))"
proof -
  let ?D = "dom (uli_abs s)" and ?f = "getFileIdForKey s k"
  have ok: "files_ok s" and rg: "range_ok s" using assms(1) by (simp_all add: uli_inv_def)
  note M = max_number_bound [OF rg]
  have k: "encodeKey (u_type s) k = key" "k < 2 ^ keyBits (u_type s)"
    using assms(2) by (simp_all add: k_def encode_decodeKey decodeKey_bound)
  note f = stored_file [OF ok assms(5)]
  obtain d where d: "u_data s ?f = Some d" "1 \<le> ?f" by (rule findFileChecked_id [OF ok f])
  define b where "b = (?f - 1) * r"
  have b: "b + r = k + 1" using slot_split(1) [OF ok, of k] assms(6) unfolding b_def r_def by linarith
  have kr: "k + r < 2 ^ keyBits (u_type s)" using assms(8) M by linarith
  note scan = scan_up_numbers [OF ok d(1) le0, unfolded add_0_right diff_zero, folded r_def, folded b_def, unfolded b]
  obtain j where j: "leading_scan d (m_recordSize s) 0 r = Some j" "b + j \<in> ?D" "j < r"
      "\<forall>x \<in> ?D. b \<le> x \<longrightarrow> x < k + 1 \<longrightarrow> b + j \<le> x"
  proof (cases "leading_scan d (m_recordSize s) 0 r")
    case None
    moreover have "b \<le> k" using b files_okD(2) [OF ok] unfolding r_def by linarith
    ultimately have False using scan assms(5) by auto
    then show ?thesis ..
  qed (use scan that in auto)
  have "m_keyCompare s key (u_maxKey s) \<noteq> 0"
  proof
    assume "m_keyCompare s key (u_maxKey s) = 0"
    then have "\<forall>x \<in> ?D. x \<le> k" using at_extreme_key(2) [OF assms(1) k(2)] by (simp add: k(1))
    then show False using assms(5,7) files_okD(9) [OF ok] by (metis Max_eqI)
  qed
  moreover have "m_keyCompare s key (u_maxPossibleKey s) \<noteq> 0"
    using range_keys(2) [OF rg] cmp_encode(1) [OF k(2) M] assms(8) by (simp add: k(1))
  moreover have "after_file s key ?f (k mod r + 1) (k + 1) = Inr (Some (encodeKey (u_type s) (k + 1 + j)))"
    using after_file_wrap [OF ok f k(2)] assms(6) kr j(1) d(1) by (simp add: k(1) r_def)
  ultimately have "findKeyAfter s key = Inr (Some (encodeKey (u_type s) (k + 1 + j)))"
    using available_range(2) [OF ok f] f unfolding findKeyAfter_def Let_def
    by (simp add: k_def [symmetric] r_def [symmetric] not_less)
  moreover have "k + 1 + j = b + j + r" using b by simp
  ultimately have "findKeyAfter s key = Inr (Some (encodeKey (u_type s) (b + j + r)))" by (simp only:)
  moreover have "least_from ?D b (Some (b + j))" using j b by (intro least_from_Some [where mid = "k + 1"]) auto
  moreover have "k + 1 - r = b" "b + j \<le> k" using b j(3) by linarith+
  ultimately show ?thesis by (intro exI [of _ "b + j"]) simp
qed

theorem find_key_after_last_record_witness:
  "\<exists>s s1. uli_new UInt32Key False 8 5120 [0, 0, 0, 0] = Inr s \<and>
    index_run (index_step uli_insert uli_update uli_erase) s sample_ops =
      Inr (s1, [ResInserted True, ResInserted True, ResInserted True]) \<and>
    dom (uli_abs s1) = {0, 239, 245} \<and> findKeyAfter s1 [239, 0, 0, 0] = Inr (Some (encodeKey UInt32Key 240))"
proof -
  obtain s s1 where s: "uli_new UInt32Key False 8 5120 [0, 0, 0, 0] = Inr s"
    "index_run (index_step uli_insert uli_update uli_erase) s sample_ops =
      Inr (s1, [ResInserted True, ResInserted True, ResInserted True])"
    "uli_inv s1" "dom (uli_abs s1) = {0, 239, 245}" "u_type s1 = UInt32Key" "m_numberOfRecordsPerFile s1 = 240"
    "max_number s1 = 4294967295" by (rule sample_populated)
  have k: "decodeKey UInt32Key [239, 0, 0, 0] = 239" by (simp add: decodeKey_def isSignedKey_def)
  have "Max {0, 239, 245 :: nat} = 245" by simp
  then have "\<exists>m. least_from {0, 239, 245} 0 (Some m) \<and> m \<le> 239 \<and>
      findKeyAfter s1 [239, 0, 0, 0] = Inr (Some (encodeKey UInt32Key (m + 240)))"
    using find_key_after_last_record [OF s(3), of "[239, 0, 0, 0]"] s(4-7) k by (simp add: getKeySize_def)
  then show ?thesis using s(1,2,4) by (auto simp: least_from_def)
qed

text \<open>The largest file id is computed one too low exactly when the number of the largest key is a multiple
  of the number of records per file: then the largest key has no possible file and its insertion fails.
  In all other cases every key up to the largest one has a possible file.\<close>

theorem max_possible_file_id:
  assumes "uli_inv s"
  shows "(max_number s mod m_numberOfRecordsPerFile s \<noteq> 0 \<longleftrightarrow>
      (\<forall>k \<le> max_number s. getFileIdForKey s k \<le> computeMaxPossibleFileId s)) \<and>
    (max_number s mod m_numberOfRecordsPerFile s = 0 \<longrightarrow>
      uli_insert s (u_maxPossibleKey s) v = Inl FileIdOutOfRange)"
proof -
  let ?R = "m_numberOfRecordsPerFile s" and ?M = "max_number s"
  have R: "0 < ?R" using assms files_okD(2) by (simp add: uli_inv_def)
  have max: "computeMaxPossibleFileId s = ?M div ?R + (if ?M mod ?R > 0 then 1 else 0)"
    by (simp add: computeMaxPossibleFileId_def max_number_def)
  have top: "getFileIdForKey s ?M = ?M div ?R + 1" by (simp add: getFileIdForKey_def)
  have mono: "getFileIdForKey s k \<le> getFileIdForKey s ?M" if "k \<le> ?M" for k using file_order(3) [OF R that] .
  have "uli_insert s (u_maxPossibleKey s) v = Inl FileIdOutOfRange" if "?M mod ?R = 0"
    using that max top by (simp add: uli_insert_def Let_def insert_open_def findFile_def flip: max_number_def)
  moreover have "?M mod ?R \<noteq> 0 \<longleftrightarrow> (\<forall>k \<le> ?M. getFileIdForKey s k \<le> computeMaxPossibleFileId s)"
  proof
    assume "?M mod ?R \<noteq> 0"
    then have "computeMaxPossibleFileId s = getFileIdForKey s ?M" using max top by simp
    then show "\<forall>k \<le> ?M. getFileIdForKey s k \<le> computeMaxPossibleFileId s" using mono by simp
  next
    assume "\<forall>k \<le> ?M. getFileIdForKey s k \<le> computeMaxPossibleFileId s"
    then have "getFileIdForKey s ?M \<le> computeMaxPossibleFileId s" by simp
    then show "?M mod ?R \<noteq> 0" using max top by (simp split: if_splits)
  qed
  ultimately show ?thesis by blast
qed

text \<open>An index of 8-bit keys with 39-byte values has 51 records per file, and 255 is 5 times 51.\<close>

theorem max_possible_file_id_witness:
  "\<exists>s. uli_new Int8Key False 39 5120 [0] = Inr s \<and> uli_insert s [0x7F] (replicate 39 0) = Inl FileIdOutOfRange"
proof -
  have "new_args_ok Int8Key 39 5120 [0]"
    by (simp add: new_args_ok_def getKeySize_def kMinDataFileSize_def kMaxDataFileSize_def kIndexFileHeaderSize_def)
  then obtain s where s: "uli_new Int8Key False 39 5120 [0] = Inr s" "uli_inv s" "u_type s = Int8Key" "u_valueSize s = 39"
      "u_dataFileSize s = 5120" "u_maxPossibleKey s = traits_getMaxKey Int8Key [0]" by (rule new_ok)
  have R: "m_numberOfRecordsPerFile s = 51"
    by (simp add: m_numberOfRecordsPerFile_def m_recordSize_def s kIndexFileHeaderSize_def)
  have "max_number s = 255" by (simp add: max_number_def s key_traits_simps)
  then show ?thesis using max_possible_file_id [OF s(2)] R s(1,6) by (simp add: key_traits_simps)
qed

end
