(* ===== verification/Variant.thy ===== *)
theory Variant
  imports DateTime VarInt
begin

text \<open>
  The value type of the expression evaluator (\<open>Variant_Type.h\<close>, \<open>Variant_Comparisons.cpp\<close>,
  \<open>Utf8String.cpp\<close>, \<open>buffer.h\<close>, the stream classes under \<open>lob\<close>): the type codes and the predicates on them, the
  value as a tagged union, and the two families of comparisons, the operators (type first, then
  payload) and the \<open>compatible\<close> comparisons across types.  Floating-point payloads are bit patterns
  and the floating-point unit is a parameter; so are the UTF-8 decoder and the date library.
\<close>

section \<open>Type codes\<close>

datatype VariantType =
    kNull | kBool | kInt8 | kUInt8 | kInt16 | kUInt16 | kInt32 | kUInt32 | kInt64 | kUInt64
  | kFloat | kDouble | kDate | kTime | kDateTime | kTimeWithTZ | kDateTimeWithTZ | kDateInterval
  | kTimeInterval | kString | kBinary | kClob | kBlob | kMax

definition type_code :: "VariantType \<Rightarrow> nat" where
  "type_code t = (case t of
      kNull \<Rightarrow> 0 | kBool \<Rightarrow> 1 | kInt8 \<Rightarrow> 2 | kUInt8 \<Rightarrow> 3 | kInt16 \<Rightarrow> 4 | kUInt16 \<Rightarrow> 5 | kInt32 \<Rightarrow> 6
    | kUInt32 \<Rightarrow> 7 | kInt64 \<Rightarrow> 8 | kUInt64 \<Rightarrow> 9 | kFloat \<Rightarrow> 10 | kDouble \<Rightarrow> 11 | kDate \<Rightarrow> 12 | kTime \<Rightarrow> 13
    | kDateTime \<Rightarrow> 14 | kTimeWithTZ \<Rightarrow> 15 | kDateTimeWithTZ \<Rightarrow> 16 | kDateInterval \<Rightarrow> 17
    | kTimeInterval \<Rightarrow> 18 | kString \<Rightarrow> 19 | kBinary \<Rightarrow> 20 | kClob \<Rightarrow> 21 | kBlob \<Rightarrow> 22 | kMax \<Rightarrow> 23)"

definition all_types :: "VariantType list" where
  "all_types =
    [kNull, kBool, kInt8, kUInt8, kInt16, kUInt16, kInt32, kUInt32, kInt64, kUInt64, kFloat, kDouble,
     kDate, kTime, kDateTime, kTimeWithTZ, kDateTimeWithTZ, kDateInterval, kTimeInterval, kString,
     kBinary, kClob, kBlob]"

lemma type_code_inject [simp]: "type_code t = type_code u \<longleftrightarrow> t = u"
  by (cases t; cases u) (simp_all add: type_code_def)

instantiation VariantType :: linorder
begin

definition less_eq_VariantType :: "VariantType \<Rightarrow> VariantType \<Rightarrow> bool" where
  "less_eq_VariantType t u \<longleftrightarrow> type_code t \<le> type_code u"

definition less_VariantType :: "VariantType \<Rightarrow> VariantType \<Rightarrow> bool" where
  "less_VariantType t u \<longleftrightarrow> type_code t < type_code u"

instance
  by standard (auto simp: less_eq_VariantType_def less_VariantType_def)

end

definition isNullType :: "VariantType \<Rightarrow> bool" where
  "isNullType t \<longleftrightarrow> t = kNull"

definition isBoolType :: "VariantType \<Rightarrow> bool" where
  "isBoolType t \<longleftrightarrow> t = kBool"

definition isStringType :: "VariantType \<Rightarrow> bool" where
  "isStringType t \<longleftrightarrow> t = kString"

definition isBinaryType :: "VariantType \<Rightarrow> bool" where
  "isBinaryType t \<longleftrightarrow> t = kBinary"

definition isDateTimeType :: "VariantType \<Rightarrow> bool" where
  "isDateTimeType t \<longleftrightarrow> t = kDateTime"

definition isNumericType :: "VariantType \<Rightarrow> bool" where
  "isNumericType t = (case t of
      kInt8 \<Rightarrow> True | kUInt8 \<Rightarrow> True | kInt16 \<Rightarrow> True | kUInt16 \<Rightarrow> True | kInt32 \<Rightarrow> True
    | kUInt32 \<Rightarrow> True | kInt64 \<Rightarrow> True | kUInt64 \<Rightarrow> True | kFloat \<Rightarrow> True | kDouble \<Rightarrow> True | _ \<Rightarrow> False)"

definition isIntegerType :: "VariantType \<Rightarrow> bool" where
  "isIntegerType t = (case t of
      kInt8 \<Rightarrow> True | kUInt8 \<Rightarrow> True | kInt16 \<Rightarrow> True | kUInt16 \<Rightarrow> True | kInt32 \<Rightarrow> True
    | kUInt32 \<Rightarrow> True | kInt64 \<Rightarrow> True | kUInt64 \<Rightarrow> True | _ \<Rightarrow> False)"

definition isFloatingPointType :: "VariantType \<Rightarrow> bool" where
  "isFloatingPointType t = (case t of kFloat \<Rightarrow> True | kDouble \<Rightarrow> True | _ \<Rightarrow> False)"

definition isSignedType :: "VariantType \<Rightarrow> bool" where
  "isSignedType t = (case t of
      kInt8 \<Rightarrow> True | kInt16 \<Rightarrow> True | kInt32 \<Rightarrow> True | kInt64 \<Rightarrow> True | kFloat \<Rightarrow> True | kDouble \<Rightarrow> True
    | _ \<Rightarrow> False)"

definition getSignedType :: "VariantType \<Rightarrow> VariantType" where
  "getSignedType t = (case t of
      kUInt8 \<Rightarrow> kInt8 | kUInt16 \<Rightarrow> kInt16 | kUInt32 \<Rightarrow> kInt32 | kUInt64 \<Rightarrow> kInt64 | _ \<Rightarrow> t)"

definition isUIntType :: "VariantType \<Rightarrow> bool" where
  "isUIntType t = (case t of
      kUInt8 \<Rightarrow> True | kUInt16 \<Rightarrow> True | kUInt32 \<Rightarrow> True | kUInt64 \<Rightarrow> True | _ \<Rightarrow> False)"

definition getUIntType :: "VariantType \<Rightarrow> VariantType" where
  "getUIntType t = (case t of
      kInt8 \<Rightarrow> kUInt8 | kInt16 \<Rightarrow> kUInt16 | kInt32 \<Rightarrow> kUInt32 | kInt64 \<Rightarrow> kUInt64 | _ \<Rightarrow> t)"

definition getNumericResultType :: "VariantType \<Rightarrow> VariantType \<Rightarrow> VariantType" where
  "getNumericResultType leftType rightType = max (max leftType rightType) kInt32"

lemmas type_pred_defs =
  isNumericType_def isIntegerType_def isFloatingPointType_def isSignedType_def isUIntType_def

section \<open>Large object streams\<close>

text \<open>A stream over a string or a binary value held in memory.  \<open>lob_addr\<close> is the address of the object,
  which the ordering operators compare; the size is cut to 32 bits by the constructor.\<close>

record LobStream =
  lob_addr :: nat
  lob_size :: uint32
  lob_pos :: uint32
  lob_content :: bytes

definition newLobStream :: "nat \<Rightarrow> bytes \<Rightarrow> LobStream" where
  "newLobStream addr s = \<lparr>lob_addr = addr, lob_size = of_nat (length s), lob_pos = 0, lob_content = s\<rparr>"

definition lob_getRemainingSize :: "LobStream \<Rightarrow> uint32" where
  "lob_getRemainingSize l = lob_size l - lob_pos l"

definition lob_rewind :: "LobStream \<Rightarrow> LobStream" where
  "lob_rewind l = l\<lparr>lob_pos := 0\<rparr>"

definition lob_read :: "LobStream \<Rightarrow> nat \<Rightarrow> bytes \<times> LobStream" where
  "lob_read l bufferSize =
    (let remaining = length (lob_content l) - unat (lob_pos l);
         outputSize = min remaining bufferSize in
     if outputSize > 0
     then (slice (lob_content l) (unat (lob_pos l)) outputSize,
           l\<lparr>lob_pos := lob_pos l + of_nat outputSize\<rparr>)
     else ([], l))"

text \<open>The reading loops of \<open>readAsString\<close> and \<open>readAsBinary\<close>.  Every turn but the last delivers at least one
  byte, so as many turns as bytes wanted are enough; the number of turns left is the first argument.\<close>

fun lob_read_loop :: "nat \<Rightarrow> LobStream \<Rightarrow> nat \<Rightarrow> bytes \<times> LobStream" where
  "lob_read_loop 0 l wanted = ([], l)"
| "lob_read_loop (Suc n) l wanted =
    (if wanted = 0 then ([], l)
     else let (chunk, l') = lob_read l wanted in
       if chunk = [] then ([], l')
       else let (more, l'') = lob_read_loop n l' (wanted - length chunk) in (chunk @ more, l''))"

definition clob_readAsString :: "LobStream \<Rightarrow> uint32 \<Rightarrow> bytes \<times> LobStream" where
  "clob_readAsString l len =
    (let available = unat (min len (lob_getRemainingSize l)) in
     if available = 0 then ([], l)
     else let (data, l') = lob_read_loop available l available in (takeWhile (\<lambda>b. b \<noteq> 0) data, l'))"

definition blob_readAsBinary :: "LobStream \<Rightarrow> uint32 \<Rightarrow> bytes \<times> LobStream" where
  "blob_readAsBinary l len =
    (let available = unat (min len (lob_getRemainingSize l)) in
     if available = 0 then ([], l) else lob_read_loop available l available)"

section \<open>Values\<close>

datatype Variant =
    VNull | VBool bool | VInt8 uint8 | VUInt8 uint8 | VInt16 uint16 | VUInt16 uint16
  | VInt32 uint32 | VUInt32 uint32 | VInt64 uint64 | VUInt64 uint64 | VFloat uint32 | VDouble uint64
  | VDateTime RawDateTime | VString bytes | VBinary bytes | VClob LobStream | VBlob LobStream

definition getValueType :: "Variant \<Rightarrow> VariantType" where
  "getValueType v = (case v of
      VNull \<Rightarrow> kNull | VBool _ \<Rightarrow> kBool | VInt8 _ \<Rightarrow> kInt8 | VUInt8 _ \<Rightarrow> kUInt8 | VInt16 _ \<Rightarrow> kInt16
    | VUInt16 _ \<Rightarrow> kUInt16 | VInt32 _ \<Rightarrow> kInt32 | VUInt32 _ \<Rightarrow> kUInt32 | VInt64 _ \<Rightarrow> kInt64
    | VUInt64 _ \<Rightarrow> kUInt64 | VFloat _ \<Rightarrow> kFloat | VDouble _ \<Rightarrow> kDouble | VDateTime _ \<Rightarrow> kDateTime
    | VString _ \<Rightarrow> kString | VBinary _ \<Rightarrow> kBinary | VClob _ \<Rightarrow> kClob | VBlob _ \<Rightarrow> kBlob)"

text \<open>The number an integer payload stands for: signed members are read as two's complement.\<close>

definition intValue :: "Variant \<Rightarrow> int" where
  "intValue v = (case v of
      VInt8 a \<Rightarrow> sint a | VUInt8 a \<Rightarrow> uint a | VInt16 a \<Rightarrow> sint a | VUInt16 a \<Rightarrow> uint a
    | VInt32 a \<Rightarrow> sint a | VUInt32 a \<Rightarrow> uint a | VInt64 a \<Rightarrow> sint a | VUInt64 a \<Rightarrow> uint a | _ \<Rightarrow> 0)"

datatype variant_error =
    VariantTypeCastError VariantType VariantType
  | WrongVariantTypeError VariantType
  | VariantSerializationError
  | VariantDeserializationError
  | ObjectDeserializationError deser_error
  | InvalidArgument
  | Utf8Error
  | NonTermination
  | UndefinedBehaviour

section \<open>Relational operators of the payload types\<close>

datatype cmp_op = CmpEq | CmpNe | CmpLt | CmpLe | CmpGt | CmpGe

definition int_rel :: "cmp_op \<Rightarrow> int \<Rightarrow> int \<Rightarrow> bool" where
  "int_rel op a b = (case op of
      CmpEq \<Rightarrow> a = b | CmpNe \<Rightarrow> a \<noteq> b | CmpLt \<Rightarrow> a < b | CmpLe \<Rightarrow> a \<le> b | CmpGt \<Rightarrow> a > b | CmpGe \<Rightarrow> a \<ge> b)"

text \<open>Lexicographic order of bytes: \<open>std::memcmp\<close> on equal sizes and \<open>std::string::compare\<close> on all.\<close>

fun bytes_lt :: "bytes \<Rightarrow> bytes \<Rightarrow> bool" where
  "bytes_lt [] bs = (bs \<noteq> [])"
| "bytes_lt (a # as) [] = False"
| "bytes_lt (a # as) (b # bs) = (a < b \<or> a = b \<and> bytes_lt as bs)"

definition string_rel :: "cmp_op \<Rightarrow> bytes \<Rightarrow> bytes \<Rightarrow> bool" where
  "string_rel op a b = (case op of
      CmpEq \<Rightarrow> a = b | CmpNe \<Rightarrow> a \<noteq> b | CmpLt \<Rightarrow> bytes_lt a b | CmpLe \<Rightarrow> \<not> bytes_lt b a
    | CmpGt \<Rightarrow> bytes_lt b a | CmpGe \<Rightarrow> \<not> bytes_lt a b)"

definition buffer_eq :: "bytes \<Rightarrow> bytes \<Rightarrow> bool" where
  "buffer_eq a b \<longleftrightarrow> length a = length b \<and> a = b"

definition buffer_lt :: "bytes \<Rightarrow> bytes \<Rightarrow> bool" where
  "buffer_lt a b = (if length a = length b then bytes_lt a b else length a < length b)"

definition buffer_rel :: "cmp_op \<Rightarrow> bytes \<Rightarrow> bytes \<Rightarrow> bool" where
  "buffer_rel op a b = (case op of
      CmpEq \<Rightarrow> buffer_eq a b | CmpNe \<Rightarrow> \<not> buffer_eq a b | CmpLt \<Rightarrow> buffer_lt a b
    | CmpLe \<Rightarrow> \<not> buffer_lt b a | CmpGt \<Rightarrow> buffer_lt b a | CmpGe \<Rightarrow> \<not> buffer_lt a b)"

definition datetime_rel :: "cmp_op \<Rightarrow> RawDateTime \<Rightarrow> RawDateTime \<Rightarrow> bool" where
  "datetime_rel op a b = (case op of
      CmpEq \<Rightarrow> rawdatetime_eq a b | CmpNe \<Rightarrow> rawdatetime_ne a b | CmpLt \<Rightarrow> rawdatetime_lt a b
    | CmpLe \<Rightarrow> rawdatetime_le a b | CmpGt \<Rightarrow> rawdatetime_gt a b | CmpGe \<Rightarrow> rawdatetime_ge a b)"

text \<open>The floating-point unit: relations, arithmetic and conversions on bit patterns, the truncation of a number to
  an integer (undefined when it has no integer part), and the library's text conversions, which also
  tell how many characters were read.\<close>

datatype arith_op = ArithAdd | ArithSub | ArithMul | ArithDiv

record FPU =
  f32_rel :: "cmp_op \<Rightarrow> uint32 \<Rightarrow> uint32 \<Rightarrow> bool"
  f64_rel :: "cmp_op \<Rightarrow> uint64 \<Rightarrow> uint64 \<Rightarrow> bool"
  f32_op :: "arith_op \<Rightarrow> uint32 \<Rightarrow> uint32 \<Rightarrow> uint32"
  f64_op :: "arith_op \<Rightarrow> uint64 \<Rightarrow> uint64 \<Rightarrow> uint64"
  f32_neg :: "uint32 \<Rightarrow> uint32"
  f64_neg :: "uint64 \<Rightarrow> uint64"
  f32_of_int :: "int \<Rightarrow> uint32"
  f64_of_int :: "int \<Rightarrow> uint64"
  f64_of_f32 :: "uint32 \<Rightarrow> uint64"
  f32_of_f64 :: "uint64 \<Rightarrow> uint32"
  f32_trunc :: "uint32 \<Rightarrow> int option"
  f64_trunc :: "uint64 \<Rightarrow> int option"
  f32_scan :: "bytes \<Rightarrow> (uint32 \<times> nat) option"
  f64_scan :: "bytes \<Rightarrow> (uint64 \<times> nat) option"
  f64_print8 :: "uint64 \<Rightarrow> bytes"

section \<open>Operators\<close>

text \<open>\<open>same\<close> tells whether both operands are one object.  The payloads are compared when the types
  agree; \<open>lobs\<close> is what the operator does with two streams and \<open>dflt\<close> its default branch.\<close>

definition payload_rel ::
  "FPU \<Rightarrow> cmp_op \<Rightarrow> (LobStream \<Rightarrow> LobStream \<Rightarrow> bool) \<Rightarrow> bool \<Rightarrow> Variant \<Rightarrow> Variant \<Rightarrow> bool" where
  "payload_rel F op lobs dflt v w = (case (v, w) of
      (VBool a, VBool b) \<Rightarrow> int_rel op (of_bool a) (of_bool b)
    | (VInt8 a, VInt8 b) \<Rightarrow> int_rel op (sint a) (sint b)
    | (VUInt8 a, VUInt8 b) \<Rightarrow> int_rel op (uint a) (uint b)
    | (VInt16 a, VInt16 b) \<Rightarrow> int_rel op (sint a) (sint b)
    | (VUInt16 a, VUInt16 b) \<Rightarrow> int_rel op (uint a) (uint b)
    | (VInt32 a, VInt32 b) \<Rightarrow> int_rel op (sint a) (sint b)
    | (VUInt32 a, VUInt32 b) \<Rightarrow> int_rel op (uint a) (uint b)
    | (VInt64 a, VInt64 b) \<Rightarrow> int_rel op (sint a) (sint b)
    | (VUInt64 a, VUInt64 b) \<Rightarrow> int_rel op (uint a) (uint b)
    | (VFloat a, VFloat b) \<Rightarrow> f32_rel F op a b
    | (VDouble a, VDouble b) \<Rightarrow> f64_rel F op a b
    | (VString a, VString b) \<Rightarrow> string_rel op a b
    | (VBinary a, VBinary b) \<Rightarrow> buffer_rel op a b
    | (VClob a, VClob b) \<Rightarrow> lobs a b
    | (VBlob a, VBlob b) \<Rightarrow> lobs a b
    | _ \<Rightarrow> dflt)"

definition lob_lt :: "LobStream \<Rightarrow> LobStream \<Rightarrow> bool" where
  "lob_lt a b = (if lob_size a = lob_size b then lob_addr a < lob_addr b else lob_size a < lob_size b)"

definition lob_gt :: "LobStream \<Rightarrow> LobStream \<Rightarrow> bool" where
  "lob_gt a b = (if lob_size a = lob_size b then lob_addr a > lob_addr b else lob_size a > lob_size b)"

definition variant_eq :: "FPU \<Rightarrow> bool \<Rightarrow> Variant \<Rightarrow> Variant \<Rightarrow> bool" where
  "variant_eq F same v w =
    (if same then True
     else if getValueType v \<noteq> getValueType w then False
     else payload_rel F CmpEq (\<lambda>_ _. False) True v w)"

definition variant_ne :: "FPU \<Rightarrow> bool \<Rightarrow> Variant \<Rightarrow> Variant \<Rightarrow> bool" where
  "variant_ne F same v w =
    (if same then False
     else if getValueType v \<noteq> getValueType w then True
     else payload_rel F CmpNe (\<lambda>_ _. True) False v w)"

definition variant_lt :: "FPU \<Rightarrow> bool \<Rightarrow> Variant \<Rightarrow> Variant \<Rightarrow> bool" where
  "variant_lt F same v w =
    (if same then False
     else if getValueType v \<noteq> getValueType w then getValueType v < getValueType w
     else payload_rel F CmpLt lob_lt False v w)"

definition variant_le :: "FPU \<Rightarrow> bool \<Rightarrow> Variant \<Rightarrow> Variant \<Rightarrow> bool" where
  "variant_le F same v w =
    (if same then True
     else if getValueType v \<noteq> getValueType w then getValueType v < getValueType w
     else payload_rel F CmpLe lob_lt False v w)"

definition variant_gt :: "FPU \<Rightarrow> bool \<Rightarrow> Variant \<Rightarrow> Variant \<Rightarrow> bool" where
  "variant_gt F same v w =
    (if same then False
     else if getValueType v \<noteq> getValueType w then getValueType v > getValueType w
     else payload_rel F CmpGt lob_gt False v w)"

definition variant_ge :: "FPU \<Rightarrow> bool \<Rightarrow> Variant \<Rightarrow> Variant \<Rightarrow> bool" where
  "variant_ge F same v w =
    (if same then True
     else if getValueType v \<noteq> getValueType w then getValueType v > getValueType w
     else payload_rel F CmpGe lob_gt False v w)"

lemmas variant_operator_defs =
  variant_eq_def variant_ne_def variant_lt_def variant_le_def variant_gt_def variant_ge_def

definition isNegative :: "FPU \<Rightarrow> Variant \<Rightarrow> variant_error + bool" where
  "isNegative F v = (case v of
      VInt8 a \<Rightarrow> Inr (sint a < 0) | VUInt8 _ \<Rightarrow> Inr False | VInt16 a \<Rightarrow> Inr (sint a < 0)
    | VUInt16 _ \<Rightarrow> Inr False | VInt32 a \<Rightarrow> Inr (sint a < 0) | VUInt32 _ \<Rightarrow> Inr False
    | VInt64 a \<Rightarrow> Inr (sint a < 0) | VUInt64 _ \<Rightarrow> Inr False
    | VDouble a \<Rightarrow> Inr (f64_rel F CmpLt a (f64_of_int F 0))
    | VFloat a \<Rightarrow> Inr (f32_rel F CmpLt a (f32_of_int F 0))
    | _ \<Rightarrow> Inl (WrongVariantTypeError (getValueType v)))"

definition isPositive :: "FPU \<Rightarrow> Variant \<Rightarrow> variant_error + bool" where
  "isPositive F v = (case v of
      VInt8 a \<Rightarrow> Inr (sint a > 0) | VUInt8 a \<Rightarrow> Inr (uint a > 0) | VInt16 a \<Rightarrow> Inr (sint a > 0)
    | VUInt16 a \<Rightarrow> Inr (uint a > 0) | VInt32 a \<Rightarrow> Inr (sint a > 0) | VUInt32 a \<Rightarrow> Inr (uint a > 0)
    | VInt64 a \<Rightarrow> Inr (sint a > 0) | VUInt64 a \<Rightarrow> Inr (uint a > 0)
    | VDouble a \<Rightarrow> Inr (f64_rel F CmpGt a (f64_of_int F 0))
    | VFloat a \<Rightarrow> Inr (f32_rel F CmpGt a (f32_of_int F 0))
    | _ \<Rightarrow> Inl (WrongVariantTypeError (getValueType v)))"

definition isZero :: "FPU \<Rightarrow> Variant \<Rightarrow> variant_error + bool" where
  "isZero F v = (case v of
      VInt8 a \<Rightarrow> Inr (sint a = 0) | VUInt8 a \<Rightarrow> Inr (uint a = 0) | VInt16 a \<Rightarrow> Inr (sint a = 0)
    | VUInt16 a \<Rightarrow> Inr (uint a = 0) | VInt32 a \<Rightarrow> Inr (sint a = 0) | VUInt32 a \<Rightarrow> Inr (uint a = 0)
    | VInt64 a \<Rightarrow> Inr (sint a = 0) | VUInt64 a \<Rightarrow> Inr (uint a = 0)
    | VDouble a \<Rightarrow> Inr (f64_rel F CmpEq a (f64_of_int F 0))
    | VFloat a \<Rightarrow> Inr (f32_rel F CmpEq a (f32_of_int F 0))
    | _ \<Rightarrow> Inl (WrongVariantTypeError (getValueType v)))"

end
