(* ===== verification/ColumnType.thy ===== *)
theory ColumnType
  imports Variant
begin

text \<open>
  The data types of columns (\<open>ColumnDataType.proto\<close>, \<open>ColumnDataType.h\<close>, \<open>ColumnDataType.cpp\<close>):
  their numbers, their names and the conversions from and to the types of values, and the errors
  that the expression classes raise.
\<close>

section \<open>Errors\<close>

text \<open>The exceptions of the expression classes.  \<open>Terminated\<close> is a call of \<open>std::terminate\<close>: an exception that
  leaves a function declared \<open>noexcept\<close>.  \<open>OutOfFuel\<close> is never the outcome of the code: it stands for
  a recursion cut short by the bound of the model.\<close>

datatype engine_error =
    RuntimeError
  | StdInvalidArgument
  | StdOutOfRange
  | StdLengthError
  | DatabaseError
  | VariantError variant_error
  | Terminated
  | OutOfFuel

definition raised :: "variant_error + 'a \<Rightarrow> engine_error + 'a" where
  "raised r = (case r of Inl e \<Rightarrow> Inl (VariantError e) | Inr x \<Rightarrow> Inr x)"

text \<open>Sequencing: the first exception ends the computation.\<close>

definition chain :: "'e + 'a \<Rightarrow> ('a \<Rightarrow> 'e + 'b) \<Rightarrow> 'e + 'b" where
  "chain r f = (case r of Inl e \<Rightarrow> Inl e | Inr x \<Rightarrow> f x)"

lemma chain_simps [simp]: "chain (Inl e) f = Inl e" "chain (Inr x) f = f x"
  by (simp_all add: chain_def)

lemma chain_eq_Inr [simp]: "chain r f = Inr y \<longleftrightarrow> (\<exists>x. r = Inr x \<and> f x = Inr y)"
  by (cases r) simp_all

lemma chain_eq_Inl: "chain r f = Inl e \<longleftrightarrow> r = Inl e \<or> (\<exists>x. r = Inr x \<and> f x = Inl e)"
  by (cases r) simp_all

lemma raised_simps [simp]:
  "raised (Inl e) = Inl (VariantError e)" "raised (Inr x) = Inr x"
  "raised r = Inr x \<longleftrightarrow> r = Inr x"
  by (simp_all add: raised_def split: sum.split)

section \<open>Column data types\<close>

datatype ColumnDataType =
    COLUMN_DATA_TYPE_BOOL | COLUMN_DATA_TYPE_INT8 | COLUMN_DATA_TYPE_UINT8 | COLUMN_DATA_TYPE_INT16
  | COLUMN_DATA_TYPE_UINT16 | COLUMN_DATA_TYPE_INT32 | COLUMN_DATA_TYPE_UINT32
  | COLUMN_DATA_TYPE_INT64 | COLUMN_DATA_TYPE_UINT64 | COLUMN_DATA_TYPE_FLOAT
  | COLUMN_DATA_TYPE_DOUBLE | COLUMN_DATA_TYPE_TEXT | COLUMN_DATA_TYPE_NTEXT
  | COLUMN_DATA_TYPE_BINARY | COLUMN_DATA_TYPE_DATE | COLUMN_DATA_TYPE_TIME
  | COLUMN_DATA_TYPE_TIME_WITH_TZ | COLUMN_DATA_TYPE_TIMESTAMP
  | COLUMN_DATA_TYPE_TIMESTAMP_WITH_TZ | COLUMN_DATA_TYPE_DATE_INTERVAL
  | COLUMN_DATA_TYPE_TIME_INTERVAL | COLUMN_DATA_TYPE_STRUCT | COLUMN_DATA_TYPE_XML
  | COLUMN_DATA_TYPE_JSON | COLUMN_DATA_TYPE_UUID | COLUMN_DATA_TYPE_MAX
  | COLUMN_DATA_TYPE_UNKNOWN

definition column_type_code :: "ColumnDataType \<Rightarrow> nat" where
  "column_type_code t = (case t of
      COLUMN_DATA_TYPE_BOOL \<Rightarrow> 0 | COLUMN_DATA_TYPE_INT8 \<Rightarrow> 1 | COLUMN_DATA_TYPE_UINT8 \<Rightarrow> 2
    | COLUMN_DATA_TYPE_INT16 \<Rightarrow> 3 | COLUMN_DATA_TYPE_UINT16 \<Rightarrow> 4 | COLUMN_DATA_TYPE_INT32 \<Rightarrow> 5
    | COLUMN_DATA_TYPE_UINT32 \<Rightarrow> 6 | COLUMN_DATA_TYPE_INT64 \<Rightarrow> 7 | COLUMN_DATA_TYPE_UINT64 \<Rightarrow> 8
    | COLUMN_DATA_TYPE_FLOAT \<Rightarrow> 9 | COLUMN_DATA_TYPE_DOUBLE \<Rightarrow> 10 | COLUMN_DATA_TYPE_TEXT \<Rightarrow> 11
    | COLUMN_DATA_TYPE_NTEXT \<Rightarrow> 12 | COLUMN_DATA_TYPE_BINARY \<Rightarrow> 13 | COLUMN_DATA_TYPE_DATE \<Rightarrow> 14
    | COLUMN_DATA_TYPE_TIME \<Rightarrow> 15 | COLUMN_DATA_TYPE_TIME_WITH_TZ \<Rightarrow> 16
    | COLUMN_DATA_TYPE_TIMESTAMP \<Rightarrow> 17 | COLUMN_DATA_TYPE_TIMESTAMP_WITH_TZ \<Rightarrow> 18
    | COLUMN_DATA_TYPE_DATE_INTERVAL \<Rightarrow> 19 | COLUMN_DATA_TYPE_TIME_INTERVAL \<Rightarrow> 20
    | COLUMN_DATA_TYPE_STRUCT \<Rightarrow> 21 | COLUMN_DATA_TYPE_XML \<Rightarrow> 22 | COLUMN_DATA_TYPE_JSON \<Rightarrow> 23
    | COLUMN_DATA_TYPE_UUID \<Rightarrow> 24 | COLUMN_DATA_TYPE_MAX \<Rightarrow> 25 | COLUMN_DATA_TYPE_UNKNOWN \<Rightarrow> 127)"

lemma column_type_code_inject [simp]: "column_type_code t = column_type_code u \<longleftrightarrow> t = u"
  by (cases t; cases u) (simp_all add: column_type_code_def)

instantiation ColumnDataType :: linorder
begin

definition less_eq_ColumnDataType :: "ColumnDataType \<Rightarrow> ColumnDataType \<Rightarrow> bool" where
  "less_eq_ColumnDataType t u \<longleftrightarrow> column_type_code t \<le> column_type_code u"

definition less_ColumnDataType :: "ColumnDataType \<Rightarrow> ColumnDataType \<Rightarrow> bool" where
  "less_ColumnDataType t u \<longleftrightarrow> column_type_code t < column_type_code u"

instance
  by standard (auto simp: less_eq_ColumnDataType_def less_ColumnDataType_def)

end

definition cdt_isNumericType :: "ColumnDataType \<Rightarrow> bool" where
  "cdt_isNumericType t = (case t of
      COLUMN_DATA_TYPE_INT8 \<Rightarrow> True | COLUMN_DATA_TYPE_UINT8 \<Rightarrow> True | COLUMN_DATA_TYPE_INT16 \<Rightarrow> True
    | COLUMN_DATA_TYPE_UINT16 \<Rightarrow> True | COLUMN_DATA_TYPE_INT32 \<Rightarrow> True | COLUMN_DATA_TYPE_UINT32 \<Rightarrow> True
    | COLUMN_DATA_TYPE_INT64 \<Rightarrow> True | COLUMN_DATA_TYPE_UINT64 \<Rightarrow> True | COLUMN_DATA_TYPE_FLOAT \<Rightarrow> True
    | COLUMN_DATA_TYPE_DOUBLE \<Rightarrow> True | _ \<Rightarrow> False)"

definition cdt_isIntegerType :: "ColumnDataType \<Rightarrow> bool" where
  "cdt_isIntegerType t = (case t of
      COLUMN_DATA_TYPE_INT8 \<Rightarrow> True | COLUMN_DATA_TYPE_UINT8 \<Rightarrow> True | COLUMN_DATA_TYPE_INT16 \<Rightarrow> True
    | COLUMN_DATA_TYPE_UINT16 \<Rightarrow> True | COLUMN_DATA_TYPE_INT32 \<Rightarrow> True | COLUMN_DATA_TYPE_UINT32 \<Rightarrow> True
    | COLUMN_DATA_TYPE_INT64 \<Rightarrow> True | COLUMN_DATA_TYPE_UINT64 \<Rightarrow> True | _ \<Rightarrow> False)"

text \<open>The 32- and 64-bit types are sent to the 16-bit one.\<close>

definition cdt_getSignedType :: "ColumnDataType \<Rightarrow> ColumnDataType" where
  "cdt_getSignedType t = (case t of
      COLUMN_DATA_TYPE_UINT8 \<Rightarrow> COLUMN_DATA_TYPE_INT8
    | COLUMN_DATA_TYPE_UINT16 \<Rightarrow> COLUMN_DATA_TYPE_INT16
    | COLUMN_DATA_TYPE_UINT32 \<Rightarrow> COLUMN_DATA_TYPE_INT16
    | COLUMN_DATA_TYPE_UINT64 \<Rightarrow> COLUMN_DATA_TYPE_INT16
    | _ \<Rightarrow> t)"

definition cdt_getNumericResultType :: "ColumnDataType \<Rightarrow> ColumnDataType \<Rightarrow> ColumnDataType" where
  "cdt_getNumericResultType leftType rightType = max (max leftType rightType) COLUMN_DATA_TYPE_INT32"

section \<open>Names and conversions\<close>

definition all_column_types :: "ColumnDataType list" where
  "all_column_types =
    [COLUMN_DATA_TYPE_BOOL, COLUMN_DATA_TYPE_INT8, COLUMN_DATA_TYPE_UINT8, COLUMN_DATA_TYPE_INT16,
     COLUMN_DATA_TYPE_UINT16, COLUMN_DATA_TYPE_INT32, COLUMN_DATA_TYPE_UINT32,
     COLUMN_DATA_TYPE_INT64, COLUMN_DATA_TYPE_UINT64, COLUMN_DATA_TYPE_FLOAT,
     COLUMN_DATA_TYPE_DOUBLE, COLUMN_DATA_TYPE_TEXT, COLUMN_DATA_TYPE_NTEXT,
     COLUMN_DATA_TYPE_BINARY, COLUMN_DATA_TYPE_DATE, COLUMN_DATA_TYPE_TIME,
     COLUMN_DATA_TYPE_TIME_WITH_TZ, COLUMN_DATA_TYPE_TIMESTAMP,
     COLUMN_DATA_TYPE_TIMESTAMP_WITH_TZ, COLUMN_DATA_TYPE_DATE_INTERVAL,
     COLUMN_DATA_TYPE_TIME_INTERVAL, COLUMN_DATA_TYPE_STRUCT, COLUMN_DATA_TYPE_XML,
     COLUMN_DATA_TYPE_JSON, COLUMN_DATA_TYPE_UUID]"

definition kColumnDataTypeNames :: "string list" where
  "kColumnDataTypeNames =
    [''BOOLEAN'', ''INT8'', ''UINT8'', ''INT16'', ''UINT16'', ''INT32'', ''UINT32'', ''INT64'',
     ''UINT64'', ''FLOAT'', ''DOUBLE'', ''TEXT'', ''NTEXT'', ''BINARY'', ''DATE'', ''TIME'',
     ''TIME WITH TIME ZONE'', ''TIMESTAMP'', ''TIMESTAMP WITH TIME ZONE'', ''DATE INTERVAL'',
     ''TIME INTERVAL'', ''STRUCT'', ''XML'', ''JSON'', ''UUID'']"

definition getColumnDataTypeName :: "ColumnDataType \<Rightarrow> engine_error + string" where
  "getColumnDataTypeName t =
    (if column_type_code t < length kColumnDataTypeNames
     then Inr (kColumnDataTypeNames ! column_type_code t)
     else Inl StdOutOfRange)"

definition getColumnDataTypeByName :: "string \<Rightarrow> engine_error + ColumnDataType" where
  "getColumnDataTypeByName s = (case map_of (zip kColumnDataTypeNames all_column_types) s of
      Some t \<Rightarrow> Inr t | None \<Rightarrow> Inl StdInvalidArgument)"

definition convertVariantTypeToColumnDataType :: "VariantType \<Rightarrow> engine_error + ColumnDataType" where
  "convertVariantTypeToColumnDataType t = (case t of
      kNull \<Rightarrow> Inr COLUMN_DATA_TYPE_UNKNOWN | kBool \<Rightarrow> Inr COLUMN_DATA_TYPE_BOOL
    | kInt8 \<Rightarrow> Inr COLUMN_DATA_TYPE_INT8 | kUInt8 \<Rightarrow> Inr COLUMN_DATA_TYPE_UINT8
    | kInt16 \<Rightarrow> Inr COLUMN_DATA_TYPE_INT16 | kUInt16 \<Rightarrow> Inr COLUMN_DATA_TYPE_UINT16
    | kInt32 \<Rightarrow> Inr COLUMN_DATA_TYPE_INT32 | kUInt32 \<Rightarrow> Inr COLUMN_DATA_TYPE_UINT32
    | kInt64 \<Rightarrow> Inr COLUMN_DATA_TYPE_INT64 | kUInt64 \<Rightarrow> Inr COLUMN_DATA_TYPE_UINT64
    | kFloat \<Rightarrow> Inr COLUMN_DATA_TYPE_FLOAT | kDouble \<Rightarrow> Inr COLUMN_DATA_TYPE_DOUBLE
    | kDate \<Rightarrow> Inr COLUMN_DATA_TYPE_DATE | kTime \<Rightarrow> Inr COLUMN_DATA_TYPE_TIME
    | kDateTime \<Rightarrow> Inr COLUMN_DATA_TYPE_TIMESTAMP
    | kTimeWithTZ \<Rightarrow> Inr COLUMN_DATA_TYPE_TIME_WITH_TZ
    | kDateTimeWithTZ \<Rightarrow> Inr COLUMN_DATA_TYPE_TIMESTAMP_WITH_TZ
    | kDateInterval \<Rightarrow> Inr COLUMN_DATA_TYPE_DATE_INTERVAL
    | kTimeInterval \<Rightarrow> Inr COLUMN_DATA_TYPE_TIME_INTERVAL
    | kString \<Rightarrow> Inr COLUMN_DATA_TYPE_TEXT | kBinary \<Rightarrow> Inr COLUMN_DATA_TYPE_BINARY
    | kClob \<Rightarrow> Inr COLUMN_DATA_TYPE_TEXT | kBlob \<Rightarrow> Inr COLUMN_DATA_TYPE_BINARY
    | kMax \<Rightarrow> Inl StdOutOfRange)"

definition convertColumnDataTypeToVariantType :: "ColumnDataType \<Rightarrow> engine_error + VariantType" where
  "convertColumnDataTypeToVariantType t = (case t of
      COLUMN_DATA_TYPE_UNKNOWN \<Rightarrow> Inr kNull | COLUMN_DATA_TYPE_BOOL \<Rightarrow> Inr kBool
    | COLUMN_DATA_TYPE_INT8 \<Rightarrow> Inr kInt8 | COLUMN_DATA_TYPE_UINT8 \<Rightarrow> Inr kUInt8
    | COLUMN_DATA_TYPE_INT16 \<Rightarrow> Inr kInt16 | COLUMN_DATA_TYPE_UINT16 \<Rightarrow> Inr kUInt16
    | COLUMN_DATA_TYPE_INT32 \<Rightarrow> Inr kInt32 | COLUMN_DATA_TYPE_UINT32 \<Rightarrow> Inr kUInt32
    | COLUMN_DATA_TYPE_INT64 \<Rightarrow> Inr kInt64 | COLUMN_DATA_TYPE_UINT64 \<Rightarrow> Inr kUInt64
    | COLUMN_DATA_TYPE_FLOAT \<Rightarrow> Inr kFloat | COLUMN_DATA_TYPE_DOUBLE \<Rightarrow> Inr kDouble
    | COLUMN_DATA_TYPE_TEXT \<Rightarrow> Inr kString | COLUMN_DATA_TYPE_BINARY \<Rightarrow> Inr kBinary
    | COLUMN_DATA_TYPE_TIMESTAMP \<Rightarrow> Inr kDateTime
    | _ \<Rightarrow> Inl StdInvalidArgument)"

lemma distinct_column_type_names: "distinct kColumnDataTypeNames"
  by code_simp

lemma all_column_types_code:
  "column_type_code t < length kColumnDataTypeNames \<Longrightarrow> all_column_types ! column_type_code t = t"
  by (cases t) (simp_all add: all_column_types_def column_type_code_def kColumnDataTypeNames_def)

lemma column_type_of_name:
  assumes "getColumnDataTypeName t = Inr s"
  shows "getColumnDataTypeByName s = Inr t"
proof -
  from assms have t: "column_type_code t < length kColumnDataTypeNames"
    and s: "s = kColumnDataTypeNames ! column_type_code t"
    by (auto simp: getColumnDataTypeName_def split: if_splits)
  have "length kColumnDataTypeNames = length all_column_types"
    by (simp add: kColumnDataTypeNames_def all_column_types_def)
  with t have "map_of (zip kColumnDataTypeNames all_column_types) s = Some t"
    unfolding s by (simp add: map_of_zip_nth distinct_column_type_names all_column_types_code)
  then show ?thesis by (simp add: getColumnDataTypeByName_def)
qed

lemma column_type_unknown_iff:
  "convertColumnDataTypeToVariantType c = Inr kNull \<longleftrightarrow> c = COLUMN_DATA_TYPE_UNKNOWN"
  by (cases c) (simp_all add: convertColumnDataTypeToVariantType_def)

end
