(* ===== verification/VariantCompare.thy ===== *)
theory VariantCompare
  imports Variant
begin

text \<open>
  Comparisons of values of different types (\<open>compatibleEqual\<close> to \<open>compatibleGreaterOrEqual\<close> of
  \<open>Variant_Comparisons.cpp\<close>) with what they call: the comparison of UTF-8 strings (\<open>Utf8String.cpp\<close>)
  and the conversion of a string to a date (\<open>Variant_Conversions.cpp\<close>).  The five functions have one
  structure and differ in the operator.  The properties are about them and about the operators of
  theory Variant.
\<close>

section \<open>UTF-8 strings\<close>

text \<open>\<open>next\<close> decodes the first character of a string and gives the rest, or nothing when the bytes are not
  valid UTF-8.  The loop ends only if it consumes something.\<close>

partial_function (option) utf8_strcmp ::
  "(bytes \<Rightarrow> (nat \<times> bytes) option) \<Rightarrow> bytes \<Rightarrow> bytes \<Rightarrow> (variant_error + int) option" where
  "utf8_strcmp nxt s1 s2 =
    (if s1 = [] then Some (Inr (if s2 = [] then 0 else -1))
     else if s2 = [] then Some (Inr 1)
     else case nxt s1 of
       None \<Rightarrow> Some (Inl Utf8Error)
     | Some (symb1, r1) \<Rightarrow>
        (case nxt s2 of
           None \<Rightarrow> Some (Inl Utf8Error)
         | Some (symb2, r2) \<Rightarrow>
             if symb1 < symb2 then Some (Inr (-1))
             else if symb1 > symb2 then Some (Inr 1)
             else utf8_strcmp nxt r1 r2))"

text \<open>What the comparison is meant to be: the order of the sequences of characters.\<close>

inductive utf8_decodes :: "(bytes \<Rightarrow> (nat \<times> bytes) option) \<Rightarrow> bytes \<Rightarrow> nat list \<Rightarrow> bool"
  for nxt where
  decodes_Nil: "utf8_decodes nxt [] []"
| decodes_Cons: "s \<noteq> [] \<Longrightarrow> nxt s = Some (c, r) \<Longrightarrow> utf8_decodes nxt r cs \<Longrightarrow>
    utf8_decodes nxt s (c # cs)"

inductive_cases decodes_NilE: "utf8_decodes nxt s []"
inductive_cases decodes_ConsE: "utf8_decodes nxt s (c # cs)"

fun lex_sign :: "nat list \<Rightarrow> nat list \<Rightarrow> int" where
  "lex_sign [] ys = (if ys = [] then 0 else -1)"
| "lex_sign (x # xs) [] = 1"
| "lex_sign (x # xs) (y # ys) = (if x < y then -1 else if x > y then 1 else lex_sign xs ys)"

section \<open>Dates in strings\<close>

text \<open>What the code takes from libraries: the UTF-8 decoder, parsing, formatting and calendar of the date library,
  the broken-down time of a time stamp, and the hexadecimal encoder.\<close>

record tm =
  tm_sec :: int
  tm_min :: int
  tm_hour :: int
  tm_mday :: int
  tm_mon :: int
  tm_year :: int
  tm_wday :: int

record Libs =
  utf8_next :: "bytes \<Rightarrow> (nat \<times> bytes) option"
  date_scan :: "string \<Rightarrow> string \<Rightarrow> int option"
  date_ymd :: "int \<Rightarrow> int \<times> nat \<times> nat"
  date_weekday :: "int \<times> nat \<times> nat \<Rightarrow> nat"
  date_print :: "string \<Rightarrow> int \<Rightarrow> string"
  gmtime_r :: "int \<Rightarrow> tm option"
  hex_lower :: "bytes \<Rightarrow> bytes"

definition chars_of :: "bytes \<Rightarrow> string" where
  "chars_of s = map (\<lambda>b. char_of (unat b)) s"

definition bytes_of :: "string \<Rightarrow> bytes" where
  "bytes_of s = map (\<lambda>c. of_nat (of_char c)) s"

definition toupper :: "uint8 \<Rightarrow> uint8" where
  "toupper c = (if 97 \<le> c \<and> c \<le> 122 then c - 32 else c)"

definition kDefaultDateTimeFormat :: string where "kDefaultDateTimeFormat = ''%Y-%m-%d %H:%M:%S''"
definition kDefaultDateTimeFormatAMPM :: string where
  "kDefaultDateTimeFormatAMPM = ''%Y-%m-%d %I:%M:%S %p''"
definition kDefaultDateFormat :: string where "kDefaultDateFormat = ''%Y-%m-%d''"

text \<open>77, 65 and 80 are the letters M, A and P.\<close>

definition getDateTimeFormat :: "bytes \<Rightarrow> variant_error + string" where
  "getDateTimeFormat s =
    (let strLen = length s in
     if strLen = 0 then Inl InvalidArgument
     else if strLen > kMaxDateStringLength then
       (if toupper (s ! (strLen - 1)) = 77 \<and> (let c = toupper (s ! (strLen - 2)) in c = 65 \<or> c = 80)
        then Inr kDefaultDateTimeFormatAMPM else Inr kDefaultDateTimeFormat)
     else Inr kDefaultDateFormat)"

definition stringToDateTime ::
  "Libs \<Rightarrow> VariantType \<Rightarrow> bytes \<Rightarrow> string \<Rightarrow> variant_error + RawDateTime" where
  "stringToDateTime L t s fmt =
    (case rawdatetime_parse (date_scan L) (date_ymd L) (date_weekday L) (Some (chars_of s)) (length s) fmt of
       Inl _ \<Rightarrow> Inl (VariantTypeCastError t kDateTime)
     | Inr dt \<Rightarrow> Inr dt)"

text \<open>\<open>asDateTime\<close> on a string operand with no format given.\<close>

definition string_asDateTime :: "Libs \<Rightarrow> bytes \<Rightarrow> variant_error + RawDateTime" where
  "string_asDateTime L s =
    (case getDateTimeFormat s of Inl e \<Rightarrow> Inl e | Inr fmt \<Rightarrow> stringToDateTime L kString s fmt)"

section \<open>Comparisons across types\<close>

text \<open>The operands of an integer comparison after the casts in the code.  A 32-bit or 64-bit unsigned left operand is
  reinterpreted as signed when the right operand is signed; an unsigned right operand likewise, but a
  32-bit one not against a 64-bit left operand.\<close>

definition left_operand :: "Variant \<Rightarrow> VariantType \<Rightarrow> int" where
  "left_operand v u = (case v of
      VUInt32 a \<Rightarrow> (if u \<in> {kInt8, kInt16, kInt32, kInt64} then sint a else uint a)
    | VUInt64 a \<Rightarrow> (if u \<in> {kInt8, kInt16, kInt32, kInt64} then sint a else uint a)
    | _ \<Rightarrow> intValue v)"

definition right_operand :: "VariantType \<Rightarrow> Variant \<Rightarrow> int" where
  "right_operand t w = (case w of
      VUInt32 b \<Rightarrow> (if t \<in> {kInt8, kInt16, kInt32} then sint b else uint b)
    | VUInt64 b \<Rightarrow> (if t \<in> {kInt8, kInt16, kInt32, kInt64} then sint b else uint b)
    | _ \<Rightarrow> intValue w)"

text \<open>The rows of the code whose left operand is an integer.  Against a single precision number, 8-bit and 16-bit
  integers are compared in single precision and the others in double precision.\<close>

definition compat_integer :: "FPU \<Rightarrow> cmp_op \<Rightarrow> Variant \<Rightarrow> Variant \<Rightarrow> variant_error + bool" where
  "compat_integer F op v w =
    (let t = getValueType v; u = getValueType w in
     if isIntegerType u then Inr (int_rel op (left_operand v u) (right_operand t w))
     else case w of
       VFloat b \<Rightarrow>
         (if t \<in> {kInt8, kUInt8, kInt16, kUInt16}
          then Inr (f32_rel F op (f32_of_int F (intValue v)) b)
          else Inr (f64_rel F op (f64_of_int F (intValue v)) (f64_of_f32 F b)))
     | VDouble b \<Rightarrow> Inr (f64_rel F op (f64_of_int F (intValue v)) b)
     | _ \<Rightarrow> Inl (VariantTypeCastError t u))"

definition compat_floating :: "FPU \<Rightarrow> cmp_op \<Rightarrow> Variant \<Rightarrow> Variant \<Rightarrow> variant_error + bool" where
  "compat_floating F op v w =
    (let u = getValueType w in
     case v of
       VFloat a \<Rightarrow>
         (if u \<in> {kInt8, kUInt8, kInt16, kUInt16}
          then Inr (f32_rel F op a (f32_of_int F (intValue w)))
          else if isIntegerType u then Inr (f64_rel F op (f64_of_f32 F a) (f64_of_int F (intValue w)))
          else case w of
            VFloat b \<Rightarrow> Inr (f32_rel F op a b)
          | VDouble b \<Rightarrow> Inr (f64_rel F op (f64_of_f32 F a) b)
          | _ \<Rightarrow> Inl (VariantTypeCastError kFloat u))
     | VDouble a \<Rightarrow>
         (if isIntegerType u then Inr (f64_rel F op a (f64_of_int F (intValue w)))
          else case w of
            VFloat b \<Rightarrow> Inr (f64_rel F op a (f64_of_f32 F b))
          | VDouble b \<Rightarrow> Inr (f64_rel F op a b)
          | _ \<Rightarrow> Inl (VariantTypeCastError kDouble u))
     | _ \<Rightarrow> Inl (VariantTypeCastError u (getValueType v)))"

text \<open>The rows for strings, binary values and dates, and the default branch.\<close>

definition compat_other :: "Libs \<Rightarrow> cmp_op \<Rightarrow> Variant \<Rightarrow> Variant \<Rightarrow> variant_error + bool" where
  "compat_other L op v w = (case (v, w) of
      (VString a, VString b) \<Rightarrow>
        (case utf8_strcmp (utf8_next L) a b of
           None \<Rightarrow> Inl NonTermination
         | Some (Inl e) \<Rightarrow> Inl e
         | Some (Inr r) \<Rightarrow> Inr (int_rel op r 0))
    | (VString a, VDateTime b) \<Rightarrow>
        (case string_asDateTime L a of Inl e \<Rightarrow> Inl e | Inr dt \<Rightarrow> Inr (datetime_rel op dt b))
    | (VBinary a, VBinary b) \<Rightarrow> Inr (buffer_rel op a b)
    | (VDateTime a, VDateTime b) \<Rightarrow> Inr (datetime_rel op a b)
    | (VDateTime a, VString b) \<Rightarrow>
        (case string_asDateTime L b of Inl e \<Rightarrow> Inl e | Inr dt \<Rightarrow> Inr (datetime_rel op a dt))
    | _ \<Rightarrow> Inl (VariantTypeCastError (getValueType w) (getValueType v)))"

definition compat_rows ::
  "(Variant \<Rightarrow> Variant \<Rightarrow> variant_error + bool) \<Rightarrow> (Variant \<Rightarrow> Variant \<Rightarrow> variant_error + bool) \<Rightarrow>
   (Variant \<Rightarrow> Variant \<Rightarrow> variant_error + bool) \<Rightarrow> Variant \<Rightarrow> Variant \<Rightarrow> variant_error + bool" where
  "compat_rows integers floats others v w =
    (if isIntegerType (getValueType v) then integers v w
     else if isFloatingPointType (getValueType v) then floats v w
     else others v w)"

definition equal_integer :: "FPU \<Rightarrow> Variant \<Rightarrow> Variant \<Rightarrow> variant_error + bool" where
  "equal_integer F = compat_integer F CmpEq"

definition equal_floating :: "FPU \<Rightarrow> Variant \<Rightarrow> Variant \<Rightarrow> variant_error + bool" where
  "equal_floating F = compat_floating F CmpEq"

definition compatibleEqual :: "FPU \<Rightarrow> Libs \<Rightarrow> bool \<Rightarrow> Variant \<Rightarrow> Variant \<Rightarrow> variant_error + bool" where
  "compatibleEqual F L same v w =
    (if same then Inr True
     else case v of
       VNull \<Rightarrow> Inr False
     | VBool a \<Rightarrow>
         (case w of VBool b \<Rightarrow> Inr (a = b) | _ \<Rightarrow> Inl (VariantTypeCastError (getValueType w) kBool))
     | _ \<Rightarrow> compat_rows (equal_integer F) (equal_floating F) (compat_other L CmpEq) v w)"

definition less_integer :: "FPU \<Rightarrow> Variant \<Rightarrow> Variant \<Rightarrow> variant_error + bool" where
  "less_integer F = compat_integer F CmpLt"

definition less_floating :: "FPU \<Rightarrow> Variant \<Rightarrow> Variant \<Rightarrow> variant_error + bool" where
  "less_floating F = compat_floating F CmpLt"

definition compatibleLess :: "FPU \<Rightarrow> Libs \<Rightarrow> bool \<Rightarrow> Variant \<Rightarrow> Variant \<Rightarrow> variant_error + bool" where
  "compatibleLess F L same v w =
    (if same then Inr False
     else compat_rows (less_integer F) (less_floating F) (compat_other L CmpLt) v w)"

definition less_equal_integer :: "FPU \<Rightarrow> Variant \<Rightarrow> Variant \<Rightarrow> variant_error + bool" where
  "less_equal_integer F = compat_integer F CmpLe"

definition less_equal_floating :: "FPU \<Rightarrow> Variant \<Rightarrow> Variant \<Rightarrow> variant_error + bool" where
  "less_equal_floating F = compat_floating F CmpLe"

definition compatibleLessOrEqual ::
  "FPU \<Rightarrow> Libs \<Rightarrow> bool \<Rightarrow> Variant \<Rightarrow> Variant \<Rightarrow> variant_error + bool" where
  "compatibleLessOrEqual F L same v w =
    (if same then Inr True
     else compat_rows (less_equal_integer F) (less_equal_floating F) (compat_other L CmpLe) v w)"

definition greater_integer :: "FPU \<Rightarrow> Variant \<Rightarrow> Variant \<Rightarrow> variant_error + bool" where
  "greater_integer F = compat_integer F CmpGt"

definition greater_floating :: "FPU \<Rightarrow> Variant \<Rightarrow> Variant \<Rightarrow> variant_error + bool" where
  "greater_floating F = compat_floating F CmpGt"

definition compatibleGreater :: "FPU \<Rightarrow> Libs \<Rightarrow> bool \<Rightarrow> Variant \<Rightarrow> Variant \<Rightarrow> variant_error + bool" where
  "compatibleGreater F L same v w =
    (if same then Inr False
     else compat_rows (greater_integer F) (greater_floating F) (compat_other L CmpGt) v w)"

definition greater_equal_integer :: "FPU \<Rightarrow> Variant \<Rightarrow> Variant \<Rightarrow> variant_error + bool" where
  "greater_equal_integer F = compat_integer F CmpGe"

definition greater_equal_floating :: "FPU \<Rightarrow> Variant \<Rightarrow> Variant \<Rightarrow> variant_error + bool" where
  "greater_equal_floating F = compat_floating F CmpGe"

definition compatibleGreaterOrEqual ::
  "FPU \<Rightarrow> Libs \<Rightarrow> bool \<Rightarrow> Variant \<Rightarrow> Variant \<Rightarrow> variant_error + bool" where
  "compatibleGreaterOrEqual F L same v w =
    (if same then Inr True
     else compat_rows (greater_equal_integer F) (greater_equal_floating F) (compat_other L CmpGe) v w)"

lemmas compatible_defs =
  compatibleLess_def compatibleLessOrEqual_def compatibleGreater_def
  compatibleGreaterOrEqual_def equal_integer_def less_integer_def less_equal_integer_def
  greater_integer_def greater_equal_integer_def equal_floating_def less_floating_def
  less_equal_floating_def greater_floating_def greater_equal_floating_def

section \<open>Sample libraries\<close>

text \<open>A floating-point unit that holds integers only, as their own bit patterns, and a decoder of one-byte
  characters: instances at which the properties are evaluated.\<close>

definition sample_fpu :: FPU where
  "sample_fpu = \<lparr>
    f32_rel = (\<lambda>op a b. int_rel op (sint a) (sint b)), f64_rel = (\<lambda>op a b. int_rel op (sint a) (sint b)),
    f32_op = (\<lambda>op a b. a + b), f64_op = (\<lambda>op a b. a + b), f32_neg = uminus, f64_neg = uminus,
    f32_of_int = word_of_int, f64_of_int = word_of_int, f64_of_f32 = scast, f32_of_f64 = scast,
    f32_trunc = (\<lambda>a. Some (sint a)), f64_trunc = (\<lambda>a. Some (sint a)),
    f32_scan = (\<lambda>_. None), f64_scan = (\<lambda>_. None), f64_print8 = (\<lambda>_. [])\<rparr>"

fun ascii_next :: "bytes \<Rightarrow> (nat \<times> bytes) option" where
  "ascii_next [] = None"
| "ascii_next (b # bs) = (if b < 128 then Some (unat b, bs) else None)"

definition sample_libs :: Libs where
  "sample_libs = \<lparr>utf8_next = ascii_next, date_scan = (\<lambda>_ _. None), date_ymd = (\<lambda>_. (1970, 1, 1)),
    date_weekday = (\<lambda>_. 4), date_print = (\<lambda>fmt _. fmt), gmtime_r = (\<lambda>_. None), hex_lower = (\<lambda>s. s)\<rparr>"

section \<open>Strict total orders\<close>

text \<open>The contract that the payload types' less operators keep and that the value's own operators keep on the
  values of ordinary types.\<close>

locale strict_total =
  fixes D :: "'a \<Rightarrow> bool" and lt :: "'a \<Rightarrow> 'a \<Rightarrow> bool"
  assumes lt_irrefl: "D a \<Longrightarrow> \<not> lt a a"
    and lt_trans: "D a \<Longrightarrow> D b \<Longrightarrow> D c \<Longrightarrow> lt a b \<Longrightarrow> lt b c \<Longrightarrow> lt a c"
    and lt_total: "D a \<Longrightarrow> D b \<Longrightarrow> lt a b \<or> a = b \<or> lt b a"
begin

lemma lt_asym: "D a \<Longrightarrow> D b \<Longrightarrow> lt a b \<Longrightarrow> \<not> lt b a"
  using lt_irrefl lt_trans by blast

lemma not_lt: "D a \<Longrightarrow> D b \<Longrightarrow> \<not> lt b a \<longleftrightarrow> lt a b \<or> a = b"
  using lt_asym lt_irrefl lt_total by blast

end

lemma bytes_lt_irrefl: "\<not> bytes_lt a a"
  by (induction a) auto

lemma bytes_lt_trans: "bytes_lt a b \<Longrightarrow> bytes_lt b c \<Longrightarrow> bytes_lt a c"
proof (induction a b arbitrary: c rule: bytes_lt.induct)
  case (1 bs)
  then show ?case by (cases bs; cases c) auto
next
  case (3 a as b bs)
  then show ?case by (cases c) auto
qed simp

lemma bytes_lt_total: "bytes_lt a b \<or> a = b \<or> bytes_lt b a"
proof (induction a b rule: bytes_lt.induct)
  case (1 bs)
  then show ?case by (cases bs) auto
qed auto

interpretation byte_strings: strict_total "\<lambda>_. True" bytes_lt
  by unfold_locales (use bytes_lt_total in \<open>auto simp: bytes_lt_irrefl intro: bytes_lt_trans\<close>)

interpretation buffers: strict_total "\<lambda>_. True" buffer_lt
proof unfold_locales
  fix a b c :: bytes
  show "\<not> buffer_lt a a" by (simp add: buffer_lt_def bytes_lt_irrefl)
  show "buffer_lt a b \<Longrightarrow> buffer_lt b c \<Longrightarrow> buffer_lt a c"
    using bytes_lt_trans by (auto simp: buffer_lt_def split: if_splits)
  show "buffer_lt a b \<or> a = b \<or> buffer_lt b a"
    using bytes_lt_total [of a b] by (auto simp: buffer_lt_def)
qed

section \<open>Order of the operators\<close>

text \<open>Values of the types whose operators look at the payload and that are neither floating-point numbers nor
  streams.\<close>

definition ordinary :: "Variant \<Rightarrow> bool" where
  "ordinary v \<longleftrightarrow> isIntegerType (getValueType v) \<or> getValueType v \<in> {kBool, kString, kBinary}"

lemma value_type_simps [simp]:
  "getValueType VNull = kNull" "getValueType (VBool b) = kBool" "getValueType (VInt8 a) = kInt8"
  "getValueType (VUInt8 a) = kUInt8" "getValueType (VInt16 c) = kInt16"
  "getValueType (VUInt16 c) = kUInt16" "getValueType (VInt32 d) = kInt32"
  "getValueType (VUInt32 d) = kUInt32" "getValueType (VInt64 e) = kInt64"
  "getValueType (VUInt64 e) = kUInt64" "getValueType (VFloat d) = kFloat"
  "getValueType (VDouble e) = kDouble" "getValueType (VDateTime dt) = kDateTime"
  "getValueType (VString s) = kString" "getValueType (VBinary s) = kBinary"
  "getValueType (VClob l) = kClob" "getValueType (VBlob l) = kBlob"
  by (simp_all add: getValueType_def)

lemma value_type_iff:
  "getValueType v = kNull \<longleftrightarrow> v = VNull"
  "getValueType v = kBool \<longleftrightarrow> (\<exists>x. v = VBool x)"
  "getValueType v = kInt8 \<longleftrightarrow> (\<exists>x. v = VInt8 x)"
  "getValueType v = kUInt8 \<longleftrightarrow> (\<exists>x. v = VUInt8 x)"
  "getValueType v = kInt16 \<longleftrightarrow> (\<exists>x. v = VInt16 x)"
  "getValueType v = kUInt16 \<longleftrightarrow> (\<exists>x. v = VUInt16 x)"
  "getValueType v = kInt32 \<longleftrightarrow> (\<exists>x. v = VInt32 x)"
  "getValueType v = kUInt32 \<longleftrightarrow> (\<exists>x. v = VUInt32 x)"
  "getValueType v = kInt64 \<longleftrightarrow> (\<exists>x. v = VInt64 x)"
  "getValueType v = kUInt64 \<longleftrightarrow> (\<exists>x. v = VUInt64 x)"
  "getValueType v = kFloat \<longleftrightarrow> (\<exists>x. v = VFloat x)"
  "getValueType v = kDouble \<longleftrightarrow> (\<exists>x. v = VDouble x)"
  "getValueType v = kDateTime \<longleftrightarrow> (\<exists>x. v = VDateTime x)"
  "getValueType v = kString \<longleftrightarrow> (\<exists>x. v = VString x)"
  "getValueType v = kBinary \<longleftrightarrow> (\<exists>x. v = VBinary x)"
  "getValueType v = kClob \<longleftrightarrow> (\<exists>x. v = VClob x)"
  "getValueType v = kBlob \<longleftrightarrow> (\<exists>x. v = VBlob x)"
  by (cases v; simp)+

lemma ordinary_cases:
  assumes "ordinary v"
  obtains (B) b where "v = VBool b" | (I8) a where "v = VInt8 a" | (U8) a where "v = VUInt8 a"
    | (I16) a where "v = VInt16 a" | (U16) a where "v = VUInt16 a" | (I32) a where "v = VInt32 a"
    | (U32) a where "v = VUInt32 a" | (I64) a where "v = VInt64 a" | (U64) a where "v = VUInt64 a"
    | (S) s where "v = VString s" | (Bin) s where "v = VBinary s"
  using assms by (cases v) (auto simp: ordinary_def isIntegerType_def)

abbreviation payload_lt :: "FPU \<Rightarrow> Variant \<Rightarrow> Variant \<Rightarrow> bool" where
  "payload_lt F \<equiv> payload_rel F CmpLt lob_lt False"

lemmas payload_simps = payload_rel_def int_rel_def string_rel_def buffer_rel_def buffer_eq_def

lemma payload_lt_irrefl: "ordinary v \<Longrightarrow> \<not> payload_lt F v v"
  by (erule ordinary_cases) (auto simp: payload_simps bytes_lt_irrefl buffers.lt_irrefl)

lemma payload_lt_trans:
  assumes "ordinary v" and "getValueType w = getValueType v" and "getValueType x = getValueType v"
    and "payload_lt F v w" and "payload_lt F w x"
  shows "payload_lt F v x"
  using assms(1)
  by (cases rule: ordinary_cases)
    (use assms(2-) in \<open>auto simp: payload_simps value_type_iff of_bool_def
       split: if_splits intro: byte_strings.lt_trans buffers.lt_trans\<close>)

lemma sint_antisym: "\<not> sint a < sint b \<Longrightarrow> \<not> sint b < sint a \<Longrightarrow> a = b"
  by (rule signed_word_eqI [where 'a = int]) linarith

lemma uint_antisym: "\<not> uint a < uint b \<Longrightarrow> \<not> uint b < uint a \<Longrightarrow> a = b"
  by (rule unsigned_word_eqI [where 'a = int]) linarith

lemma bytes_antisym: "\<not> bytes_lt a b \<Longrightarrow> \<not> bytes_lt b a \<Longrightarrow> a = b"
  using bytes_lt_total by blast

lemma buffer_antisym: "\<not> buffer_lt a b \<Longrightarrow> \<not> buffer_lt b a \<Longrightarrow> a = b"
  using buffers.lt_total by blast

lemma payload_lt_total:
  assumes "ordinary v" and "getValueType w = getValueType v"
  shows "payload_lt F v w \<or> v = w \<or> payload_lt F w v"
  using assms(1)
  by (cases rule: ordinary_cases)
    (use assms(2) in \<open>auto simp: payload_simps value_type_iff of_bool_def
       intro: sint_antisym uint_antisym bytes_antisym buffer_antisym\<close>)

lemma variant_lt_iff:
  "variant_lt F False v w \<longleftrightarrow>
    getValueType v < getValueType w \<or> getValueType v = getValueType w \<and> payload_lt F v w"
  by (auto simp: variant_lt_def)

interpretation variants: strict_total ordinary "variant_lt F False" for F
proof unfold_locales
  fix u v w
  assume u: "ordinary u"
  show "\<not> variant_lt F False u u"
    using u by (simp add: variant_lt_def payload_lt_irrefl)
  show "variant_lt F False u w" if "variant_lt F False u v" and "variant_lt F False v w"
    using that payload_lt_trans [OF u, of v w F] less_trans [of "getValueType u" "getValueType v"]
    unfolding variant_lt_iff by metis
  show "variant_lt F False u v \<or> u = v \<or> variant_lt F False v u"
    using less_linear [of "getValueType u" "getValueType v"] payload_lt_total [OF u, of v F]
    unfolding variant_lt_iff by metis
qed

lemma payload_rel_converse:
  assumes "ordinary v" and "getValueType w = getValueType v"
  shows "(payload_rel F CmpEq f d v w \<longleftrightarrow> v = w) \<and> (payload_rel F CmpNe f d v w \<longleftrightarrow> v \<noteq> w) \<and>
    (payload_rel F CmpLe f d v w \<longleftrightarrow> \<not> payload_lt F w v) \<and>
    (payload_rel F CmpGt f d v w \<longleftrightarrow> payload_lt F w v) \<and>
    (payload_rel F CmpGe f d v w \<longleftrightarrow> \<not> payload_lt F v w)"
  using assms(1)
  by (cases rule: ordinary_cases)
    (use assms(2) in \<open>auto simp: payload_simps value_type_iff not_less of_bool_def split: if_splits
       dest: signed_word_eqI [where 'a = int] unsigned_word_eqI [where 'a = int]\<close>)

lemma operators_converse:
  assumes "ordinary v" and "ordinary w"
  shows "variant_eq F False v w \<longleftrightarrow> v = w" and "variant_ne F False v w \<longleftrightarrow> v \<noteq> w"
    and "variant_gt F False v w \<longleftrightarrow> variant_lt F False w v"
    and "variant_le F False v w \<longleftrightarrow> \<not> variant_lt F False w v"
    and "variant_ge F False v w \<longleftrightarrow> \<not> variant_lt F False v w"
  using payload_rel_converse [OF assms(1), of w]
  by (auto simp: variant_operator_defs)

text \<open>C16: On booleans, integers, strings and binary values the six operators are one strict total order: equality is
  equality of type and payload, the inequalities are each other's converses, and the order is
  irreflexive, transitive and total.\<close>

theorem operators_total_order:
  assumes "ordinary u" and "ordinary v" and "ordinary w"
  shows "(variant_eq F False u v \<longleftrightarrow> u = v) \<and> (variant_ne F False u v \<longleftrightarrow> u \<noteq> v) \<and>
    (variant_gt F False u v \<longleftrightarrow> variant_lt F False v u) \<and>
    (variant_le F False u v \<longleftrightarrow> variant_lt F False u v \<or> u = v) \<and>
    (variant_ge F False u v \<longleftrightarrow> variant_lt F False v u \<or> u = v) \<and>
    \<not> variant_lt F False u u \<and>
    (variant_lt F False u v \<or> u = v \<or> variant_lt F False v u) \<and>
    (variant_lt F False u v \<longrightarrow> variant_lt F False v w \<longrightarrow> variant_lt F False u w)"
  using variants.not_lt [OF assms(1,2)] variants.not_lt [OF assms(2,1)] variants.lt_irrefl [OF assms(1)]
    variants.lt_trans [OF assms] variants.lt_total [OF assms(1,2)]
  by (auto simp: operators_converse assms)

theorem operators_total_order_witness:
  "variant_lt sample_fpu False (VInt8 (-1)) (VInt8 1) \<and> variant_lt sample_fpu False (VInt8 1) (VString [65]) \<and>
   variant_lt sample_fpu False (VInt8 (-1)) (VString [65])"
proof -
  have "variant_lt sample_fpu False (VInt8 (-1)) (VInt8 1)"
    and "variant_lt sample_fpu False (VInt8 1) (VString [65])"
    by (simp_all add: variant_lt_def payload_rel_def int_rel_def less_VariantType_def type_code_def)
  then show ?thesis
    using operators_total_order [of "VInt8 (-1)" "VInt8 1" "VString [65]" sample_fpu]
    by (simp add: ordinary_def isIntegerType_def)
qed

text \<open>The operators never look at dates: any two date values are equal for ==, and none of <, <=, > and >=
  holds between them, not even <= between equal dates.\<close>

lemma operators_ignore_dates:
  "variant_eq F False (VDateTime a) (VDateTime b) \<and> \<not> variant_ne F False (VDateTime a) (VDateTime b) \<and>
   \<not> variant_lt F False (VDateTime a) (VDateTime b) \<and> \<not> variant_le F False (VDateTime a) (VDateTime b) \<and>
   \<not> variant_gt F False (VDateTime a) (VDateTime b) \<and> \<not> variant_ge F False (VDateTime a) (VDateTime b)"
  by (simp add: variant_operator_defs payload_rel_def)

section \<open>Integers of different types\<close>

lemma sint_if:
  fixes a :: "'a::len word"
  shows "sint a = (if uint a < 2 ^ (LENGTH('a) - Suc 0) then uint a else uint a - 2 ^ LENGTH('a))"
proof -
  let ?n = "LENGTH('a) - Suc 0"
  have n: "Suc ?n = LENGTH('a)" and p: "(2::int) ^ LENGTH('a) = 2 * 2 ^ ?n"
    by (simp_all flip: power_Suc)
  have "uint a div 2 ^ ?n = (if uint a < 2 ^ ?n then 0 else 1)"
    using uint_bounded [of a] unfolding p
    by (auto simp: div_pos_pos_trivial intro: int_div_pos_eq [where r = "uint a - 2 ^ ?n"])
  then have "bit (uint a) ?n \<longleftrightarrow> \<not> uint a < 2 ^ ?n"
    by (simp add: bit_iff_odd)
  moreover have "take_bit LENGTH('a) (uint a) = uint a"
    using uint_bounded [of a] by (simp add: take_bit_int_eq_self)
  ultimately show ?thesis
    by (simp add: sint_uint signed_take_bit_eq_take_bit_minus n del: bit_uint_iff)
qed

text \<open>The operands that no cast changes: an unsigned 32-bit or 64-bit operand is below the sign bit whenever the other
  operand is signed.\<close>

definition casts_harmless :: "Variant \<Rightarrow> Variant \<Rightarrow> bool" where
  "casts_harmless v w \<longleftrightarrow>
    (isSignedType (getValueType w) \<longrightarrow> getValueType v = kUInt32 \<longrightarrow> intValue v < 2 ^ 31) \<and>
    (isSignedType (getValueType w) \<longrightarrow> getValueType v = kUInt64 \<longrightarrow> intValue v < 2 ^ 63) \<and>
    (isSignedType (getValueType v) \<longrightarrow> getValueType w = kUInt32 \<longrightarrow> intValue w < 2 ^ 31) \<and>
    (isSignedType (getValueType v) \<longrightarrow> getValueType w = kUInt64 \<longrightarrow> intValue w < 2 ^ 63)"

lemma operands_exact:
  assumes "casts_harmless v w"
  shows "left_operand v (getValueType w) = intValue v" and "right_operand (getValueType v) w = intValue w"
proof -
  have "getValueType w \<in> {kInt8, kInt16, kInt32, kInt64} \<Longrightarrow> isSignedType (getValueType w)"
    by (auto simp: isSignedType_def)
  with assms show "left_operand v (getValueType w) = intValue v"
    by (cases v) (auto simp: casts_harmless_def left_operand_def intValue_def sint_if)
  have "getValueType v \<in> {kInt8, kInt16, kInt32, kInt64} \<Longrightarrow> isSignedType (getValueType v)"
    by (auto simp: isSignedType_def)
  with assms show "right_operand (getValueType v) w = intValue w"
    by (cases w) (auto simp: casts_harmless_def right_operand_def intValue_def sint_if)
qed

lemma compat_rows_integer:
  assumes "isIntegerType (getValueType v)" and "isIntegerType (getValueType w)"
  shows "compat_rows (compat_integer F op) f g v w =
    Inr (int_rel op (left_operand v (getValueType w)) (right_operand (getValueType v) w))"
  using assms by (simp add: compat_rows_def compat_integer_def Let_def)

lemma integer_not_null_bool:
  "isIntegerType (getValueType v) \<Longrightarrow> compatibleEqual F L False v w =
    compat_rows (compat_integer F CmpEq) (compat_floating F CmpEq) (compat_other L CmpEq) v w"
  by (cases v) (simp_all add: compatibleEqual_def compatible_defs isIntegerType_def)

lemma integers_compare:
  assumes "isIntegerType (getValueType v)" and "isIntegerType (getValueType w)"
    and "casts_harmless v w"
  shows "compatibleEqual F L False v w = Inr (intValue v = intValue w) \<and>
    compatibleLess F L False v w = Inr (intValue v < intValue w) \<and>
    compatibleLessOrEqual F L False v w = Inr (intValue v \<le> intValue w) \<and>
    compatibleGreater F L False v w = Inr (intValue v > intValue w) \<and>
    compatibleGreaterOrEqual F L False v w = Inr (intValue v \<ge> intValue w)"
  by (simp add: integer_not_null_bool assms(1) operands_exact assms(3) int_rel_def
      compatible_defs compat_rows_integer [OF assms(1,2)])

text \<open>Integers of any two types compare by their numbers, provided an unsigned 32-bit or 64-bit number is below
  its sign bit when it meets a signed one.\<close>

theorem compatible_integers_exact:
  assumes "isIntegerType (getValueType v)" and "isIntegerType (getValueType w)"
    and "casts_harmless v w"
  shows "compatibleEqual F L False v w = Inr (intValue v = intValue w) \<and>
    compatibleLess F L False v w = Inr (intValue v < intValue w) \<and>
    compatibleLessOrEqual F L False v w = Inr (intValue v \<le> intValue w) \<and>
    compatibleGreater F L False v w = Inr (intValue v > intValue w) \<and>
    compatibleGreaterOrEqual F L False v w = Inr (intValue v \<ge> intValue w)"
  using assms by (rule integers_compare)

theorem compatible_integers_exact_witness:
  "compatibleLess sample_fpu sample_libs False (VInt8 (-1)) (VUInt64 5) = Inr True"
  using compatible_integers_exact [of "VInt8 (-1)" "VUInt64 5" sample_fpu sample_libs]
  by (simp add: isIntegerType_def casts_harmless_def isSignedType_def intValue_def)

text \<open>An unsigned 32-bit number above the sign bit is below zero for these comparisons, and equality is not
  symmetric: as the right operand it equals the 64-bit integer of the same number, as the left operand it
  does not.\<close>

theorem compatible_unsigned_reinterpreted:
  assumes "2 ^ 31 \<le> uint a"
  shows "compatibleLess F L False (VUInt32 a) (VInt8 0) = Inr True \<and>
    compatibleEqual F L False (VUInt32 a) (VInt64 (ucast a)) = Inr False \<and>
    compatibleEqual F L False (VInt64 (ucast a)) (VUInt32 a) = Inr True"
proof -
  have "sint (ucast a :: uint64) = uint a"
    using uint_bounded [of a] by (simp add: sint_if unsigned_ucast_eq take_bit_int_eq_self)
  moreover have "sint a = uint a - 4294967296"
    using assms by (simp add: sint_if)
  ultimately show ?thesis
    using uint_bounded [of a]
    by (simp add: integer_not_null_bool isIntegerType_def compatible_defs compat_rows_integer
        left_operand_def right_operand_def intValue_def int_rel_def)
qed

theorem compatible_unsigned_reinterpreted_witness:
  "compatibleLess sample_fpu sample_libs False (VUInt32 4294967295) (VInt8 0) = Inr True"
  using compatible_unsigned_reinterpreted [of 4294967295 sample_fpu sample_libs] by simp

section \<open>Comparison of UTF-8 strings\<close>

lemma utf8_strcmp_decodes:
  assumes "utf8_decodes nxt s1 cs" and "utf8_decodes nxt s2 ds"
  shows "utf8_strcmp nxt s1 s2 = Some (Inr (lex_sign cs ds))"
  using assms
proof (induction arbitrary: s2 ds)
  case decodes_Nil
  then show ?case by (cases rule: utf8_decodes.cases) (simp_all add: utf8_strcmp.simps)
next
  case (decodes_Cons s c r cs)
  from decodes_Cons.prems show ?case
    using decodes_Cons.hyps decodes_Cons.IH
    by (cases rule: utf8_decodes.cases) (simp_all add: utf8_strcmp.simps)
qed

lemma utf8_strcmp_returns:
  assumes "\<forall>s c r. nxt s = Some (c, r) \<longrightarrow> length r < length s"
  shows "\<exists>res. utf8_strcmp nxt s1 s2 = Some res"
proof (induction "length s1" arbitrary: s1 s2 rule: less_induct)
  case less
  have "\<exists>res. utf8_strcmp nxt r1 r2 = Some res" if "nxt s1 = Some (c, r1)" for c r1 r2
    using that assms less by blast
  then show ?case
    by (subst utf8_strcmp.simps) (auto split: option.split)
qed

text \<open>The comparison of two strings ends on every input, provided the decoder consumes at least one byte of
  what it decodes; on valid strings it is the lexicographic order of their characters.\<close>

theorem utf8_strcmp_total:
  assumes "\<forall>s c r. nxt s = Some (c, r) \<longrightarrow> length r < length s"
  shows "\<exists>res. utf8_strcmp nxt s1 s2 = Some res \<and>
    (\<forall>cs ds. utf8_decodes nxt s1 cs \<longrightarrow> utf8_decodes nxt s2 ds \<longrightarrow> res = Inr (lex_sign cs ds))"
  using utf8_strcmp_returns [OF assms, of s1 s2] utf8_strcmp_decodes [of nxt s1 _ s2] by fastforce

theorem utf8_strcmp_total_witness:
  "utf8_strcmp ascii_next [97, 98] [97, 99] = Some (Inr (-1))"
proof -
  have "\<forall>s c r. ascii_next s = Some (c, r) \<longrightarrow> length r < length s"
    by (intro allI, case_tac s) (auto split: if_splits)
  moreover have "utf8_decodes ascii_next [97, 98] [97, 98]" and "utf8_decodes ascii_next [97, 99] [97, 99]"
    by (auto intro!: utf8_decodes.intros)
  ultimately show ?thesis
    using utf8_strcmp_total [of ascii_next "[97, 98]" "[97, 99]"] by fastforce
qed

end
