(* ===== verification/VariantArith.thy ===== *)
theory VariantArith
  imports VariantCompare "HOL-Library.Signed_Division"
begin

text \<open>
  Arithmetic on values (\<open>Variant_Arithmetics.cpp\<close>, \<open>Variant_BitwiseArithmetics.cpp\<close>).  Every entry of
  the tables in the code applies the operator of C++ to the two payloads and the
  result takes the type of the expression, so the model is that of the usual arithmetic conversions:
  integral promotion, the common type, unsigned arithmetic modulo a power of two, and undefined behaviour
  for signed overflow, division by zero and bad shift amounts.
\<close>

section \<open>The usual arithmetic conversions\<close>

definition type_width :: "VariantType \<Rightarrow> nat" where
  "type_width t = (case t of
      kInt8 \<Rightarrow> 8 | kUInt8 \<Rightarrow> 8 | kInt16 \<Rightarrow> 16 | kUInt16 \<Rightarrow> 16 | kInt32 \<Rightarrow> 32 | kUInt32 \<Rightarrow> 32 | _ \<Rightarrow> 64)"

definition promoted :: "VariantType \<Rightarrow> VariantType" where
  "promoted t = (if type_width t < 32 then kInt32 else t)"

definition common_type :: "VariantType \<Rightarrow> VariantType \<Rightarrow> VariantType" where
  "common_type t u =
    (if t = u then t
     else if isSignedType t = isSignedType u then (if type_width t < type_width u then u else t)
     else if isSignedType t then (if type_width u < type_width t then t else u)
     else (if type_width t < type_width u then u else t))"

definition fits :: "VariantType \<Rightarrow> int \<Rightarrow> bool" where
  "fits t z \<longleftrightarrow>
    (if isSignedType t then - (2 ^ (type_width t - 1)) \<le> z \<and> z < 2 ^ (type_width t - 1)
     else 0 \<le> z \<and> z < 2 ^ type_width t)"

text \<open>The conversion of a number to the common type.  A signed common type holds both operands.\<close>

definition converted :: "VariantType \<Rightarrow> int \<Rightarrow> int" where
  "converted t z = (if isSignedType t then z else z mod 2 ^ type_width t)"

text \<open>The value built from the result of an integer expression; such a result has at least 32 bits.\<close>

definition make_int :: "VariantType \<Rightarrow> int \<Rightarrow> Variant" where
  "make_int t z = (case t of
      kInt32 \<Rightarrow> VInt32 (word_of_int z) | kUInt32 \<Rightarrow> VUInt32 (word_of_int z)
    | kInt64 \<Rightarrow> VInt64 (word_of_int z) | kUInt64 \<Rightarrow> VUInt64 (word_of_int z) | _ \<Rightarrow> VNull)"

definition int_result :: "VariantType \<Rightarrow> int \<Rightarrow> variant_error + Variant" where
  "int_result t z = (if isSignedType t \<and> \<not> fits t z then Inl UndefinedBehaviour else Inr (make_int t z))"

datatype int_op = IntAdd | IntSub | IntMul | IntDiv | IntMod

definition int_arith :: "int_op \<Rightarrow> VariantType \<Rightarrow> int \<Rightarrow> int \<Rightarrow> variant_error + Variant" where
  "int_arith op t a b = (case op of
      IntAdd \<Rightarrow> int_result t (a + b)
    | IntSub \<Rightarrow> int_result t (a - b)
    | IntMul \<Rightarrow> int_result t (a * b)
    | IntDiv \<Rightarrow> if b = 0 then Inl UndefinedBehaviour else int_result t (a sdiv b)
    | IntMod \<Rightarrow>
        if b = 0 \<or> (isSignedType t \<and> \<not> fits t (a sdiv b)) then Inl UndefinedBehaviour
        else int_result t (a smod b))"

definition integers_of :: "Variant \<Rightarrow> Variant \<Rightarrow> (VariantType \<times> int \<times> int) option" where
  "integers_of v w =
    (if isIntegerType (getValueType v) \<and> isIntegerType (getValueType w)
     then let t = common_type (promoted (getValueType v)) (promoted (getValueType w)) in
       Some (t, converted t (intValue v), converted t (intValue w))
     else None)"

definition to_f32 :: "FPU \<Rightarrow> Variant \<Rightarrow> uint32" where
  "to_f32 F v = (case v of VFloat a \<Rightarrow> a | _ \<Rightarrow> f32_of_int F (intValue v))"

definition to_f64 :: "FPU \<Rightarrow> Variant \<Rightarrow> uint64" where
  "to_f64 F v = (case v of
      VDouble a \<Rightarrow> a | VFloat a \<Rightarrow> f64_of_f32 F a | _ \<Rightarrow> f64_of_int F (intValue v))"

section \<open>Arithmetic operators\<close>

definition mismatch :: "Variant \<Rightarrow> Variant \<Rightarrow> variant_error + Variant" where
  "mismatch v w = Inl (VariantTypeCastError (getValueType v) (getValueType w))"

definition numeric_op ::
  "FPU \<Rightarrow> int_op \<Rightarrow> arith_op \<Rightarrow> Variant \<Rightarrow> Variant \<Rightarrow> variant_error + Variant" where
  "numeric_op F iop fop v w =
    (let t = getValueType v; u = getValueType w in
     if \<not> isNumericType t \<or> \<not> isNumericType u then mismatch v w
     else case integers_of v w of
       Some (c, a, b) \<Rightarrow> int_arith iop c a b
     | None \<Rightarrow>
        (if t = kDouble \<or> u = kDouble then Inr (VDouble (f64_op F fop (to_f64 F v) (to_f64 F w)))
         else Inr (VFloat (f32_op F fop (to_f32 F v) (to_f32 F w)))))"

definition variant_plus :: "FPU \<Rightarrow> Variant \<Rightarrow> Variant \<Rightarrow> variant_error + Variant" where
  "variant_plus F v w = (case (v, w) of
      (VString a, VString b) \<Rightarrow> Inr (VString (a @ b))
    | _ \<Rightarrow> numeric_op F IntAdd ArithAdd v w)"

definition variant_minus :: "FPU \<Rightarrow> Variant \<Rightarrow> Variant \<Rightarrow> variant_error + Variant" where
  "variant_minus F v w = numeric_op F IntSub ArithSub v w"

definition variant_times :: "FPU \<Rightarrow> Variant \<Rightarrow> Variant \<Rightarrow> variant_error + Variant" where
  "variant_times F v w = numeric_op F IntMul ArithMul v w"

definition variant_divide :: "FPU \<Rightarrow> Variant \<Rightarrow> Variant \<Rightarrow> variant_error + Variant" where
  "variant_divide F v w = numeric_op F IntDiv ArithDiv v w"

definition variant_modulo :: "Variant \<Rightarrow> Variant \<Rightarrow> variant_error + Variant" where
  "variant_modulo v w = (case integers_of v w of
      None \<Rightarrow> mismatch v w
    | Some (t, a, b) \<Rightarrow> int_arith IntMod t a b)"

section \<open>Bitwise operators\<close>

definition bitwise_op ::
  "(int \<Rightarrow> int \<Rightarrow> int) \<Rightarrow> Variant \<Rightarrow> Variant \<Rightarrow> variant_error + Variant" where
  "bitwise_op f v w = (case integers_of v w of
      None \<Rightarrow> mismatch v w
    | Some (t, a, b) \<Rightarrow> Inr (make_int t (f a b)))"

definition variant_or :: "Variant \<Rightarrow> Variant \<Rightarrow> variant_error + Variant" where
  "variant_or v w = bitwise_op (\<lambda>a b. a OR b) v w"

definition variant_and :: "Variant \<Rightarrow> Variant \<Rightarrow> variant_error + Variant" where
  "variant_and v w = bitwise_op (\<lambda>a b. a AND b) v w"

definition variant_xor :: "Variant \<Rightarrow> Variant \<Rightarrow> variant_error + Variant" where
  "variant_xor v w = bitwise_op (\<lambda>a b. a XOR b) v w"

text \<open>The result of a shift has the promoted type of the left operand; a signed left operand may be shifted into the
  sign bit but not past it.\<close>

definition variant_shl :: "Variant \<Rightarrow> Variant \<Rightarrow> variant_error + Variant" where
  "variant_shl v w =
    (if \<not> isIntegerType (getValueType v) \<or> \<not> isIntegerType (getValueType w) then mismatch v w
     else
       let t = promoted (getValueType v); n = intValue w; r = intValue v * 2 ^ nat n in
       if n < 0 \<or> n \<ge> int (type_width t) then Inl UndefinedBehaviour
       else if isSignedType t \<and> (intValue v < 0 \<or> r \<ge> 2 ^ type_width t) then Inl UndefinedBehaviour
       else Inr (make_int t r))"

definition variant_shr :: "Variant \<Rightarrow> Variant \<Rightarrow> variant_error + Variant" where
  "variant_shr v w =
    (if \<not> isIntegerType (getValueType v) \<or> \<not> isIntegerType (getValueType w) then mismatch v w
     else
       let t = promoted (getValueType v); n = intValue w in
       if n < 0 \<or> n \<ge> int (type_width t) then Inl UndefinedBehaviour
       else Inr (make_int t (intValue v div 2 ^ nat n)))"

section \<open>Unary operators\<close>

definition variant_neg :: "FPU \<Rightarrow> Variant \<Rightarrow> variant_error + Variant" where
  "variant_neg F v = (case v of
      VFloat a \<Rightarrow> Inr (VFloat (f32_neg F a))
    | VDouble a \<Rightarrow> Inr (VDouble (f64_neg F a))
    | _ \<Rightarrow> if isIntegerType (getValueType v) then int_result (promoted (getValueType v)) (- intValue v)
           else Inl (WrongVariantTypeError (getValueType v)))"

definition variant_pos :: "Variant \<Rightarrow> variant_error + Variant" where
  "variant_pos v = (case v of
      VFloat a \<Rightarrow> Inr (VFloat a)
    | VDouble a \<Rightarrow> Inr (VDouble a)
    | _ \<Rightarrow> if isIntegerType (getValueType v) then Inr (make_int (promoted (getValueType v)) (intValue v))
           else Inl (WrongVariantTypeError (getValueType v)))"

definition variant_not :: "Variant \<Rightarrow> variant_error + Variant" where
  "variant_not v =
    (if isIntegerType (getValueType v)
     then Inr (make_int (promoted (getValueType v)) (NOT (intValue v)))
     else Inl (WrongVariantTypeError (getValueType v)))"

section \<open>Result types\<close>

lemmas width_simps = type_width_def promoted_def common_type_def isSignedType_def

lemma numeric_result_int:
  assumes "isIntegerType t" and "isIntegerType u"
  shows "common_type (promoted t) (promoted u) = getNumericResultType t u"
  using assms
  by (cases t; simp add: isIntegerType_def; cases u;
      simp add: isIntegerType_def width_simps getNumericResultType_def max_def
        less_eq_VariantType_def type_code_def)

lemma numeric_result_wide:
  assumes "isIntegerType t" and "isIntegerType u"
  shows "getNumericResultType t u \<in> {kInt32, kUInt32, kInt64, kUInt64}"
  using assms
  by (cases t; simp add: isIntegerType_def; cases u;
      simp add: isIntegerType_def getNumericResultType_def max_def less_eq_VariantType_def type_code_def)

abbreviation wide :: "VariantType \<Rightarrow> bool" where
  "wide t \<equiv> t \<in> {kInt32, kUInt32, kInt64, kUInt64}"

lemma make_int_type: "wide t \<Longrightarrow> getValueType (make_int t z) = t"
  by (auto simp: make_int_def)

lemma int_result_type: "wide t \<Longrightarrow> int_result t z = Inr r \<Longrightarrow> getValueType r = t"
  by (auto simp: int_result_def make_int_type split: if_splits)

lemma int_arith_type: "wide t \<Longrightarrow> int_arith op t a b = Inr r \<Longrightarrow> getValueType r = t"
  by (auto simp: int_arith_def int_result_type split: int_op.splits if_splits)

lemma integers_of_Some:
  "integers_of v w = Some (t, a, b) \<longleftrightarrow>
    isIntegerType (getValueType v) \<and> isIntegerType (getValueType w) \<and>
    t = getNumericResultType (getValueType v) (getValueType w) \<and>
    a = converted t (intValue v) \<and> b = converted t (intValue w)"
  by (auto simp: integers_of_def Let_def numeric_result_int)

lemma integers_of_wide: "integers_of v w = Some (t, a, b) \<Longrightarrow> wide t"
  unfolding integers_of_Some using numeric_result_wide by blast

lemma integers_of_None:
  "integers_of v w = None \<longleftrightarrow> \<not> (isIntegerType (getValueType v) \<and> isIntegerType (getValueType w))"
  by (simp add: integers_of_def Let_def)

lemma floating_result_type:
  assumes "isNumericType t" and "isNumericType u" and "\<not> (isIntegerType t \<and> isIntegerType u)"
  shows "getNumericResultType t u = (if t = kDouble \<or> u = kDouble then kDouble else kFloat)"
  using assms
  by (cases t; simp add: isIntegerType_def isNumericType_def; cases u;
      simp add: isIntegerType_def isNumericType_def getNumericResultType_def max_def
        less_eq_VariantType_def type_code_def)

lemma numeric_op_type:
  assumes "isNumericType (getValueType v)" and "isNumericType (getValueType w)"
    and "numeric_op F iop fop v w = Inr r"
  shows "getValueType r = getNumericResultType (getValueType v) (getValueType w)"
proof (cases "integers_of v w")
  case None
  then have "\<not> (isIntegerType (getValueType v) \<and> isIntegerType (getValueType w))"
    by (simp add: integers_of_None)
  with None show ?thesis
    using assms floating_result_type [OF assms(1,2)]
    by (auto simp: numeric_op_def Let_def split: if_splits)
next
  case (Some c)
  then obtain t a b where c: "integers_of v w = Some (t, a, b)" by (cases c) auto
  then have "getValueType r = t"
    using assms int_arith_type [OF integers_of_wide [OF c]] by (simp add: numeric_op_def)
  with c show ?thesis by (simp add: integers_of_Some)
qed

lemma plus_numeric: "isNumericType (getValueType v) \<Longrightarrow> variant_plus F v w = numeric_op F IntAdd ArithAdd v w"
  by (cases v) (simp_all add: variant_plus_def isNumericType_def)

lemma integer_op_type:
  assumes "integers_of v w \<noteq> None" and "\<And>t a b. wide t \<Longrightarrow> f t a b = Inr r \<Longrightarrow> getValueType r = t"
    and "(case integers_of v w of None \<Rightarrow> mismatch v w | Some (t, a, b) \<Rightarrow> f t a b) = Inr r"
  shows "getValueType r = getNumericResultType (getValueType v) (getValueType w)"
proof -
  obtain t a b where c: "integers_of v w = Some (t, a, b)" using assms(1) by (cases "integers_of v w") auto
  then have "getValueType r = t" using assms(2) [OF integers_of_wide [OF c]] assms(3) by simp
  with c show ?thesis by (simp add: integers_of_Some)
qed

lemma modulo_type:
  "variant_modulo v w = Inr r \<Longrightarrow> getValueType r = getNumericResultType (getValueType v) (getValueType w)"
  unfolding variant_modulo_def
  by (rule integer_op_type [where f = "int_arith IntMod"])
    (auto simp: int_arith_type mismatch_def split: option.splits)

lemma bitwise_type:
  "bitwise_op f v w = Inr r \<Longrightarrow> getValueType r = getNumericResultType (getValueType v) (getValueType w)"
  unfolding bitwise_op_def
  by (rule integer_op_type [where f = "\<lambda>t a b. Inr (make_int t (f a b))"])
    (auto simp: make_int_type mismatch_def split: option.splits)

text \<open>The result of every binary operator on numbers has the type that the expression compiler announces with
  \<open>getNumericResultType\<close>, whatever the two operand types are.\<close>

theorem arithmetic_result_type:
  assumes "isNumericType (getValueType v)" and "isNumericType (getValueType w)"
    and "f \<in> {variant_plus F, variant_minus F, variant_times F, variant_divide F,
      variant_modulo, variant_or, variant_and, variant_xor}"
    and "f v w = Inr r"
  shows "getValueType r = getNumericResultType (getValueType v) (getValueType w)"
proof -
  consider iop fop where "numeric_op F iop fop v w = Inr r" | "variant_modulo v w = Inr r"
    | g where "bitwise_op g v w = Inr r"
    using assms(3,4) plus_numeric [OF assms(1)]
    by (auto simp: variant_minus_def variant_times_def variant_divide_def variant_or_def
        variant_and_def variant_xor_def)
  then show ?thesis
    by cases (simp_all add: numeric_op_type [OF assms(1,2)] modulo_type bitwise_type)
qed

theorem arithmetic_result_type_witness:
  "variant_times sample_fpu (VUInt32 3) (VInt8 2) = Inr (VUInt32 6) \<and>
   getValueType (VUInt32 6) = getNumericResultType kUInt32 kInt8"
proof -
  have "variant_times sample_fpu (VUInt32 3) (VInt8 2) = Inr (VUInt32 6)"
    by (simp add: variant_times_def numeric_op_def isNumericType_def integers_of_def isIntegerType_def
        width_simps converted_def intValue_def int_arith_def int_result_def make_int_def)
  then show ?thesis
    using arithmetic_result_type [of "VUInt32 3" "VInt8 2" "variant_times sample_fpu" sample_fpu "VUInt32 6"]
    by (simp add: isNumericType_def)
qed

section \<open>Results of integer arithmetic\<close>

text \<open>What an operator computes when its exact result is a given number: that number in a signed result
  type, or undefined behaviour when it does not fit, and the number modulo a power of two in an unsigned
  one.\<close>

definition computes :: "VariantType \<Rightarrow> variant_error + Variant \<Rightarrow> int \<Rightarrow> bool" where
  "computes t res z = (case res of
      Inl e \<Rightarrow> e = UndefinedBehaviour \<and> isSignedType t \<and> \<not> fits t z
    | Inr r \<Rightarrow> getValueType r = t \<and>
        intValue r = (if isSignedType t then z else z mod 2 ^ type_width t))"

lemma sint_word_of_int:
  "- (2 ^ (LENGTH('a) - Suc 0)) \<le> z \<Longrightarrow> z < 2 ^ (LENGTH('a) - Suc 0) \<Longrightarrow> sint (word_of_int z :: 'a::len word) = z"
  by (simp add: sint_sbintrunc' signed_take_bit_int_eq_self)

lemma intValue_make_int:
  assumes "wide t"
  shows "\<not> isSignedType t \<Longrightarrow> intValue (make_int t z) = z mod 2 ^ type_width t"
    and "isSignedType t \<Longrightarrow> fits t z \<Longrightarrow> intValue (make_int t z) = z"
  using assms
  by (auto simp: make_int_def intValue_def isSignedType_def type_width_def fits_def unsigned_of_int
      take_bit_eq_mod sint_word_of_int)

lemma computes_int_result:
  assumes "wide t" and "isSignedType t \<or> z mod 2 ^ type_width t = z' mod 2 ^ type_width t"
    and "isSignedType t \<longrightarrow> z = z'"
  shows "computes t (int_result t z) z'"
  using assms intValue_make_int [OF assms(1)]
  by (auto simp: computes_def int_result_def make_int_type)

lemma numeric_op_integers:
  assumes "isIntegerType (getValueType v)" and "isIntegerType (getValueType w)"
    and "t = getNumericResultType (getValueType v) (getValueType w)"
  shows "numeric_op F iop fop v w = int_arith iop t (converted t (intValue v)) (converted t (intValue w))"
    and "variant_modulo v w = int_arith IntMod t (converted t (intValue v)) (converted t (intValue w))"
    and "wide t"
proof -
  have c: "integers_of v w = Some (t, converted t (intValue v), converted t (intValue w))"
    using assms by (simp add: integers_of_Some)
  have "isNumericType x" if "isIntegerType x" for x
    using that by (cases x) (simp_all add: isIntegerType_def isNumericType_def)
  with c show "numeric_op F iop fop v w = int_arith iop t (converted t (intValue v)) (converted t (intValue w))"
    using assms by (simp add: numeric_op_def Let_def)
  show "variant_modulo v w = int_arith IntMod t (converted t (intValue v)) (converted t (intValue w))"
    using c by (simp add: variant_modulo_def)
  show "wide t" using c by (rule integers_of_wide)
qed

lemma converted_fits: "fits t z \<Longrightarrow> converted t z = z"
  by (auto simp: converted_def fits_def split: if_splits)

lemma converted_zero: "converted t 0 = 0"
  by (simp add: converted_def)

lemma payload_fits: "isIntegerType (getValueType v) \<Longrightarrow> fits (getValueType v) (intValue v)"
  using sint_ge [where 'a = 8] sint_lt [where 'a = 8] sint_ge [where 'a = 16] sint_lt [where 'a = 16]
    sint_ge [where 'a = 32] sint_lt [where 'a = 32] sint_ge [where 'a = 64] sint_lt [where 'a = 64]
    uint_bounded [where 'a = 8] uint_bounded [where 'a = 16] uint_bounded [where 'a = 32]
    uint_bounded [where 'a = 64]
  by (cases v) (simp_all add: isIntegerType_def fits_def isSignedType_def type_width_def intValue_def)

text \<open>A signed result type holds both operands, so the conversion leaves them as they are.\<close>

lemma signed_result_holds:
  assumes "isIntegerType t" and "isIntegerType u" and "isSignedType (getNumericResultType t u)"
  shows "fits t z \<Longrightarrow> fits (getNumericResultType t u) z" and "fits u z \<Longrightarrow> fits (getNumericResultType t u) z"
  using assms
  by (cases t; simp add: isIntegerType_def; cases u;
      simp add: isIntegerType_def fits_def getNumericResultType_def max_def type_width_def
        less_eq_VariantType_def type_code_def isSignedType_def)+

lemma computes_ring:
  assumes "wide t"
  shows "computes t (int_arith IntAdd t (converted t x) (converted t y)) (x + y)"
    and "computes t (int_arith IntSub t (converted t x) (converted t y)) (x - y)"
    and "computes t (int_arith IntMul t (converted t x) (converted t y)) (x * y)"
  using assms
  by (auto simp: int_arith_def converted_def mod_simps intro!: computes_int_result)

lemma computes_division:
  assumes "wide t" and "fits t x" and "fits t y" and "y \<noteq> 0"
  shows "computes t (int_arith IntDiv t (converted t x) (converted t y)) (x sdiv y)"
    and "fits t (x sdiv y) \<Longrightarrow> computes t (int_arith IntMod t (converted t x) (converted t y)) (x smod y)"
  using assms
  by (auto simp: int_arith_def converted_fits intro!: computes_int_result)

text \<open>C17: Addition, subtraction and multiplication of integers of any types give the exact result when the result type
  is signed and holds it, undefined behaviour when it does not hold it, and the result modulo a
  power of two when the type is unsigned.  Division by zero is undefined behaviour; otherwise
  quotient and remainder are those of truncating division, provided the result type holds the operands,
  which a signed one always does.\<close>

theorem integer_arithmetic:
  assumes "isIntegerType (getValueType v)" and "isIntegerType (getValueType w)"
    and "t = getNumericResultType (getValueType v) (getValueType w)"
    and "x = intValue v" and "y = intValue w"
  shows "computes t (variant_plus F v w) (x + y) \<and> computes t (variant_minus F v w) (x - y) \<and>
    computes t (variant_times F v w) (x * y) \<and>
    (isSignedType t \<longrightarrow> fits t x \<and> fits t y) \<and>
    (y = 0 \<longrightarrow> variant_divide F v w = Inl UndefinedBehaviour \<and> variant_modulo v w = Inl UndefinedBehaviour) \<and>
    (y \<noteq> 0 \<longrightarrow> fits t x \<longrightarrow> fits t y \<longrightarrow>
      computes t (variant_divide F v w) (x sdiv y) \<and>
      (fits t (x sdiv y) \<longrightarrow> computes t (variant_modulo v w) (x smod y)))"
proof -
  note ops = numeric_op_integers [OF assms(1-3), folded assms(4,5)]
  have "isNumericType (getValueType v)"
    using assms(1) by (cases "getValueType v") (simp_all add: isIntegerType_def isNumericType_def)
  then have plus: "variant_plus F v w = numeric_op F IntAdd ArithAdd v w" by (rule plus_numeric)
  have "isSignedType t \<longrightarrow> fits t x \<and> fits t y"
    using signed_result_holds [OF assms(1,2)] payload_fits [OF assms(1)] payload_fits [OF assms(2)] assms(3-)
    by simp
  then show ?thesis
    using computes_ring [OF ops(3)] computes_division [OF ops(3)]
    by (simp add: plus variant_minus_def variant_times_def variant_divide_def ops(1,2) converted_zero
        int_arith_def)
qed

theorem integer_arithmetic_witness:
  "computes kInt64 (variant_minus sample_fpu (VUInt32 1) (VInt64 2)) (- 1) \<and>
   computes kUInt32 (variant_minus sample_fpu (VUInt32 1) (VInt32 2)) (- 1)"
  using integer_arithmetic [of "VUInt32 1" "VInt64 2" kInt64 1 2 sample_fpu]
    integer_arithmetic [of "VUInt32 1" "VInt32 2" kUInt32 1 2 sample_fpu]
  by (simp add: isIntegerType_def getNumericResultType_def max_def less_eq_VariantType_def type_code_def
      intValue_def)

end
