(* ===== verification/VariantConv.thy ===== *)
theory VariantConv
  imports VariantArith PlainBinary
begin

text \<open>
  Conversions of values (\<open>Variant_Conversions.cpp\<close>): \<open>asBool\<close> to \<open>asBinary\<close> and the conversions of strings, binary
  values, time stamps and streams they call.  Reading a stream moves its position, so a conversion
  gives the value's new state beside its result.
\<close>

section \<open>Numbers in strings\<close>

text \<open>\<open>std::stoll\<close> and \<open>std::stoull\<close> with base 0: white space, a sign, a base prefix and digits.\<close>

definition isspace :: "uint8 \<Rightarrow> bool" where
  "isspace c \<longleftrightarrow> c = 32 \<or> 9 \<le> c \<and> c \<le> 13"

definition digit_value :: "uint8 \<Rightarrow> nat" where
  "digit_value c =
    (if 48 \<le> c \<and> c \<le> 57 then unat c - 48
     else if 97 \<le> c \<and> c \<le> 122 then unat c - 87
     else if 65 \<le> c \<and> c \<le> 90 then unat c - 55
     else 255)"

fun scan_digits :: "nat \<Rightarrow> nat \<Rightarrow> bytes \<Rightarrow> nat \<times> nat" where
  "scan_digits base acc [] = (acc, 0)"
| "scan_digits base acc (c # cs) =
    (if digit_value c < base
     then let (m, n) = scan_digits base (acc * base + digit_value c) cs in (m, Suc n)
     else (acc, 0))"

definition scan_base :: "bytes \<Rightarrow> nat \<times> nat" where
  "scan_base s = (case s of
      c # x # d # _ \<Rightarrow> if c = 48 then (if (x = 120 \<or> x = 88) \<and> digit_value d < 16 then (16, 2) else (8, 0))
        else (10, 0)
    | c # _ \<Rightarrow> if c = 48 then (8, 0) else (10, 0)
    | [] \<Rightarrow> (10, 0))"

definition strto :: "bytes \<Rightarrow> (bool \<times> nat \<times> nat) option" where
  "strto s =
    (let ws = length (takeWhile isspace s);
         r = drop ws s;
         sg = (if r \<noteq> [] \<and> (hd r = 45 \<or> hd r = 43) then 1 else 0);
         neg = (r \<noteq> [] \<and> hd r = 45);
         r = drop sg r;
         (base, skip) = scan_base r;
         (m, n) = scan_digits base 0 (drop skip r)
     in if n = 0 then None else Some (neg, m, ws + sg + skip + n))"

definition stoll :: "bytes \<Rightarrow> (int \<times> nat) option" where
  "stoll s = (case strto s of
      None \<Rightarrow> None
    | Some (neg, m, pos) \<Rightarrow>
        (let z = (if neg then - int m else int m) in if fits kInt64 z then Some (z, pos) else None))"

definition stoull :: "bytes \<Rightarrow> (int \<times> nat) option" where
  "stoull s = (case strto s of
      None \<Rightarrow> None
    | Some (neg, m, pos) \<Rightarrow>
        (if fits kUInt64 (int m) then Some ((if neg then - int m else int m) mod 2 ^ 64, pos) else None))"

definition string_to :: "(bytes \<Rightarrow> (int \<times> nat) option) \<Rightarrow> VariantType \<Rightarrow> VariantType \<Rightarrow> bytes \<Rightarrow>
    variant_error + 'a::len word" where
  "string_to sto src dst s = (case sto s of
      None \<Rightarrow> Inl (VariantTypeCastError src dst)
    | Some (v, pos) \<Rightarrow>
        if pos \<noteq> length s then Inl (VariantTypeCastError src dst)
        else if \<not> fits dst v then Inl (VariantTypeCastError src dst)
        else Inr (word_of_int v))"

definition stringToInt8 :: "VariantType \<Rightarrow> bytes \<Rightarrow> variant_error + uint8" where
  "stringToInt8 src s = string_to stoll src kInt8 s"

definition stringToUInt8 :: "VariantType \<Rightarrow> bytes \<Rightarrow> variant_error + uint8" where
  "stringToUInt8 src s = string_to stoull src kUInt8 s"

definition stringToInt16 :: "VariantType \<Rightarrow> bytes \<Rightarrow> variant_error + uint16" where
  "stringToInt16 src s = string_to stoll src kInt16 s"

definition stringToUInt16 :: "VariantType \<Rightarrow> bytes \<Rightarrow> variant_error + uint16" where
  "stringToUInt16 src s = string_to stoull src kUInt16 s"

definition stringToInt32 :: "VariantType \<Rightarrow> bytes \<Rightarrow> variant_error + uint32" where
  "stringToInt32 src s = string_to stoll src kInt32 s"

definition stringToUInt32 :: "VariantType \<Rightarrow> bytes \<Rightarrow> variant_error + uint32" where
  "stringToUInt32 src s = string_to stoull src kUInt32 s"

text \<open>No range check is left to do in 64 bits.\<close>

definition stringToInt64 :: "VariantType \<Rightarrow> bytes \<Rightarrow> variant_error + uint64" where
  "stringToInt64 src s = (case stoll s of
      None \<Rightarrow> Inl (VariantTypeCastError src kInt64)
    | Some (v, pos) \<Rightarrow>
        if pos \<noteq> length s then Inl (VariantTypeCastError src kInt64) else Inr (word_of_int v))"

definition stringToUInt64 :: "VariantType \<Rightarrow> bytes \<Rightarrow> variant_error + uint64" where
  "stringToUInt64 src s = (case stoull s of
      None \<Rightarrow> Inl (VariantTypeCastError src kUInt64)
    | Some (v, pos) \<Rightarrow>
        if pos \<noteq> length s then Inl (VariantTypeCastError src kUInt64) else Inr (word_of_int v))"

definition stringToFloat :: "FPU \<Rightarrow> VariantType \<Rightarrow> bytes \<Rightarrow> variant_error + uint32" where
  "stringToFloat F src s = (case f32_scan F s of
      None \<Rightarrow> Inl (VariantTypeCastError src kFloat)
    | Some (v, pos) \<Rightarrow> if pos \<noteq> length s then Inl (VariantTypeCastError src kFloat) else Inr v)"

definition stringToDouble :: "FPU \<Rightarrow> VariantType \<Rightarrow> bytes \<Rightarrow> variant_error + uint64" where
  "stringToDouble F src s = (case f64_scan F s of
      None \<Rightarrow> Inl (VariantTypeCastError src kDouble)
    | Some (v, pos) \<Rightarrow> if pos \<noteq> length s then Inl (VariantTypeCastError src kDouble) else Inr v)"

definition kTrueString :: bytes where "kTrueString = bytes_of ''true''"
definition kFalseString :: bytes where "kFalseString = bytes_of ''false''"

definition stringToBool :: "VariantType \<Rightarrow> bytes \<Rightarrow> variant_error + bool" where
  "stringToBool src s =
    (if s = kTrueString then Inr True
     else if s = kFalseString then Inr False
     else Inl (VariantTypeCastError src kBool))"

section \<open>Numbers in binary values\<close>

definition binaryToBool :: "VariantType \<Rightarrow> bytes \<Rightarrow> variant_error + bool" where
  "binaryToBool src bv = (case bv of b # _ \<Rightarrow> Inr (b \<noteq> 0) | [] \<Rightarrow> Inl (VariantTypeCastError src kBool))"

definition binaryToInt8 :: "VariantType \<Rightarrow> bytes \<Rightarrow> variant_error + uint8" where
  "binaryToInt8 src bv = (case bv of b # _ \<Rightarrow> Inr b | [] \<Rightarrow> Inl (VariantTypeCastError src kInt8))"

definition binaryToUInt8 :: "VariantType \<Rightarrow> bytes \<Rightarrow> variant_error + uint8" where
  "binaryToUInt8 src bv = (case bv of b # _ \<Rightarrow> Inr b | [] \<Rightarrow> Inl (VariantTypeCastError src kUInt8))"

text \<open>Values too short are refused, or extended with zero bytes when the caller allows it.\<close>

definition binary_to :: "(bytes \<Rightarrow> ('a \<times> nat) option) \<Rightarrow> nat \<Rightarrow> VariantType \<Rightarrow> VariantType \<Rightarrow> bytes \<Rightarrow> bool \<Rightarrow>
    variant_error + 'a" where
  "binary_to dec sz src dst bv autoExtend =
    (let decoded = (\<lambda>data. case dec data of None \<Rightarrow> Inl UndefinedBehaviour | Some (v, _) \<Rightarrow> Inr v) in
     if length bv > sz - 1 then decoded bv
     else if bv \<noteq> [] \<and> autoExtend then decoded (bv @ replicate (sz - length bv) 0)
     else Inl (VariantTypeCastError src dst))"

definition binaryToInt16 :: "VariantType \<Rightarrow> bytes \<Rightarrow> bool \<Rightarrow> variant_error + uint16" where
  "binaryToInt16 src bv ext = binary_to pbeDecodeInt16 2 src kInt16 bv ext"

definition binaryToUInt16 :: "VariantType \<Rightarrow> bytes \<Rightarrow> bool \<Rightarrow> variant_error + uint16" where
  "binaryToUInt16 src bv ext = binary_to pbeDecodeUInt16 2 src kUInt16 bv ext"

definition binaryToInt32 :: "VariantType \<Rightarrow> bytes \<Rightarrow> bool \<Rightarrow> variant_error + uint32" where
  "binaryToInt32 src bv ext = binary_to pbeDecodeInt32 4 src kInt32 bv ext"

definition binaryToUInt32 :: "VariantType \<Rightarrow> bytes \<Rightarrow> bool \<Rightarrow> variant_error + uint32" where
  "binaryToUInt32 src bv ext = binary_to pbeDecodeUInt32 4 src kUInt32 bv ext"

definition binaryToInt64 :: "VariantType \<Rightarrow> bytes \<Rightarrow> bool \<Rightarrow> variant_error + uint64" where
  "binaryToInt64 src bv ext = binary_to pbeDecodeInt64 8 src kInt64 bv ext"

definition binaryToUInt64 :: "VariantType \<Rightarrow> bytes \<Rightarrow> bool \<Rightarrow> variant_error + uint64" where
  "binaryToUInt64 src bv ext = binary_to pbeDecodeUInt64 8 src kUInt64 bv ext"

definition binaryToFloat :: "VariantType \<Rightarrow> bytes \<Rightarrow> variant_error + uint32" where
  "binaryToFloat src bv = binary_to pbeDecodeFloat 4 src kFloat bv False"

text \<open>The error names the wrong type.\<close>

definition binaryToDouble :: "VariantType \<Rightarrow> bytes \<Rightarrow> variant_error + uint64" where
  "binaryToDouble src bv = binary_to pbeDecodeDouble 8 src kFloat bv False"

definition binaryToString :: "Libs \<Rightarrow> VariantType \<Rightarrow> bytes \<Rightarrow> VariantType \<Rightarrow> nat \<Rightarrow> variant_error + bytes" where
  "binaryToString L src bv dst maxOutputLength =
    (if bv = [] then Inr []
     else if length bv * 2 > maxOutputLength then Inl (VariantTypeCastError src dst)
     else Inr (takeWhile (\<lambda>b. b \<noteq> 0) (hex_lower L bv)))"

text \<open>\<open>init\<close> is what the uninitialised local variable holds.\<close>

definition binaryToDateTime :: "RawDateTime \<Rightarrow> VariantType \<Rightarrow> bytes \<Rightarrow> variant_error + RawDateTime" where
  "binaryToDateTime init src bv =
    (if length bv < 4 then Inl (VariantTypeCastError src kDateTime)
     else
       let result = rawdatetime_deserializeDatePart init bv in
       if m_hasTimePart (m_datePart result) then
         (if length bv < 10 then Inl (VariantTypeCastError src kDateTime)
          else Inr (fst (rawdatetime_deserialize result bv)))
       else Inr result)"

section \<open>Time stamps\<close>

definition tmToDateTime :: "RawDateTime \<Rightarrow> VariantType \<Rightarrow> tm \<Rightarrow> variant_error + RawDateTime" where
  "tmToDateTime init src t =
    (let year = tm_year t + 1900 in
     if year < kMinYear \<or> year > kMaxYear then Inl (VariantTypeCastError src kDateTime)
     else Inr \<lparr>
       m_timePart = (m_timePart init)\<lparr>m_nanos := 0, m_seconds := word_of_int (tm_sec t),
         m_minutes := word_of_int (tm_min t), m_hours := word_of_int (tm_hour t)\<rparr>,
       m_datePart = (m_datePart init)\<lparr>m_dayOfMonth := word_of_int (tm_mday t),
         m_month := word_of_int (tm_mon t), m_year := word_of_int year,
         m_dayOfWeek := word_of_int (tm_wday t)\<rparr>\<rparr>)"

definition timestampToDateTime :: "Libs \<Rightarrow> RawDateTime \<Rightarrow> VariantType \<Rightarrow> int \<Rightarrow> variant_error + RawDateTime" where
  "timestampToDateTime L init src timestamp = (case gmtime_r L timestamp of
      None \<Rightarrow> Inl (VariantTypeCastError src kDateTime)
    | Some t \<Rightarrow> tmToDateTime init src t)"

section \<open>Streams\<close>

definition kMaxStringValueLength :: nat where "kMaxStringValueLength = 0xffff"
definition kMaxBinaryValueLength :: nat where "kMaxBinaryValueLength = 0xffff"

definition readClobAsStringForConversion ::
  "VariantType \<Rightarrow> LobStream \<Rightarrow> variant_error + (bytes \<times> LobStream)" where
  "readClobAsStringForConversion dst l =
    (let clobSize = lob_getRemainingSize l in
     if unat clobSize > kMaxStringValueLength then Inl (VariantTypeCastError kClob dst)
     else Inr (clob_readAsString l clobSize))"

definition readBlobAsBinaryForConversion ::
  "VariantType \<Rightarrow> LobStream \<Rightarrow> variant_error + (bytes \<times> LobStream)" where
  "readBlobAsBinaryForConversion dst l =
    (let blobSize = lob_getRemainingSize l in
     if unat blobSize > kMaxBinaryValueLength then Inl (VariantTypeCastError kBlob dst)
     else Inr (blob_readAsBinary l blobSize))"

text \<open>The last branches of every conversion: a stream is read to its end, then converted like a string or a binary
  value; other values go to \<open>f\<close>.\<close>

definition with_streams :: "VariantType \<Rightarrow> (VariantType \<Rightarrow> bytes \<Rightarrow> variant_error + 'a) \<Rightarrow>
    (VariantType \<Rightarrow> bytes \<Rightarrow> variant_error + 'a) \<Rightarrow> (Variant \<Rightarrow> variant_error + 'a) \<Rightarrow> Variant \<Rightarrow>
    (variant_error + 'a) \<times> Variant" where
  "with_streams dst fs fb f v = (case v of
      VClob l \<Rightarrow> (case readClobAsStringForConversion dst l of
          Inl e \<Rightarrow> (Inl e, v) | Inr (s, l') \<Rightarrow> (fs kClob s, VClob l'))
    | VBlob l \<Rightarrow> (case readBlobAsBinaryForConversion dst l of
          Inl e \<Rightarrow> (Inl e, v) | Inr (b, l') \<Rightarrow> (fb kBlob b, VBlob l'))
    | _ \<Rightarrow> (f v, v))"

section \<open>Conversions to numbers\<close>

text \<open>A floating-point number whose integer part does not fit the destination is undefined behaviour.\<close>

definition truncated :: "VariantType \<Rightarrow> int option \<Rightarrow> variant_error + 'a::len word" where
  "truncated dst z = (case z of
      Some i \<Rightarrow> if fits dst i then Inr (word_of_int i) else Inl UndefinedBehaviour
    | None \<Rightarrow> Inl UndefinedBehaviour)"

definition asBool :: "FPU \<Rightarrow> Variant \<Rightarrow> (variant_error + bool) \<times> Variant" where
  "asBool F = with_streams kBool stringToBool binaryToBool (\<lambda>v. case v of
      VBool b \<Rightarrow> Inr b | VInt8 a \<Rightarrow> Inr (a \<noteq> 0) | VUInt8 a \<Rightarrow> Inr (a \<noteq> 0) | VInt16 a \<Rightarrow> Inr (a \<noteq> 0)
    | VUInt16 a \<Rightarrow> Inr (a \<noteq> 0) | VInt32 a \<Rightarrow> Inr (a \<noteq> 0) | VUInt32 a \<Rightarrow> Inr (a \<noteq> 0)
    | VInt64 a \<Rightarrow> Inr (a \<noteq> 0) | VUInt64 a \<Rightarrow> Inr (a \<noteq> 0)
    | VFloat a \<Rightarrow> Inr (f32_rel F CmpNe a (f32_of_int F 0))
    | VDouble a \<Rightarrow> Inr (f64_rel F CmpNe a (f64_of_int F 0))
    | VString s \<Rightarrow> stringToBool kString s
    | VBinary b \<Rightarrow> binaryToBool kBinary b
    | _ \<Rightarrow> Inl (VariantTypeCastError (getValueType v) kBool))"

definition asInt8 :: "FPU \<Rightarrow> Variant \<Rightarrow> (variant_error + uint8) \<times> Variant" where
  "asInt8 F = with_streams kInt8 stringToInt8 binaryToInt8 (\<lambda>v. case v of
      VBool b \<Rightarrow> Inr (of_bool b)
    | VInt8 a \<Rightarrow> Inr a | VUInt8 a \<Rightarrow> Inr a | VInt16 a \<Rightarrow> Inr (ucast a)
    | VUInt16 a \<Rightarrow> Inr (ucast a) | VInt32 a \<Rightarrow> Inr (ucast a) | VUInt32 a \<Rightarrow> Inr (ucast a)
    | VInt64 a \<Rightarrow> Inr (ucast a) | VUInt64 a \<Rightarrow> Inr (ucast a)
    | VFloat a \<Rightarrow> truncated kInt8 (f32_trunc F a)
    | VDouble a \<Rightarrow> truncated kInt8 (f64_trunc F a)
    | VString s \<Rightarrow> stringToInt8 kString s
    | VBinary b \<Rightarrow> binaryToInt8 kBinary b
    | _ \<Rightarrow> Inl (VariantTypeCastError (getValueType v) kInt8))"

definition asUInt8 :: "FPU \<Rightarrow> Variant \<Rightarrow> (variant_error + uint8) \<times> Variant" where
  "asUInt8 F = with_streams kUInt8 stringToUInt8 binaryToUInt8 (\<lambda>v. case v of
      VBool b \<Rightarrow> Inr (of_bool b)
    | VInt8 a \<Rightarrow> Inr a | VUInt8 a \<Rightarrow> Inr a | VInt16 a \<Rightarrow> Inr (ucast a)
    | VUInt16 a \<Rightarrow> Inr (ucast a) | VInt32 a \<Rightarrow> Inr (ucast a) | VUInt32 a \<Rightarrow> Inr (ucast a)
    | VInt64 a \<Rightarrow> Inr (ucast a) | VUInt64 a \<Rightarrow> Inr (ucast a)
    | VFloat a \<Rightarrow> truncated kUInt8 (f32_trunc F a)
    | VDouble a \<Rightarrow> truncated kUInt8 (f64_trunc F a)
    | VString s \<Rightarrow> stringToUInt8 kString s
    | VBinary b \<Rightarrow> binaryToUInt8 kBinary b
    | _ \<Rightarrow> Inl (VariantTypeCastError (getValueType v) kUInt8))"

definition asInt16 :: "FPU \<Rightarrow> bool \<Rightarrow> Variant \<Rightarrow> (variant_error + uint16) \<times> Variant" where
  "asInt16 F ext = with_streams kInt16 stringToInt16 (\<lambda>src b. binaryToInt16 src b ext) (\<lambda>v. case v of
      VBool b \<Rightarrow> Inr (of_bool b)
    | VInt8 a \<Rightarrow> Inr (scast a) | VUInt8 a \<Rightarrow> Inr (ucast a) | VInt16 a \<Rightarrow> Inr a
    | VUInt16 a \<Rightarrow> Inr a | VInt32 a \<Rightarrow> Inr (ucast a) | VUInt32 a \<Rightarrow> Inr (ucast a)
    | VInt64 a \<Rightarrow> Inr (ucast a) | VUInt64 a \<Rightarrow> Inr (ucast a)
    | VFloat a \<Rightarrow> truncated kInt16 (f32_trunc F a)
    | VDouble a \<Rightarrow> truncated kInt16 (f64_trunc F a)
    | VString s \<Rightarrow> stringToInt16 kString s
    | VBinary b \<Rightarrow> binaryToInt16 kBinary b ext
    | _ \<Rightarrow> Inl (VariantTypeCastError (getValueType v) kInt16))"

definition asUInt16 :: "FPU \<Rightarrow> bool \<Rightarrow> Variant \<Rightarrow> (variant_error + uint16) \<times> Variant" where
  "asUInt16 F ext = with_streams kUInt16 stringToUInt16 (\<lambda>src b. binaryToUInt16 src b ext) (\<lambda>v. case v of
      VBool b \<Rightarrow> Inr (of_bool b)
    | VInt8 a \<Rightarrow> Inr (ucast a) | VUInt8 a \<Rightarrow> Inr (ucast a) | VInt16 a \<Rightarrow> Inr a
    | VUInt16 a \<Rightarrow> Inr a | VInt32 a \<Rightarrow> Inr (ucast a) | VUInt32 a \<Rightarrow> Inr (ucast a)
    | VInt64 a \<Rightarrow> Inr (ucast a) | VUInt64 a \<Rightarrow> Inr (ucast a)
    | VFloat a \<Rightarrow> truncated kUInt16 (f32_trunc F a)
    | VDouble a \<Rightarrow> truncated kUInt16 (f64_trunc F a)
    | VString s \<Rightarrow> stringToUInt16 kString s
    | VBinary b \<Rightarrow> binaryToUInt16 kBinary b ext
    | _ \<Rightarrow> Inl (VariantTypeCastError (getValueType v) kUInt16))"

definition asInt32 :: "FPU \<Rightarrow> bool \<Rightarrow> Variant \<Rightarrow> (variant_error + uint32) \<times> Variant" where
  "asInt32 F ext = with_streams kInt32 stringToInt32 (\<lambda>src b. binaryToInt32 src b ext) (\<lambda>v. case v of
      VBool b \<Rightarrow> Inr (of_bool b)
    | VInt8 a \<Rightarrow> Inr (ucast a) | VUInt8 a \<Rightarrow> Inr (ucast a) | VInt16 a \<Rightarrow> Inr (scast a)
    | VUInt16 a \<Rightarrow> Inr (ucast a) | VInt32 a \<Rightarrow> Inr a | VUInt32 a \<Rightarrow> Inr a
    | VInt64 a \<Rightarrow> Inr (ucast a) | VUInt64 a \<Rightarrow> Inr (ucast a)
    | VFloat a \<Rightarrow> truncated kInt32 (f32_trunc F a)
    | VDouble a \<Rightarrow> truncated kInt32 (f64_trunc F a)
    | VString s \<Rightarrow> stringToInt32 kString s
    | VBinary b \<Rightarrow> binaryToInt32 kBinary b ext
    | _ \<Rightarrow> Inl (VariantTypeCastError (getValueType v) kInt32))"

definition asUInt32 :: "FPU \<Rightarrow> bool \<Rightarrow> Variant \<Rightarrow> (variant_error + uint32) \<times> Variant" where
  "asUInt32 F ext = with_streams kUInt32 stringToUInt32 (\<lambda>src b. binaryToUInt32 src b ext) (\<lambda>v. case v of
      VBool b \<Rightarrow> Inr (of_bool b)
    | VInt8 a \<Rightarrow> Inr (ucast a) | VUInt8 a \<Rightarrow> Inr (ucast a) | VInt16 a \<Rightarrow> Inr (scast a)
    | VUInt16 a \<Rightarrow> Inr (ucast a) | VInt32 a \<Rightarrow> Inr a | VUInt32 a \<Rightarrow> Inr a
    | VInt64 a \<Rightarrow> Inr (ucast a) | VUInt64 a \<Rightarrow> Inr (ucast a)
    | VFloat a \<Rightarrow> truncated kUInt32 (f32_trunc F a)
    | VDouble a \<Rightarrow> truncated kUInt32 (f64_trunc F a)
    | VString s \<Rightarrow> stringToUInt32 kString s
    | VBinary b \<Rightarrow> binaryToUInt32 kBinary b ext
    | _ \<Rightarrow> Inl (VariantTypeCastError (getValueType v) kUInt32))"

definition asInt64 :: "FPU \<Rightarrow> bool \<Rightarrow> Variant \<Rightarrow> (variant_error + uint64) \<times> Variant" where
  "asInt64 F ext = with_streams kInt64 stringToInt64 (\<lambda>src b. binaryToInt64 src b ext) (\<lambda>v. case v of
      VBool b \<Rightarrow> Inr (of_bool b)
    | VInt8 a \<Rightarrow> Inr (ucast a) | VUInt8 a \<Rightarrow> Inr (ucast a) | VInt16 a \<Rightarrow> Inr (scast a)
    | VUInt16 a \<Rightarrow> Inr (ucast a) | VInt32 a \<Rightarrow> Inr (scast a) | VUInt32 a \<Rightarrow> Inr (ucast a)
    | VInt64 a \<Rightarrow> Inr a | VUInt64 a \<Rightarrow> Inr a
    | VFloat a \<Rightarrow> truncated kInt64 (f32_trunc F a)
    | VDouble a \<Rightarrow> truncated kInt64 (f64_trunc F a)
    | VString s \<Rightarrow> stringToInt64 kString s
    | VBinary b \<Rightarrow> binaryToInt64 kBinary b ext
    | _ \<Rightarrow> Inl (VariantTypeCastError (getValueType v) kInt64))"

definition asUInt64 :: "FPU \<Rightarrow> bool \<Rightarrow> Variant \<Rightarrow> (variant_error + uint64) \<times> Variant" where
  "asUInt64 F ext = with_streams kUInt64 stringToUInt64 (\<lambda>src b. binaryToUInt64 src b ext) (\<lambda>v. case v of
      VBool b \<Rightarrow> Inr (of_bool b)
    | VInt8 a \<Rightarrow> Inr (ucast a) | VUInt8 a \<Rightarrow> Inr (ucast a) | VInt16 a \<Rightarrow> Inr (scast a)
    | VUInt16 a \<Rightarrow> Inr (ucast a) | VInt32 a \<Rightarrow> Inr (scast a) | VUInt32 a \<Rightarrow> Inr (ucast a)
    | VInt64 a \<Rightarrow> Inr a | VUInt64 a \<Rightarrow> Inr a
    | VFloat a \<Rightarrow> truncated kUInt64 (f32_trunc F a)
    | VDouble a \<Rightarrow> truncated kUInt64 (f64_trunc F a)
    | VString s \<Rightarrow> stringToUInt64 kString s
    | VBinary b \<Rightarrow> binaryToUInt64 kBinary b ext
    | _ \<Rightarrow> Inl (VariantTypeCastError (getValueType v) kUInt64))"

definition asFloat :: "FPU \<Rightarrow> Variant \<Rightarrow> (variant_error + uint32) \<times> Variant" where
  "asFloat F = with_streams kFloat (stringToFloat F) binaryToFloat (\<lambda>v. case v of
      VBool b \<Rightarrow> Inr (f32_of_int F (of_bool b))
    | VInt8 a \<Rightarrow> Inr (f32_of_int F (uint a)) | VUInt8 a \<Rightarrow> Inr (f32_of_int F (uint a))
    | VInt16 a \<Rightarrow> Inr (f32_of_int F (sint a)) | VUInt16 a \<Rightarrow> Inr (f32_of_int F (uint a))
    | VInt32 a \<Rightarrow> Inr (f32_of_int F (sint a)) | VUInt32 a \<Rightarrow> Inr (f32_of_int F (uint a))
    | VInt64 a \<Rightarrow> Inr (f32_of_int F (sint a)) | VUInt64 a \<Rightarrow> Inr (f32_of_int F (uint a))
    | VFloat a \<Rightarrow> Inr a
    | VDouble a \<Rightarrow> Inr (f32_of_f64 F a)
    | VString s \<Rightarrow> stringToFloat F kString s
    | VBinary b \<Rightarrow> binaryToFloat kBinary b
    | _ \<Rightarrow> Inl (VariantTypeCastError (getValueType v) kFloat))"

definition asDouble :: "FPU \<Rightarrow> Variant \<Rightarrow> (variant_error + uint64) \<times> Variant" where
  "asDouble F = with_streams kDouble (stringToDouble F) binaryToDouble (\<lambda>v. case v of
      VBool b \<Rightarrow> Inr (f64_of_int F (of_bool b))
    | VInt8 a \<Rightarrow> Inr (f64_of_int F (uint a)) | VUInt8 a \<Rightarrow> Inr (f64_of_int F (uint a))
    | VInt16 a \<Rightarrow> Inr (f64_of_int F (sint a)) | VUInt16 a \<Rightarrow> Inr (f64_of_int F (uint a))
    | VInt32 a \<Rightarrow> Inr (f64_of_int F (sint a)) | VUInt32 a \<Rightarrow> Inr (f64_of_int F (uint a))
    | VInt64 a \<Rightarrow> Inr (f64_of_int F (sint a)) | VUInt64 a \<Rightarrow> Inr (f64_of_int F (uint a))
    | VFloat a \<Rightarrow> Inr (f64_of_f32 F a)
    | VDouble a \<Rightarrow> Inr a
    | VString s \<Rightarrow> stringToDouble F kString s
    | VBinary b \<Rightarrow> binaryToDouble kBinary b
    | _ \<Rightarrow> Inl (VariantTypeCastError (getValueType v) kDouble))"

section \<open>Conversions to dates, strings and binary values\<close>

text \<open>A 64-bit unsigned time stamp is reinterpreted as signed; a format given by the caller takes precedence over the
  one guessed from the string.\<close>

definition dated :: "Libs \<Rightarrow> string option \<Rightarrow> VariantType \<Rightarrow> bytes \<Rightarrow> variant_error + RawDateTime" where
  "dated L fmt src s = (case fmt of
      Some f \<Rightarrow> stringToDateTime L src s f
    | None \<Rightarrow> (case getDateTimeFormat s of Inl e \<Rightarrow> Inl e | Inr f \<Rightarrow> stringToDateTime L src s f))"

definition asDateTime :: "FPU \<Rightarrow> Libs \<Rightarrow> RawDateTime \<Rightarrow> string option \<Rightarrow> Variant \<Rightarrow>
    (variant_error + RawDateTime) \<times> Variant" where
  "asDateTime F L init fmt = with_streams kDateTime (dated L fmt) (binaryToDateTime init) (\<lambda>v.
    let stamp = timestampToDateTime L init (getValueType v) in case v of
      VBool b \<Rightarrow> stamp (of_bool b)
    | VInt8 a \<Rightarrow> stamp (sint a) | VUInt8 a \<Rightarrow> stamp (uint a) | VInt16 a \<Rightarrow> stamp (sint a)
    | VUInt16 a \<Rightarrow> stamp (uint a) | VInt32 a \<Rightarrow> stamp (sint a) | VUInt32 a \<Rightarrow> stamp (uint a)
    | VInt64 a \<Rightarrow> stamp (sint a) | VUInt64 a \<Rightarrow> stamp (sint a)
    | VFloat a \<Rightarrow> (case f32_trunc F a of
          Some i \<Rightarrow> if fits kInt64 i then stamp i else Inl UndefinedBehaviour | None \<Rightarrow> Inl UndefinedBehaviour)
    | VDouble a \<Rightarrow> (case f64_trunc F a of
          Some i \<Rightarrow> if fits kInt64 i then stamp i else Inl UndefinedBehaviour | None \<Rightarrow> Inl UndefinedBehaviour)
    | VDateTime dt \<Rightarrow> Inr dt
    | VString s \<Rightarrow> dated L fmt kString s
    | VBinary b \<Rightarrow> binaryToDateTime init kBinary b
    | _ \<Rightarrow> Inl (VariantTypeCastError (getValueType v) kDateTime))"

text \<open>\<open>std::to_string\<close> of an integer is its decimal notation; floating-point numbers are printed into a buffer of
  128 characters, the terminator included.\<close>

definition to_text :: "int \<Rightarrow> bytes" where
  "to_text i = bytes_of (fmt_d i)"

definition asStringInternal :: "FPU \<Rightarrow> Libs \<Rightarrow> string option \<Rightarrow> Variant \<Rightarrow>
    (variant_error + bytes) \<times> Variant" where
  "asStringInternal F L fmt = with_streams kString (\<lambda>_ s. Inr s)
    (\<lambda>src b. binaryToString L src b kString kMaxStringValueLength) (\<lambda>v. case v of
      VBool b \<Rightarrow> Inr (if b then kTrueString else kFalseString)
    | VInt8 a \<Rightarrow> Inr (to_text (sint a)) | VUInt8 a \<Rightarrow> Inr (to_text (uint a))
    | VInt16 a \<Rightarrow> Inr (to_text (sint a)) | VUInt16 a \<Rightarrow> Inr (to_text (uint a))
    | VInt32 a \<Rightarrow> Inr (to_text (sint a)) | VUInt32 a \<Rightarrow> Inr (to_text (uint a))
    | VInt64 a \<Rightarrow> Inr (to_text (sint a)) | VUInt64 a \<Rightarrow> Inr (to_text (uint a))
    | VFloat a \<Rightarrow> Inr (take 127 (f64_print8 F (f64_of_f32 F a)))
    | VDouble a \<Rightarrow> Inr (take 127 (f64_print8 F a))
    | VDateTime dt \<Rightarrow>
        Inr (bytes_of (date_print L (case fmt of Some f \<Rightarrow> f | None \<Rightarrow> kDefaultDateTimeFormat) (format_duration dt)))
    | VString s \<Rightarrow> Inr s
    | VBinary b \<Rightarrow> binaryToString L kBinary b kString kMaxStringValueLength
    | _ \<Rightarrow> Inl (VariantTypeCastError (getValueType v) kString))"

text \<open>A double is encoded from the single precision member of the union: its low 32 bits, read as a single precision
  number and widened.\<close>

definition asBinaryInternal :: "FPU \<Rightarrow> Variant \<Rightarrow> (variant_error + bytes) \<times> Variant" where
  "asBinaryInternal F = with_streams kBinary (\<lambda>_ s. Inr s) (\<lambda>_ b. Inr b) (\<lambda>v. case v of
      VBool b \<Rightarrow> Inr [of_bool b]
    | VInt8 a \<Rightarrow> Inr [a] | VUInt8 a \<Rightarrow> Inr [a]
    | VInt16 a \<Rightarrow> Inr (pbeEncodeInt16 a) | VUInt16 a \<Rightarrow> Inr (pbeEncodeUInt16 a)
    | VInt32 a \<Rightarrow> Inr (pbeEncodeInt32 a) | VUInt32 a \<Rightarrow> Inr (pbeEncodeUInt32 a)
    | VInt64 a \<Rightarrow> Inr (pbeEncodeUInt64 a) | VUInt64 a \<Rightarrow> Inr (pbeEncodeUInt64 a)
    | VFloat a \<Rightarrow> Inr (pbeEncodeFloat a)
    | VDouble a \<Rightarrow> Inr (pbeEncodeDouble (f64_of_f32 F (ucast a)))
    | VDateTime dt \<Rightarrow> Inr (rawdatetime_serialize dt)
    | VString s \<Rightarrow> Inr s
    | VBinary b \<Rightarrow> Inr b
    | _ \<Rightarrow> Inl (VariantTypeCastError (getValueType v) kBinary))"

text \<open>\<open>concatenate\<close> joins the two texts; both operands may be streams and are read.\<close>

definition concatenate :: "FPU \<Rightarrow> Libs \<Rightarrow> Variant \<Rightarrow> Variant \<Rightarrow> (variant_error + Variant) \<times> Variant \<times> Variant" where
  "concatenate F L v w =
    (let (ra, v') = asStringInternal F L None v in
     case ra of
       Inl e \<Rightarrow> (Inl e, v', w)
     | Inr a \<Rightarrow>
        (let (rb, w') = asStringInternal F L None w in
         case rb of Inl e \<Rightarrow> (Inl e, v', w') | Inr b \<Rightarrow> (Inr (VString (a @ b)), v', w')))"

section \<open>Integer conversions\<close>

lemma ucast_narrows:
  assumes "LENGTH('b) \<le> LENGTH('a)"
  shows "(ucast (a :: 'a::len word) :: 'b::len word) = scast a"
proof (rule bit_word_eqI)
  fix n
  assume n: "n < LENGTH('b)"
  with assms have "n < LENGTH('a) - Suc 0 \<or> n = LENGTH('a) - Suc 0" by arith
  with n show "bit (ucast a :: 'b word) n = bit (scast a :: 'b word) n"
    by (auto simp: bit_simps min_def)
qed

lemmas as_int_defs =
  asInt8_def asUInt8_def asInt16_def asUInt16_def asInt32_def asUInt32_def asInt64_def asUInt64_def

text \<open>The number that the wide conversions read: the byte of an 8-bit signed value is taken as unsigned.\<close>

definition widenedValue :: "Variant \<Rightarrow> int" where
  "widenedValue v = (case v of VInt8 a \<Rightarrow> uint a | _ \<Rightarrow> intValue v)"



section \<open>Integers as text\<close>

lemma char_bytes: "n < 256 \<Longrightarrow> bytes_of [char_of n] = [of_nat n]"
  by (simp add: bytes_of_def)

lemma digit_value_char:
  assumes "d < 10"
  shows "digit_value (of_nat (48 + d)) = d"
proof -
  have "unat (of_nat (48 + d) :: uint8) = 48 + d"
    using assms by (simp only: unat_of_nat) simp
  then show ?thesis
    using assms by (simp add: digit_value_def word_le_nat_alt del: of_nat_add)
qed

lemma bytes_of_append: "bytes_of (s @ r) = bytes_of s @ bytes_of r"
  by (simp add: bytes_of_def)

lemma scan_digits_append:
  assumes "\<forall>c \<in> set s. digit_value c < base"
  shows "scan_digits base acc (s @ r) =
    (let (m, n) = scan_digits base acc s; (m', n') = scan_digits base m r in (m', n + n'))"
  using assms by (induction s arbitrary: acc) (auto simp: Let_def split: prod.splits)

lemma scan_dec_digits:
  "scan_digits 10 acc (bytes_of (dec_digits n)) = (acc * 10 ^ length (dec_digits n) + n, length (dec_digits n)) \<and>
   (\<forall>c \<in> set (bytes_of (dec_digits n)). digit_value c < 10)"
proof (induction n arbitrary: acc rule: dec_digits.induct)
  case (1 n)
  show ?case
  proof (cases "n < 10")
    case True
    then show ?thesis
      by (subst (1 2 3 4) dec_digits.simps) (simp add: char_bytes digit_value_char del: of_nat_add)
  next
    case False
    have "bytes_of (dec_digits n) = bytes_of (dec_digits (n div 10)) @ [of_nat (48 + n mod 10)]"
      using False by (subst dec_digits.simps) (simp add: bytes_of_append char_bytes del: of_nat_add)
    moreover have "length (dec_digits n) = Suc (length (dec_digits (n div 10)))"
      using False by (subst dec_digits.simps) simp
    ultimately show ?thesis
      using 1 [OF False] digit_value_char [of "n mod 10"]
      by (simp add: scan_digits_append algebra_simps del: of_nat_add)
  qed
qed

lemma dec_digits_hd:
  "0 < n \<Longrightarrow> \<exists>c cs. bytes_of (dec_digits n) = c # cs \<and> 49 \<le> c \<and> c \<le> 57"
proof (induction n rule: dec_digits.induct)
  case (1 n)
  show ?case
  proof (cases "n < 10")
    case True
    then have "unat (of_nat (48 + n) :: uint8) = 48 + n" by (simp only: unat_of_nat) simp
    with True 1(2) show ?thesis
      by (subst dec_digits.simps) (simp add: char_bytes word_le_nat_alt del: of_nat_add)
  next
    case False
    then have "0 < n div 10" by (simp add: div_greater_zero_iff)
    with 1(1) [OF False] False show ?thesis
      by (subst dec_digits.simps) (auto simp: bytes_of_append)
  qed
qed

lemma minus_byte: "of_nat (of_char (CHR ''-'')) = (45 :: uint8)"
  by simp

lemma scan_base_dec: "scan_base (bytes_of (dec_digits n)) = (if n = 0 then 8 else 10, 0)"
proof (cases "n = 0")
  case True
  then show ?thesis by (simp add: dec_digits.simps [of 0] bytes_of_def scan_base_def)
next
  case False
  then obtain c cs where "bytes_of (dec_digits n) = c # cs" "49 \<le> c" using dec_digits_hd by blast
  with False show ?thesis by (auto simp: scan_base_def split: list.splits)
qed

lemma scan_text_digits:
  obtains base where "scan_base (bytes_of (dec_digits n)) = (base, 0)"
    and "scan_digits base 0 (bytes_of (dec_digits n)) = (n, length (dec_digits n))"
proof (cases "n = 0")
  case True
  then show ?thesis
    using that [of 8] scan_base_dec [of 0]
    by (simp add: dec_digits.simps [of 0] bytes_of_def digit_value_def)
next
  case False
  then show ?thesis
    using that [of 10] scan_dec_digits [of 0 n] by (simp add: scan_base_dec)
qed

lemma dec_digits_pos: "0 < length (dec_digits n)"
  by (subst dec_digits.simps) simp

lemma dec_digits_first:
  obtains c cs where "bytes_of (dec_digits n) = c # cs" and "48 \<le> c" and "c \<le> 57"
proof (cases "n = 0")
  case True
  then show ?thesis using that by (simp add: dec_digits.simps [of 0] bytes_of_def)
next
  case False
  then obtain c cs where c: "bytes_of (dec_digits n) = c # cs" "49 \<le> c" "c \<le> 57" using dec_digits_hd by blast
  moreover have "48 \<le> c" using c(2) by (rule order_trans [rotated]) simp
  ultimately show ?thesis using that by blast
qed

lemma length_bytes_of [simp]: "length (bytes_of s) = length s"
  by (simp add: bytes_of_def)

lemma strto_text: "strto (to_text z) = Some (z < 0, nat \<bar>z\<bar>, length (to_text z))"
proof -
  obtain base where b: "scan_base (bytes_of (dec_digits (nat \<bar>z\<bar>))) = (base, 0)"
    "scan_digits base 0 (bytes_of (dec_digits (nat \<bar>z\<bar>))) = (nat \<bar>z\<bar>, length (dec_digits (nat \<bar>z\<bar>)))"
    by (rule scan_text_digits)
  obtain c cs where c: "bytes_of (dec_digits (nat \<bar>z\<bar>)) = c # cs" "48 \<le> c" "c \<le> 57" by (rule dec_digits_first)
  have nc: "\<not> isspace c" "c \<noteq> 45" "c \<noteq> 43" using c(2) by (auto simp: isspace_def word_le_nat_alt)
  show ?thesis
  proof (cases "z < 0")
    case True
    then have "to_text z = 45 # bytes_of (dec_digits (nat \<bar>z\<bar>))"
      by (simp add: to_text_def fmt_d_def bytes_of_def)
    with True b dec_digits_pos [of "nat \<bar>z\<bar>"] show ?thesis
      by (simp add: strto_def isspace_def)
  next
    case False
    then have "to_text z = bytes_of (dec_digits (nat \<bar>z\<bar>))"
      by (simp add: to_text_def fmt_d_def)
    moreover have "length (dec_digits (nat \<bar>z\<bar>)) = Suc (length cs)"
      using c(1) length_bytes_of [of "dec_digits (nat \<bar>z\<bar>)"] by simp
    ultimately show ?thesis
      using False b nc unfolding c(1) by (simp add: strto_def)
  qed
qed

lemma stoll_text: "stoll (to_text z) = (if fits kInt64 z then Some (z, length (to_text z)) else None)"
  by (simp add: stoll_def strto_text Let_def)

lemma stoull_text: "fits kUInt64 z \<Longrightarrow> stoull (to_text z) = Some (z, length (to_text z))"
  by (simp add: stoull_def strto_text fits_def isSignedType_def type_width_def nat_less_iff)

lemma string_to_signed_text:
  assumes "\<And>x. fits dst x \<Longrightarrow> fits kInt64 x"
  shows "string_to stoll src dst (to_text z) =
    (if fits dst z then Inr (word_of_int z) else Inl (VariantTypeCastError src dst))"
  using assms by (auto simp: string_to_def stoll_text)

lemma string_to_unsigned_text:
  assumes "fits dst z" and "fits kUInt64 z"
  shows "string_to stoull src dst (to_text z) = Inr (word_of_int z)"
  using assms by (simp add: string_to_def stoull_text)

lemma narrower_fits:
  "fits kInt8 z \<Longrightarrow> fits kInt64 z" "fits kInt16 z \<Longrightarrow> fits kInt64 z" "fits kInt32 z \<Longrightarrow> fits kInt64 z"
  "fits kUInt8 z \<Longrightarrow> fits kUInt64 z" "fits kUInt16 z \<Longrightarrow> fits kUInt64 z" "fits kUInt32 z \<Longrightarrow> fits kUInt64 z"
  by (auto simp: fits_def isSignedType_def type_width_def)

lemma asString_integer:
  "isIntegerType (getValueType v) \<Longrightarrow> asStringInternal F L fmt v = (Inr (to_text (intValue v)), v)"
  by (cases v) (simp_all add: isIntegerType_def asStringInternal_def with_streams_def intValue_def)



end
