(* ===== verification/VariantSerial.thy ===== *)
theory VariantSerial
  imports VariantConv
begin

text \<open>
  Serialization of values (\<open>Variant_Serialization.cpp\<close>): one byte with the type code, then the payload.  Streams
  are written in full and rewound; they are read back as new streams over the bytes.  The
  deserializer hands its decoders the pointer after the type byte but the length of the whole
  buffer, so they see one byte more than the buffer holds: that byte is an argument of the model.
\<close>

section \<open>Size\<close>

definition lob_serialized_size :: "nat \<Rightarrow> LobStream \<Rightarrow> nat" where
  "lob_serialized_size maxLength l =
    (if unat (lob_size l) > maxLength then 2
     else getVarUInt32Size (lob_size l) + unat (lob_size l) + 1)"

definition variant_getSerializedSize :: "Variant \<Rightarrow> nat" where
  "variant_getSerializedSize v = (case v of
      VBool _ \<Rightarrow> 2 | VInt8 _ \<Rightarrow> 2 | VUInt8 _ \<Rightarrow> 2
    | VInt16 a \<Rightarrow> getVarInt16Size a + 1
    | VUInt16 a \<Rightarrow> getVarUInt16Size a + 1
    | VInt32 a \<Rightarrow> getVarInt32Size a + 1
    | VUInt32 a \<Rightarrow> getVarUInt32Size a + 1
    | VInt64 a \<Rightarrow> getVarInt64Size a + 1
    | VUInt64 a \<Rightarrow> getVarUInt64Size a + 1
    | VFloat _ \<Rightarrow> 5
    | VDouble _ \<Rightarrow> 9
    | VDateTime dt \<Rightarrow> rawdatetime_getSerializedSize dt + 1
    | VString s \<Rightarrow> getSerializedSize_string s + 1
    | VBinary b \<Rightarrow> getSerializedSize_binary b + 1
    | VClob l \<Rightarrow> lob_serialized_size kMaxStringValueLength l
    | VBlob l \<Rightarrow> lob_serialized_size kMaxBinaryValueLength l
    | VNull \<Rightarrow> 1)"

section \<open>Writing\<close>

text \<open>The copy loop of the stream branches.  It does not end when the stream runs dry before the announced size;
  as many turns as bytes wanted are enough otherwise.\<close>

fun lob_copy_loop :: "nat \<Rightarrow> LobStream \<Rightarrow> nat \<Rightarrow> (bytes \<times> LobStream) option" where
  "lob_copy_loop n l remaining =
    (if remaining = 0 then Some ([], l)
     else case n of
       0 \<Rightarrow> None
     | Suc n' \<Rightarrow>
        (let (chunk, l') = lob_read l remaining in
         case lob_copy_loop n' l' (remaining - length chunk) of
           None \<Rightarrow> None
         | Some (later, l'') \<Rightarrow> Some (chunk @ later, l'')))"

declare lob_copy_loop.simps [simp del]

definition serialize_lob :: "nat \<Rightarrow> LobStream \<Rightarrow> (variant_error + bytes) \<times> LobStream" where
  "serialize_lob maxLength l =
    (if unat (lob_size l) > maxLength then (Inl VariantSerializationError, l)
     else
       let l1 = lob_rewind l; remaining = unat (lob_size l) in
       case lob_copy_loop remaining l1 remaining of
         None \<Rightarrow> (Inl NonTermination, l1)
       | Some (data, l2) \<Rightarrow> (Inr (encodeVarUInt32 (lob_size l) @ data), lob_rewind l2))"

definition type_byte :: "Variant \<Rightarrow> uint8" where
  "type_byte v = of_nat (type_code (getValueType v))"

definition variant_serializeUnchecked :: "Variant \<Rightarrow> (variant_error + bytes) \<times> Variant" where
  "variant_serializeUnchecked v =
    (let written = (\<lambda>bs. (Inr (type_byte v # bs), v));
         stream = (\<lambda>con (res, l). (map_sum (\<lambda>e. e) (\<lambda>bs. type_byte v # bs) res, con l)) in
     case v of
       VBool b \<Rightarrow> written [if b then 1 else 0]
     | VInt8 a \<Rightarrow> written [a]
     | VUInt8 a \<Rightarrow> written [a]
     | VInt16 a \<Rightarrow> written (encodeVarInt16 a)
     | VUInt16 a \<Rightarrow> written (encodeVarUInt16 a)
     | VInt32 a \<Rightarrow> written (encodeVarInt32 a)
     | VUInt32 a \<Rightarrow> written (encodeVarUInt32 a)
     | VInt64 a \<Rightarrow> written (encodeVarInt64 a)
     | VUInt64 a \<Rightarrow> written (encodeVarUInt64 a)
     | VFloat a \<Rightarrow> written (pbeEncodeFloat a)
     | VDouble a \<Rightarrow> written (pbeEncodeDouble a)
     | VDateTime dt \<Rightarrow> written (rawdatetime_serialize dt)
     | VString s \<Rightarrow> written (encodeVarUInt64 (of_nat (length s)) @ (if s = [] then [] else s))
     | VBinary b \<Rightarrow> written (encodeVarUInt64 (of_nat (length b)) @ (if b = [] then [] else b))
     | VClob l \<Rightarrow> stream VClob (serialize_lob kMaxStringValueLength l)
     | VBlob l \<Rightarrow> stream VBlob (serialize_lob kMaxBinaryValueLength l)
     | VNull \<Rightarrow> written [])"

section \<open>Reading\<close>

definition decoded :: "('a \<Rightarrow> Variant) \<Rightarrow> 'a decode_result \<Rightarrow> variant_error + (Variant \<times> nat)" where
  "decoded con r = (case r of
      DecOk consumed x \<Rightarrow> Inr (con x, consumed + 1)
    | DecNotEnough \<Rightarrow> Inl VariantDeserializationError
    | DecCorrupt \<Rightarrow> Inl VariantDeserializationError
    | DecOverrun \<Rightarrow> Inl UndefinedBehaviour)"

definition decoded_object ::
  "('a \<Rightarrow> Variant) \<Rightarrow> deser_error + ('a \<times> nat) \<Rightarrow> variant_error + (Variant \<times> nat)" where
  "decoded_object con r = (case r of
      Inl e \<Rightarrow> Inl (ObjectDeserializationError e) | Inr (x, consumed) \<Rightarrow> Inr (con x, consumed + 1))"

definition decoded_float :: "nat \<Rightarrow> ('a \<Rightarrow> Variant) \<Rightarrow> nat \<Rightarrow> ('a \<times> nat) option \<Rightarrow> variant_error + (Variant \<times> nat)" where
  "decoded_float n con available r =
    (if available < n then Inl VariantDeserializationError
     else case r of None \<Rightarrow> Inl UndefinedBehaviour | Some (x, _) \<Rightarrow> Inr (con x, n + 1))"

text \<open>\<open>over\<close> is the byte after the buffer, \<open>dt0\<close> the contents of an uninitialised local variable and \<open>addr\<close> the address
  of the stream object that is created.\<close>

definition variant_deserialize ::
  "RawDateTime \<Rightarrow> nat \<Rightarrow> uint8 \<Rightarrow> bytes \<Rightarrow> variant_error + (Variant \<times> nat)" where
  "variant_deserialize dt0 addr over buffer = (case buffer of
      [] \<Rightarrow> Inl VariantDeserializationError
    | b # rest \<Rightarrow>
       (let len = length buffer; src = rest @ [over] in
        if unat b \<ge> type_code kMax then Inl VariantDeserializationError
        else case all_types ! unat b of
          kNull \<Rightarrow> Inr (VNull, 1)
        | kBool \<Rightarrow> Inr (VBool (hd src \<noteq> 0), 2)
        | kInt8 \<Rightarrow> Inr (VInt8 (hd src), 2)
        | kUInt8 \<Rightarrow> Inr (VUInt8 (hd src), 2)
        | kInt16 \<Rightarrow> decoded VInt16 (decodeVarInt16 src)
        | kUInt16 \<Rightarrow> decoded VUInt16 (decodeVarUInt16 src)
        | kInt32 \<Rightarrow> decoded VInt32 (decodeVarInt32 src)
        | kUInt32 \<Rightarrow> decoded VUInt32 (decodeVarUInt32 src)
        | kInt64 \<Rightarrow> decoded VInt64 (decodeVarInt64 src)
        | kUInt64 \<Rightarrow> decoded VUInt64 (decodeVarUInt64 src)
        | kFloat \<Rightarrow> decoded_float 4 VFloat len (pbeDecodeFloat src)
        | kDouble \<Rightarrow> decoded_float 8 VDouble len (pbeDecodeDouble src)
        | kDateTime \<Rightarrow>
            (let (dt, consumed) = rawdatetime_deserialize dt0 src in
             if consumed = 0 then Inl VariantDeserializationError else Inr (VDateTime dt, consumed + 1))
        | kString \<Rightarrow> decoded_object VString (deserializeObject_string src)
        | kBinary \<Rightarrow> decoded_object VBinary (deserializeObject_binary src)
        | kClob \<Rightarrow> decoded_object (\<lambda>s. VClob (newLobStream addr s)) (deserializeObject_string src)
        | kBlob \<Rightarrow> decoded_object (\<lambda>s. VBlob (newLobStream addr s)) (deserializeObject_binary src)
        | _ \<Rightarrow> Inl VariantDeserializationError))"

section \<open>Streams are copied in full\<close>

definition lob_ok :: "LobStream \<Rightarrow> bool" where
  "lob_ok l \<longleftrightarrow> lob_size l = of_nat (length (lob_content l)) \<and> length (lob_content l) < 2 ^ 32"

lemma lob_copy_all:
  assumes "lob_ok l" and "lob_pos l = 0" and "remaining = unat (lob_size l)"
  shows "\<exists>l'. lob_copy_loop remaining l remaining = Some (lob_content l, l') \<and> lob_rewind l' = l"
proof (cases "remaining = 0")
  case True
  with assms show ?thesis
    by (simp add: lob_copy_loop.simps lob_ok_def lob_rewind_def unat_of_nat)
next
  case False
  with assms have r: "remaining = length (lob_content l)" "lob_content l \<noteq> []"
    by (auto simp: lob_ok_def unat_of_nat)
  have read: "lob_read l remaining = (lob_content l, l\<lparr>lob_pos := of_nat remaining\<rparr>)"
    using assms(2) r by (simp add: lob_read_def slice_def)
  obtain n where n: "remaining = Suc n" using False not0_implies_Suc by blast
  have "length (lob_content l) = Suc n" "l\<lparr>lob_pos := 0\<rparr> = l" using assms(2) r n by simp_all
  moreover have "lob_copy_loop n l' 0 = Some ([], l')" for l'
    by (simp add: lob_copy_loop.simps)
  ultimately show ?thesis
    using read unfolding n by (subst lob_copy_loop.simps) (simp add: lob_rewind_def)
qed

lemma serialize_lob_ok:
  assumes "lob_ok l" and "unat (lob_size l) \<le> maxLength"
  shows "serialize_lob maxLength l = (Inr (encodeVarUInt32 (lob_size l) @ lob_content l), lob_rewind l)"
proof -
  have "lob_ok (lob_rewind l)" "lob_pos (lob_rewind l) = 0" "lob_size (lob_rewind l) = lob_size l"
    "lob_content (lob_rewind l) = lob_content l"
    using assms(1) by (simp_all add: lob_ok_def lob_rewind_def)
  with lob_copy_all [of "lob_rewind l" "unat (lob_size l)"] assms(2) show ?thesis
    by (auto simp: serialize_lob_def Let_def)
qed

section \<open>Round trip\<close>

text \<open>The values that are read back as they were: dates whose presence flag tells whether there is a time, and streams
  within the size limit.\<close>

definition serializable :: "Variant \<Rightarrow> bool" where
  "serializable v = (case v of
      VString s \<Rightarrow> length s < 2 ^ 64
    | VBinary b \<Rightarrow> length b < 2 ^ 64
    | VDateTime dt \<Rightarrow> m_reserved2 (m_timePart dt) = 0 \<and>
        (m_hasTimePart (m_datePart dt) \<longleftrightarrow> rawtime_image (m_timePart dt) AND kTimeMask \<noteq> 0)
    | VClob l \<Rightarrow> lob_ok l \<and> unat (lob_size l) \<le> kMaxStringValueLength
    | VBlob l \<Rightarrow> lob_ok l \<and> unat (lob_size l) \<le> kMaxBinaryValueLength
    | _ \<Rightarrow> True)"

definition reloaded :: "nat \<Rightarrow> Variant \<Rightarrow> Variant" where
  "reloaded addr v = (case v of
      VClob l \<Rightarrow> VClob (newLobStream addr (lob_content l))
    | VBlob l \<Rightarrow> VBlob (newLobStream addr (lob_content l))
    | _ \<Rightarrow> v)"

definition rewound :: "Variant \<Rightarrow> Variant" where
  "rewound v = (case v of VClob l \<Rightarrow> VClob (lob_rewind l) | VBlob l \<Rightarrow> VBlob (lob_rewind l) | _ \<Rightarrow> v)"

text \<open>The payload alone.\<close>

definition payload :: "Variant \<Rightarrow> bytes" where
  "payload v = (case v of
      VBool b \<Rightarrow> [if b then 1 else 0] | VInt8 a \<Rightarrow> [a] | VUInt8 a \<Rightarrow> [a]
    | VInt16 a \<Rightarrow> encodeVarInt16 a | VUInt16 a \<Rightarrow> encodeVarUInt16 a | VInt32 a \<Rightarrow> encodeVarInt32 a
    | VUInt32 a \<Rightarrow> encodeVarUInt32 a | VInt64 a \<Rightarrow> encodeVarInt64 a | VUInt64 a \<Rightarrow> encodeVarUInt64 a
    | VFloat a \<Rightarrow> pbeEncodeFloat a | VDouble a \<Rightarrow> pbeEncodeDouble a
    | VDateTime dt \<Rightarrow> rawdatetime_serialize dt
    | VString s \<Rightarrow> serializeUnchecked_string s | VBinary b \<Rightarrow> serializeUnchecked_binary b
    | VClob l \<Rightarrow> serializeUnchecked_string (lob_content l)
    | VBlob l \<Rightarrow> serializeUnchecked_binary (lob_content l)
    | VNull \<Rightarrow> [])"

lemma lob_prefix:
  assumes "lob_ok l"
  shows "encodeVarUInt32 (lob_size l) = encodeVarUInt64 (of_nat (length (lob_content l)))"
    and "getVarUInt32Size (lob_size l) = getVarUInt64Size (of_nat (length (lob_content l)))"
    and "unat (lob_size l) = length (lob_content l)"
  using assms by (simp_all add: lob_ok_def encodeVarUInt_vi getVarUIntSize_vi unat_of_nat)

lemma serialize_payload:
  assumes "serializable v"
  shows "variant_serializeUnchecked v = (Inr (type_byte v # payload v), rewound v)"
proof (cases v)
  case (VClob l)
  with assms serialize_lob_ok [of l kMaxStringValueLength] lob_prefix(1) [of l] show ?thesis
    by (simp add: variant_serializeUnchecked_def payload_def rewound_def serializable_def
        serializeUnchecked_string_def)
next
  case (VBlob l)
  with assms serialize_lob_ok [of l kMaxBinaryValueLength] lob_prefix(1) [of l] show ?thesis
    by (simp add: variant_serializeUnchecked_def payload_def rewound_def serializable_def
        serializeUnchecked_binary_def)
qed (simp_all add: variant_serializeUnchecked_def payload_def rewound_def
    serializeUnchecked_string_def serializeUnchecked_binary_def)

lemma payload_size:
  assumes "serializable v"
  shows "Suc (length (payload v)) = variant_getSerializedSize v"
proof (cases v)
  case (VClob l)
  with assms lob_prefix(2,3) [of l] show ?thesis
    by (auto simp: payload_def variant_getSerializedSize_def serializable_def lob_serialized_size_def
        getSerializedSize_string_def)
next
  case (VBlob l)
  with assms lob_prefix(2,3) [of l] show ?thesis
    by (auto simp: payload_def variant_getSerializedSize_def serializable_def lob_serialized_size_def
        getSerializedSize_binary_def)
next
  case (VDateTime dt)
  with assms show ?thesis
    by (simp add: payload_def variant_getSerializedSize_def serializable_def rawdatetime_serialize_def
        rawdatetime_getSerializedSize_def Let_def)
qed (simp_all add: payload_def variant_getSerializedSize_def svar16.length_ser svar32.length_ser
    svar64.length_ser pbeEncodeFloat_def pbeEncodeDouble_def pbe32.length_ser pbe64.length_ser)

lemma all_types_code: "t \<noteq> kMax \<Longrightarrow> all_types ! type_code t = t"
  by (cases t) (simp_all add: all_types_def type_code_def)

lemma unat_type_byte: "unat (type_byte v) = type_code (getValueType v)"
  by (cases v) (simp_all add: type_byte_def type_code_def)

lemma type_byte_reads:
  "\<not> type_code kMax \<le> unat (type_byte v)" "all_types ! unat (type_byte v) = getValueType v"
  by (cases v; simp add: unat_type_byte type_code_def all_types_def)+

lemma pbe_float_reads:
  "pbeDecodeFloat (pbeEncodeFloat a @ rest) = Some (a, 4)"
  "pbeDecodeDouble (pbeEncodeDouble d @ rest) = Some (d, 8)"
  by (simp_all add: pbeDecodeFloat_def pbeDecodeDouble_def pbeEncodeFloat_def pbeEncodeDouble_def
      pbe_native_simps native_load_bytes)

lemma length_pbe_float: "length (pbeEncodeFloat a) = 4" "length (pbeEncodeDouble d) = 8"
  by (simp_all add: pbeEncodeFloat_def pbeEncodeDouble_def pbe32.length_ser pbe64.length_ser)

lemma deserialize_payload:
  assumes "serializable v" and "varint_tail (rest @ [over])"
  shows "variant_deserialize dt0 addr over (type_byte v # payload v @ rest) =
    Inr (reloaded addr v, Suc (length (payload v)))"
proof -
  note read = variant_deserialize_def type_byte_reads reloaded_def payload_def decoded_def decoded_object_def
    decoded_float_def
  show ?thesis
  proof (cases v)
    case (VDateTime dt)
    have "rawdatetime_deserialize dt0 (rawdatetime_serialize dt @ rest @ [over]) =
        (dt, length (rawdatetime_serialize dt))"
      using assms(1) rawdatetime_roundtrip [OF refl, of dt0 dt "rest @ [over]"] VDateTime
      by (auto simp: serializable_def rawdatetime_serialize_def Let_def)
    moreover have "4 \<le> length (rawdatetime_serialize dt)"
      by (simp add: rawdatetime_serialize_def Let_def)
    ultimately show ?thesis using VDateTime by (auto simp: read)
  next
    case (VClob l)
    then show ?thesis
      using assms(1) deserialize_serialize_string [of "lob_content l" "rest @ [over]"]
      by (simp add: read serializable_def lob_ok_def)
  next
    case (VBlob l)
    then show ?thesis
      using assms(1) deserialize_serialize_binary [of "lob_content l" "rest @ [over]"]
      by (simp add: read serializable_def lob_ok_def)
  next
    case (VString s)
    then show ?thesis
      using assms(1) deserialize_serialize_string [of s "rest @ [over]"] by (simp add: read serializable_def)
  next
    case (VBinary s)
    then show ?thesis
      using assms(1) deserialize_serialize_binary [of s "rest @ [over]"] by (simp add: read serializable_def)
  qed (simp_all add: read decodeVarUInt_tail [OF assms(2)] decodeVarInt_tail [OF assms(2)] pbe_float_reads
      svar16.length_ser svar32.length_ser svar64.length_ser length_pbe_float)
qed


definition midnight :: RawDateTime where
  "midnight = \<lparr>m_timePart = kZeroRawTime, m_datePart = kZeroRawDate\<rparr>"


text \<open>C40: The deserializer reads the byte after its buffer.  A lone type byte of a boolean is accepted, with the value
  taken from that byte and two bytes reported as consumed; a complete unsigned 32-bit integer of two or
  three bytes is rejected as too short when that byte has its high bit set.\<close>

theorem variant_deserialize_overreads:
  assumes "128 \<le> a" and "getVarUInt32Size a \<le> 3" and "128 \<le> over"
  shows "variant_deserialize dt0 addr b [1] = Inr (VBool (b \<noteq> 0), 2) \<and>
    variant_serializeUnchecked (VUInt32 a) = (Inr (7 # encodeVarUInt32 a), VUInt32 a) \<and>
    variant_deserialize dt0 addr over (7 # encodeVarUInt32 a) = Inl VariantDeserializationError"
proof -
  have "decodeVarUInt32 (encodeVarUInt32 a @ [over]) = DecNotEnough"
    using assms by (auto simp: decodeVarUInt32_encode linorder_not_less)
  then show ?thesis
    by (simp add: variant_deserialize_def variant_serializeUnchecked_def type_byte_def type_code_def
        all_types_def decoded_def)
qed

theorem variant_deserialize_overreads_witness:
  "variant_deserialize midnight 0 200 (7 # encodeVarUInt32 300) = Inl VariantDeserializationError"
proof -
  have "getVarUInt32Size 300 \<le> 3" by code_simp
  then show ?thesis using variant_deserialize_overreads [of 300 200 midnight 0 0] by simp
qed

end
