(* ===== verification/Expression.thy ===== *)
theory Expression
  imports ColumnType VariantConv VariantSerial
begin

text \<open>
  The SQL expression classes (\<open>parser/expr\<close>): an expression as a tree, its announced result type and
  column type, and its validation.  Every operator class has its own definitions, over the results
  of its operands; the functions over the tree dispatch to them as the virtual calls do.  The
  context that gives the columns their types and values is a record of functions.
\<close>

section \<open>Expressions\<close>

text \<open>The classes below \<open>UnaryOperator\<close> and those below \<open>BinaryOperator\<close> that add no member.\<close>

datatype UnaryOp = LogicalNotOperator | UnaryMinusOperator | UnaryPlusOperator | ComplementOperator

datatype BinaryOp =
    LogicalAndOperator | LogicalOrOperator | AddOperator | SubtractOperator | MultiplyOperator
  | DivideOperator | ModuloOperator | ConcatenationOperator | BitwiseOrOperator | BitwiseAndOperator
  | BitwiseXorOperator | RightShiftOperator | LeftShiftOperator | CastOperator | EqualOperator
  | NotEqualOperator | LessOperator | LessOrEqualOperator | GreaterOrEqualOperator | GreaterOperator

datatype Expression =
    ConstantExpression Variant
  | SingleColumnExpression bytes bytes "nat list" "nat option"
  | AllColumnsExpression bytes "nat list"
  | ListExpression "Expression list"
  | UnaryExpression UnaryOp Expression
  | BinaryExpression BinaryOp Expression Expression
  | IsOperator Expression Expression bool
  | LikeOperator Expression Expression bool
  | BetweenOperator Expression Expression Expression bool
  | InOperator Expression "Expression list" bool

definition unary_code :: "UnaryOp \<Rightarrow> nat" where
  "unary_code op = (case op of
      LogicalNotOperator \<Rightarrow> 5 | UnaryMinusOperator \<Rightarrow> 8 | UnaryPlusOperator \<Rightarrow> 9
    | ComplementOperator \<Rightarrow> 19)"

definition binary_code :: "BinaryOp \<Rightarrow> nat" where
  "binary_code op = (case op of
      LogicalAndOperator \<Rightarrow> 6 | LogicalOrOperator \<Rightarrow> 7 | AddOperator \<Rightarrow> 10 | SubtractOperator \<Rightarrow> 11
    | MultiplyOperator \<Rightarrow> 12 | DivideOperator \<Rightarrow> 13 | ModuloOperator \<Rightarrow> 14
    | ConcatenationOperator \<Rightarrow> 15 | BitwiseOrOperator \<Rightarrow> 16 | BitwiseAndOperator \<Rightarrow> 17
    | BitwiseXorOperator \<Rightarrow> 18 | RightShiftOperator \<Rightarrow> 20 | LeftShiftOperator \<Rightarrow> 21
    | CastOperator \<Rightarrow> 22 | EqualOperator \<Rightarrow> 24 | NotEqualOperator \<Rightarrow> 25 | LessOperator \<Rightarrow> 26
    | LessOrEqualOperator \<Rightarrow> 27 | GreaterOrEqualOperator \<Rightarrow> 28 | GreaterOperator \<Rightarrow> 29)"

definition getType :: "Expression \<Rightarrow> nat" where
  "getType e = (case e of
      ConstantExpression _ \<Rightarrow> 0 | SingleColumnExpression _ _ _ _ \<Rightarrow> 1 | AllColumnsExpression _ _ \<Rightarrow> 2
    | ListExpression _ \<Rightarrow> 3 | UnaryExpression op _ \<Rightarrow> unary_code op
    | BinaryExpression op _ _ \<Rightarrow> binary_code op | InOperator _ _ _ \<Rightarrow> 34 | IsOperator _ _ _ \<Rightarrow> 35
    | BetweenOperator _ _ _ _ \<Rightarrow> 36 | LikeOperator _ _ _ \<Rightarrow> 37)"

definition kExpressionTypeMax :: nat where "kExpressionTypeMax = 67"

section \<open>Evaluation contexts\<close>

text \<open>The functions of a context, with the libraries that the values need.  \<open>ctx_addr\<close> is the address of copied
  streams and \<open>ctx_init\<close> the contents of uninitialised date variables.\<close>

record Context =
  ctx_fpu :: FPU
  ctx_libs :: Libs
  ctx_addr :: nat
  ctx_init :: RawDateTime
  ctx_getColumnValue :: "nat \<Rightarrow> nat \<Rightarrow> engine_error + Variant"
  ctx_getColumnDataType :: "nat \<Rightarrow> nat \<Rightarrow> engine_error + ColumnDataType"

text \<open>The context of statements without tables refuses every column; that of a query passes the request on to its
  data sets, whose columns are functions here.\<close>

record DataSet =
  ds_name :: bytes
  ds_alias :: bytes
  ds_value :: "nat \<Rightarrow> engine_error + Variant"
  ds_type :: "nat \<Rightarrow> engine_error + ColumnDataType"

definition EmptyExpressionEvaluationContext ::
  "FPU \<Rightarrow> Libs \<Rightarrow> nat \<Rightarrow> RawDateTime \<Rightarrow> Context" where
  "EmptyExpressionEvaluationContext F L addr init = \<lparr>
     ctx_fpu = F, ctx_libs = L, ctx_addr = addr, ctx_init = init,
     ctx_getColumnValue = (\<lambda>_ _. Inl DatabaseError),
     ctx_getColumnDataType = (\<lambda>_ _. Inl DatabaseError)\<rparr>"

definition DBExpressionEvaluationContext ::
  "FPU \<Rightarrow> Libs \<Rightarrow> nat \<Rightarrow> RawDateTime \<Rightarrow> DataSet list \<Rightarrow> Context" where
  "DBExpressionEvaluationContext F L addr init dataSets = \<lparr>
     ctx_fpu = F, ctx_libs = L, ctx_addr = addr, ctx_init = init,
     ctx_getColumnValue = (\<lambda>table column.
       if table < length dataSets then ds_value (dataSets ! table) column else Inl StdOutOfRange),
     ctx_getColumnDataType = (\<lambda>table column.
       if table < length dataSets then ds_type (dataSets ! table) column else Inl StdOutOfRange)\<rparr>"

text \<open>The index of a data set by its name or alias: the first one that carries it.\<close>

fun makeNameToIndexMapping :: "nat \<Rightarrow> DataSet list \<Rightarrow> (bytes \<times> nat) list" where
  "makeNameToIndexMapping i [] = []"
| "makeNameToIndexMapping i (d # ds) =
    (ds_name d, i) # (if ds_alias d \<noteq> [] then [(ds_alias d, i)] else []) @ makeNameToIndexMapping (i + 1) ds"

definition getDataSetIndex :: "DataSet list \<Rightarrow> bytes \<Rightarrow> nat option" where
  "getDataSetIndex dataSets name = map_of (makeNameToIndexMapping 0 dataSets) name"

text \<open>A copy of a value: streams in memory are cloned with their position.\<close>

definition variant_copy :: "nat \<Rightarrow> Variant \<Rightarrow> Variant" where
  "variant_copy addr v = (case v of
      VClob l \<Rightarrow> VClob (l\<lparr>lob_addr := addr\<rparr>) | VBlob l \<Rightarrow> VBlob (l\<lparr>lob_addr := addr\<rparr>) | _ \<Rightarrow> v)"

section \<open>Loops over operands\<close>

fun each :: "('a \<Rightarrow> 'e + unit) \<Rightarrow> 'a list \<Rightarrow> 'e + unit" where
  "each f [] = Inr ()"
| "each f (x # xs) = chain (f x) (\<lambda>_. each f xs)"

lemma each_cong [fundef_cong]:
  assumes "xs = ys" and "\<And>x. x \<in> set ys \<Longrightarrow> f x = g x"
  shows "each f xs = each g ys"
proof -
  from assms(2) have "\<forall>x \<in> set ys. f x = g x" by blast
  then show ?thesis unfolding assms(1) by (induction ys) simp_all
qed

text \<open>\<open>std::find_if\<close> with a predicate that may raise an exception: whether some element satisfies it.\<close>

fun find_if :: "('a \<Rightarrow> 'e + bool) \<Rightarrow> 'a list \<Rightarrow> 'e + bool" where
  "find_if f [] = Inr False"
| "find_if f (x # xs) = chain (f x) (\<lambda>b. if b then Inr True else find_if f xs)"

lemma find_if_cong [fundef_cong]:
  assumes "xs = ys" and "\<And>x. x \<in> set ys \<Longrightarrow> f x = g x"
  shows "find_if f xs = find_if g ys"
proof -
  from assms(2) have "\<forall>x \<in> set ys. f x = g x" by blast
  then show ?thesis unfolding assms(1) by (induction ys) (simp_all cong: if_cong)
qed

text \<open>The value of the last element, or the given one.\<close>

fun last_value :: "('a \<Rightarrow> 'e + 'b) \<Rightarrow> 'b \<Rightarrow> 'a list \<Rightarrow> 'e + 'b" where
  "last_value f v [] = Inr v"
| "last_value f v (x # xs) = chain (f x) (\<lambda>w. last_value f w xs)"

lemma last_value_cong [fundef_cong]:
  assumes "xs = ys" and "v = w" and "\<And>x. x \<in> set ys \<Longrightarrow> f x = g x"
  shows "last_value f v xs = last_value g w ys"
proof -
  from assms(3) have "\<forall>x \<in> set ys. f x = g x" by blast
  then show ?thesis unfolding assms(1,2) by (induction ys arbitrary: w) simp_all
qed

lemma size_last [termination_simp]: "xs \<noteq> [] \<Longrightarrow> size (last xs) < Suc (size_list size xs)"
  using size_list_estimation' [of "last xs" xs "size (last xs)" size] by simp

section \<open>Announced types\<close>

definition ArithmeticBinaryOperator_type :: "VariantType \<Rightarrow> VariantType \<Rightarrow> VariantType" where
  "ArithmeticBinaryOperator_type leftType rightType =
    (if \<not> isNumericType leftType \<or> \<not> isNumericType rightType then kNull
     else getNumericResultType leftType rightType)"

definition AddOperator_type :: "VariantType \<Rightarrow> VariantType \<Rightarrow> VariantType" where
  "AddOperator_type leftType rightType =
    (if leftType = rightType \<and> leftType = kString then kString
     else ArithmeticBinaryOperator_type leftType rightType)"

definition BitwiseBinaryOperator_type :: "VariantType \<Rightarrow> VariantType \<Rightarrow> VariantType" where
  "BitwiseBinaryOperator_type leftType rightType =
    (if \<not> isIntegerType leftType \<or> \<not> isIntegerType rightType then kNull
     else getNumericResultType leftType rightType)"

definition LogicalBinaryOperator_type :: "VariantType \<Rightarrow> VariantType \<Rightarrow> VariantType" where
  "LogicalBinaryOperator_type leftType rightType =
    (if leftType \<noteq> kBool \<or> rightType \<noteq> kBool then kNull else kBool)"

text \<open>The type of the right operand is not asked for when the left one is null.\<close>

definition ConcatenationOperator_type ::
  "engine_error + VariantType \<Rightarrow> engine_error + VariantType \<Rightarrow> engine_error + VariantType" where
  "ConcatenationOperator_type left right =
    chain left (\<lambda>leftType.
      if isNullType leftType then Inr kNull
      else chain right (\<lambda>rightType. Inr (if isNullType rightType then kNull else kString)))"

definition ArithmeticUnaryOperator_type :: "VariantType \<Rightarrow> VariantType" where
  "ArithmeticUnaryOperator_type resultType =
    (if \<not> isNumericType resultType then kNull
     else if resultType \<le> kInt32 then kInt32 else getSignedType resultType)"

definition BitwiseUnaryOperator_type :: "VariantType \<Rightarrow> VariantType" where
  "BitwiseUnaryOperator_type resultType =
    (if \<not> isIntegerType resultType then kNull
     else if resultType \<le> kInt32 then kInt32 else resultType)"

definition LogicalUnaryOperator_type :: "VariantType \<Rightarrow> VariantType" where
  "LogicalUnaryOperator_type resultType = (if isBoolType resultType then kBool else kNull)"

definition unary_type :: "UnaryOp \<Rightarrow> VariantType \<Rightarrow> VariantType" where
  "unary_type op = (case op of
      LogicalNotOperator \<Rightarrow> LogicalUnaryOperator_type
    | UnaryMinusOperator \<Rightarrow> ArithmeticUnaryOperator_type
    | UnaryPlusOperator \<Rightarrow> ArithmeticUnaryOperator_type
    | ComplementOperator \<Rightarrow> BitwiseUnaryOperator_type)"

text \<open>The operators that announce a type computed from those of both operands; the comparisons always announce a
  Boolean, a cast the type it names, and a concatenation is apart.\<close>

definition binary_type :: "BinaryOp \<Rightarrow> (VariantType \<Rightarrow> VariantType \<Rightarrow> VariantType) option" where
  "binary_type op = (case op of
      LogicalAndOperator \<Rightarrow> Some LogicalBinaryOperator_type
    | LogicalOrOperator \<Rightarrow> Some LogicalBinaryOperator_type
    | AddOperator \<Rightarrow> Some AddOperator_type
    | SubtractOperator \<Rightarrow> Some ArithmeticBinaryOperator_type
    | MultiplyOperator \<Rightarrow> Some ArithmeticBinaryOperator_type
    | DivideOperator \<Rightarrow> Some ArithmeticBinaryOperator_type
    | ModuloOperator \<Rightarrow> Some ArithmeticBinaryOperator_type
    | BitwiseOrOperator \<Rightarrow> Some BitwiseBinaryOperator_type
    | BitwiseAndOperator \<Rightarrow> Some BitwiseBinaryOperator_type
    | BitwiseXorOperator \<Rightarrow> Some BitwiseBinaryOperator_type
    | RightShiftOperator \<Rightarrow> Some BitwiseBinaryOperator_type
    | LeftShiftOperator \<Rightarrow> Some BitwiseBinaryOperator_type
    | _ \<Rightarrow> None)"

definition checkHasTableAndColumnIndices :: "nat list \<Rightarrow> nat option \<Rightarrow> engine_error + nat \<times> nat" where
  "checkHasTableAndColumnIndices tables column =
    (case tables of
       [] \<Rightarrow> Inl RuntimeError
     | table # _ \<Rightarrow> (case column of None \<Rightarrow> Inl RuntimeError | Some c \<Rightarrow> Inr (table, c)))"

text \<open>The destination type of a cast: the constructor admits a constant string only.\<close>

definition CastOperator_columnType :: "Expression \<Rightarrow> engine_error + ColumnDataType" where
  "CastOperator_columnType right = (case right of
      ConstantExpression (VString s) \<Rightarrow> getColumnDataTypeByName (chars_of s)
    | _ \<Rightarrow> Inl Terminated)"

definition CastOperator_type :: "Expression \<Rightarrow> engine_error + VariantType" where
  "CastOperator_type right = chain (CastOperator_columnType right) convertColumnDataTypeToVariantType"

fun getResultValueType :: "Context \<Rightarrow> Expression \<Rightarrow> engine_error + VariantType" where
  "getResultValueType C (ConstantExpression v) = Inr (getValueType v)"
| "getResultValueType C (SingleColumnExpression _ _ tables column) =
    chain (checkHasTableAndColumnIndices tables column) (\<lambda>(table, c).
    chain (ctx_getColumnDataType C table c) convertColumnDataTypeToVariantType)"
| "getResultValueType C (AllColumnsExpression _ _) = Inl RuntimeError"
| "getResultValueType C (ListExpression items) =
    (if items = [] then Inr kNull else getResultValueType C (last items))"
| "getResultValueType C (UnaryExpression op x) =
    chain (getResultValueType C x) (\<lambda>t. Inr (unary_type op t))"
| "getResultValueType C (BinaryExpression op l r) =
    (case binary_type op of
       Some f \<Rightarrow> chain (getResultValueType C l) (\<lambda>a. chain (getResultValueType C r) (\<lambda>b. Inr (f a b)))
     | None \<Rightarrow>
         if op = CastOperator then CastOperator_type r
         else if op = ConcatenationOperator
         then ConcatenationOperator_type (getResultValueType C l) (getResultValueType C r)
         else Inr kBool)"
| "getResultValueType C (IsOperator _ _ _) = Inr kBool"
| "getResultValueType C (LikeOperator _ _ _) = Inr kBool"
| "getResultValueType C (BetweenOperator _ _ _ _) = Inr kBool"
| "getResultValueType C (InOperator _ _ _) = Inr kBool"

section \<open>Announced column types\<close>

definition ArithmeticBinaryOperator_columnType :: "ColumnDataType \<Rightarrow> ColumnDataType \<Rightarrow> ColumnDataType" where
  "ArithmeticBinaryOperator_columnType leftType rightType =
    (if \<not> cdt_isNumericType leftType \<or> \<not> cdt_isNumericType rightType then COLUMN_DATA_TYPE_UNKNOWN
     else cdt_getNumericResultType leftType rightType)"

definition AddOperator_columnType :: "ColumnDataType \<Rightarrow> ColumnDataType \<Rightarrow> ColumnDataType" where
  "AddOperator_columnType leftType rightType =
    (if leftType = rightType \<and> (leftType = COLUMN_DATA_TYPE_TEXT \<or> leftType = COLUMN_DATA_TYPE_NTEXT)
     then leftType
     else ArithmeticBinaryOperator_columnType leftType rightType)"

definition BitwiseBinaryOperator_columnType :: "ColumnDataType \<Rightarrow> ColumnDataType \<Rightarrow> ColumnDataType" where
  "BitwiseBinaryOperator_columnType leftType rightType =
    (if \<not> cdt_isIntegerType leftType \<or> \<not> cdt_isIntegerType rightType then COLUMN_DATA_TYPE_UNKNOWN
     else cdt_getNumericResultType leftType rightType)"

definition LogicalBinaryOperator_columnType :: "ColumnDataType \<Rightarrow> ColumnDataType \<Rightarrow> ColumnDataType" where
  "LogicalBinaryOperator_columnType leftType rightType =
    (if leftType \<noteq> COLUMN_DATA_TYPE_BOOL \<or> rightType \<noteq> COLUMN_DATA_TYPE_BOOL
     then COLUMN_DATA_TYPE_UNKNOWN else COLUMN_DATA_TYPE_BOOL)"

definition ArithmeticUnaryOperator_columnType :: "ColumnDataType \<Rightarrow> ColumnDataType" where
  "ArithmeticUnaryOperator_columnType resultType =
    (if \<not> cdt_isNumericType resultType then COLUMN_DATA_TYPE_UNKNOWN
     else if resultType \<le> COLUMN_DATA_TYPE_INT32 then COLUMN_DATA_TYPE_INT32
     else cdt_getSignedType resultType)"

definition BitwiseUnaryOperator_columnType :: "ColumnDataType \<Rightarrow> ColumnDataType" where
  "BitwiseUnaryOperator_columnType resultType =
    (if \<not> cdt_isIntegerType resultType then COLUMN_DATA_TYPE_UNKNOWN
     else if resultType \<le> COLUMN_DATA_TYPE_INT32 then COLUMN_DATA_TYPE_INT32 else resultType)"

definition LogicalUnaryOperator_columnType :: "ColumnDataType \<Rightarrow> ColumnDataType" where
  "LogicalUnaryOperator_columnType resultType =
    (if resultType = COLUMN_DATA_TYPE_BOOL then COLUMN_DATA_TYPE_BOOL else COLUMN_DATA_TYPE_UNKNOWN)"

definition unary_columnType :: "UnaryOp \<Rightarrow> ColumnDataType \<Rightarrow> ColumnDataType" where
  "unary_columnType op = (case op of
      LogicalNotOperator \<Rightarrow> LogicalUnaryOperator_columnType
    | UnaryMinusOperator \<Rightarrow> ArithmeticUnaryOperator_columnType
    | UnaryPlusOperator \<Rightarrow> ArithmeticUnaryOperator_columnType
    | ComplementOperator \<Rightarrow> BitwiseUnaryOperator_columnType)"

definition binary_columnType ::
  "BinaryOp \<Rightarrow> (ColumnDataType \<Rightarrow> ColumnDataType \<Rightarrow> ColumnDataType) option" where
  "binary_columnType op = (case op of
      LogicalAndOperator \<Rightarrow> Some LogicalBinaryOperator_columnType
    | LogicalOrOperator \<Rightarrow> Some LogicalBinaryOperator_columnType
    | AddOperator \<Rightarrow> Some AddOperator_columnType
    | SubtractOperator \<Rightarrow> Some ArithmeticBinaryOperator_columnType
    | MultiplyOperator \<Rightarrow> Some ArithmeticBinaryOperator_columnType
    | DivideOperator \<Rightarrow> Some ArithmeticBinaryOperator_columnType
    | ModuloOperator \<Rightarrow> Some ArithmeticBinaryOperator_columnType
    | BitwiseOrOperator \<Rightarrow> Some BitwiseBinaryOperator_columnType
    | BitwiseAndOperator \<Rightarrow> Some BitwiseBinaryOperator_columnType
    | BitwiseXorOperator \<Rightarrow> Some BitwiseBinaryOperator_columnType
    | RightShiftOperator \<Rightarrow> Some BitwiseBinaryOperator_columnType
    | LeftShiftOperator \<Rightarrow> Some BitwiseBinaryOperator_columnType
    | _ \<Rightarrow> None)"

text \<open>A concatenation looks at the value types of its operands.\<close>

definition ConcatenationOperator_columnType ::
  "engine_error + VariantType \<Rightarrow> engine_error + VariantType \<Rightarrow> engine_error + ColumnDataType" where
  "ConcatenationOperator_columnType left right =
    chain (ConcatenationOperator_type left right) (\<lambda>t.
      Inr (if t = kNull then COLUMN_DATA_TYPE_UNKNOWN else COLUMN_DATA_TYPE_TEXT))"

fun getColumnDataType :: "Context \<Rightarrow> Expression \<Rightarrow> engine_error + ColumnDataType" where
  "getColumnDataType C (ConstantExpression v) = convertVariantTypeToColumnDataType (getValueType v)"
| "getColumnDataType C (SingleColumnExpression _ _ tables column) =
    chain (checkHasTableAndColumnIndices tables column) (\<lambda>(table, c). ctx_getColumnDataType C table c)"
| "getColumnDataType C (AllColumnsExpression _ _) = Inl RuntimeError"
| "getColumnDataType C (ListExpression items) =
    (if items = [] then Inr COLUMN_DATA_TYPE_UNKNOWN else getColumnDataType C (last items))"
| "getColumnDataType C (UnaryExpression op x) =
    chain (getColumnDataType C x) (\<lambda>t. Inr (unary_columnType op t))"
| "getColumnDataType C (BinaryExpression op l r) =
    (case binary_columnType op of
       Some f \<Rightarrow> chain (getColumnDataType C l) (\<lambda>a. chain (getColumnDataType C r) (\<lambda>b. Inr (f a b)))
     | None \<Rightarrow>
         if op = CastOperator then CastOperator_columnType r
         else if op = ConcatenationOperator
         then ConcatenationOperator_columnType (getResultValueType C l) (getResultValueType C r)
         else Inr COLUMN_DATA_TYPE_BOOL)"
| "getColumnDataType C (IsOperator _ _ _) = Inr COLUMN_DATA_TYPE_BOOL"
| "getColumnDataType C (LikeOperator _ _ _) = Inr COLUMN_DATA_TYPE_BOOL"
| "getColumnDataType C (BetweenOperator _ _ _ _) = Inr COLUMN_DATA_TYPE_BOOL"
| "getColumnDataType C (InOperator _ _ _) = Inr COLUMN_DATA_TYPE_BOOL"

section \<open>Validation\<close>

text \<open>\<open>canCastAsDateTime\<close> is \<open>noexcept\<close>: an exception of the type computation ends the process.\<close>

definition canCastAsDateTime :: "Context \<Rightarrow> Expression \<Rightarrow> engine_error + bool" where
  "canCastAsDateTime C e = (case e of
      ConstantExpression v \<Rightarrow>
        Inr (case v of
            VDateTime _ \<Rightarrow> True
          | VString _ \<Rightarrow> (case fst (asDateTime (ctx_fpu C) (ctx_libs C) (ctx_init C) None v) of
                Inr _ \<Rightarrow> True | Inl _ \<Rightarrow> False)
          | _ \<Rightarrow> False)
    | _ \<Rightarrow> (case getResultValueType C e of Inr t \<Rightarrow> Inr (isDateTimeType t) | Inl _ \<Rightarrow> Inl Terminated))"

definition check_operand :: "(VariantType \<Rightarrow> bool) \<Rightarrow> engine_error + VariantType \<Rightarrow> engine_error + unit" where
  "check_operand admits r =
    chain r (\<lambda>t. if \<not> admits t \<and> \<not> isNullType t then Inl RuntimeError else Inr ())"

definition ArithmeticBinaryOperator_validate :: "engine_error + VariantType \<Rightarrow> engine_error + VariantType \<Rightarrow>
    engine_error + unit" where
  "ArithmeticBinaryOperator_validate left right =
    chain (check_operand isNumericType left) (\<lambda>_. check_operand isNumericType right)"

definition BitwiseBinaryOperator_validate :: "engine_error + VariantType \<Rightarrow> engine_error + VariantType \<Rightarrow>
    engine_error + unit" where
  "BitwiseBinaryOperator_validate left right =
    chain (check_operand isIntegerType left) (\<lambda>_. check_operand isIntegerType right)"

definition LogicalBinaryOperator_validate :: "engine_error + VariantType \<Rightarrow> engine_error + VariantType \<Rightarrow>
    engine_error + unit" where
  "LogicalBinaryOperator_validate left right =
    chain (check_operand isBoolType left) (\<lambda>_. check_operand isBoolType right)"

definition LikeOperator_validate :: "engine_error + VariantType \<Rightarrow> engine_error + VariantType \<Rightarrow>
    engine_error + unit" where
  "LikeOperator_validate left right =
    chain (check_operand isStringType left) (\<lambda>_. check_operand isStringType right)"

definition AddOperator_validate :: "engine_error + VariantType \<Rightarrow> engine_error + VariantType \<Rightarrow>
    engine_error + unit" where
  "AddOperator_validate left right =
    chain left (\<lambda>leftResultType. chain right (\<lambda>rightResultType.
      if (isNullType leftResultType \<or> isNumericType leftResultType) \<and>
         (isNullType rightResultType \<or> isNumericType rightResultType) then Inr ()
      else if (isNullType leftResultType \<or> isStringType leftResultType) \<and>
         (isNullType rightResultType \<or> isStringType rightResultType) then Inr ()
      else Inl RuntimeError))"

definition ArithmeticUnaryOperator_validate :: "engine_error + VariantType \<Rightarrow> engine_error + unit" where
  "ArithmeticUnaryOperator_validate operand = check_operand isNumericType operand"

definition BitwiseUnaryOperator_validate :: "engine_error + VariantType \<Rightarrow> engine_error + unit" where
  "BitwiseUnaryOperator_validate operand = check_operand isIntegerType operand"

definition LogicalUnaryOperator_validate :: "engine_error + VariantType \<Rightarrow> engine_error + unit" where
  "LogicalUnaryOperator_validate operand = check_operand isBoolType operand"

definition unary_validate :: "UnaryOp \<Rightarrow> engine_error + VariantType \<Rightarrow> engine_error + unit" where
  "unary_validate op = (case op of
      LogicalNotOperator \<Rightarrow> LogicalUnaryOperator_validate
    | UnaryMinusOperator \<Rightarrow> ArithmeticUnaryOperator_validate
    | UnaryPlusOperator \<Rightarrow> ArithmeticUnaryOperator_validate
    | ComplementOperator \<Rightarrow> BitwiseUnaryOperator_validate)"

definition binary_validate ::
  "BinaryOp \<Rightarrow> engine_error + VariantType \<Rightarrow> engine_error + VariantType \<Rightarrow> engine_error + unit" where
  "binary_validate op = (case op of
      LogicalAndOperator \<Rightarrow> LogicalBinaryOperator_validate
    | LogicalOrOperator \<Rightarrow> LogicalBinaryOperator_validate
    | AddOperator \<Rightarrow> AddOperator_validate
    | SubtractOperator \<Rightarrow> ArithmeticBinaryOperator_validate
    | MultiplyOperator \<Rightarrow> ArithmeticBinaryOperator_validate
    | DivideOperator \<Rightarrow> ArithmeticBinaryOperator_validate
    | ModuloOperator \<Rightarrow> ArithmeticBinaryOperator_validate
    | BitwiseOrOperator \<Rightarrow> BitwiseBinaryOperator_validate
    | BitwiseAndOperator \<Rightarrow> BitwiseBinaryOperator_validate
    | BitwiseXorOperator \<Rightarrow> BitwiseBinaryOperator_validate
    | RightShiftOperator \<Rightarrow> BitwiseBinaryOperator_validate
    | LeftShiftOperator \<Rightarrow> BitwiseBinaryOperator_validate
    | _ \<Rightarrow> (\<lambda>_ _. Inr ()))"

text \<open>Whether an operand of a known type may be used as a date.\<close>

definition may_be_date :: "Context \<Rightarrow> VariantType \<Rightarrow> Expression \<Rightarrow> engine_error + bool" where
  "may_be_date C t e = (if isDateTimeType t then Inr True else canCastAsDateTime C e)"

definition BetweenOperator_validate :: "Context \<Rightarrow> Expression \<Rightarrow> Expression \<Rightarrow> Expression \<Rightarrow>
    engine_error + unit" where
  "BetweenOperator_validate C left middle right =
    chain (getResultValueType C left) (\<lambda>lt.
    chain (getResultValueType C middle) (\<lambda>mt.
    chain (getResultValueType C right) (\<lambda>rt.
      if (isNullType lt \<or> isNumericType lt) \<and> (isNullType mt \<or> isNumericType mt) \<and>
         (isNullType rt \<or> isNumericType rt) then Inr ()
      else
        (let dated = (\<lambda>t e. if isNullType t then Inr True else may_be_date C t e) in
         chain (dated lt left) (\<lambda>a. if \<not> a then Inl RuntimeError else
         chain (dated mt middle) (\<lambda>b. if \<not> b then Inl RuntimeError else
         chain (dated rt right) (\<lambda>c. if \<not> c then Inl RuntimeError else Inr ())))))))"

definition InOperator_expectedType :: "Context \<Rightarrow> Expression \<Rightarrow> VariantType \<Rightarrow> engine_error + VariantType" where
  "InOperator_expectedType C e resultType =
    (if isBoolType resultType then Inr kBool
     else if isNumericType resultType then Inr kInt32
     else chain (may_be_date C resultType e) (\<lambda>d.
       Inr (if d then kDateTime
            else if isStringType resultType then kString
            else if isBinaryType resultType then kBinary
            else kNull)))"

definition InOperator_checkVariant :: "Context \<Rightarrow> VariantType \<Rightarrow> Expression \<Rightarrow> VariantType \<Rightarrow> engine_error + unit" where
  "InOperator_checkVariant C expectedType e resultType =
    (let require = (\<lambda>b. if b then Inr () else Inl RuntimeError) in
     if isNullType resultType then Inr ()
     else case expectedType of
       kNull \<Rightarrow> Inr ()
     | kBool \<Rightarrow> require (isBoolType resultType)
     | kInt32 \<Rightarrow> require (isNumericType resultType)
     | kDateTime \<Rightarrow> chain (may_be_date C resultType e) require
     | kString \<Rightarrow> require (isStringType resultType)
     | kBinary \<Rightarrow> require (isBinaryType resultType)
     | _ \<Rightarrow> Inl RuntimeError)"

text \<open>The validation of an expression.  That of a range test leaves the lower bound out, that of a cast the
  destination.\<close>

fun validate :: "Context \<Rightarrow> Expression \<Rightarrow> engine_error + unit" where
  "validate C (ConstantExpression v) = Inr ()"
| "validate C (SingleColumnExpression _ _ tables column) =
    chain (checkHasTableAndColumnIndices tables column) (\<lambda>_. Inr ())"
| "validate C (AllColumnsExpression _ tables) = (if tables = [] then Inl RuntimeError else Inr ())"
| "validate C (ListExpression items) = each (validate C) items"
| "validate C (UnaryExpression op x) =
    chain (validate C x) (\<lambda>_. unary_validate op (getResultValueType C x))"
| "validate C (BinaryExpression op l r) =
    chain (validate C l) (\<lambda>_.
      if op = CastOperator then Inr ()
      else chain (validate C r) (\<lambda>_. binary_validate op (getResultValueType C l) (getResultValueType C r)))"
| "validate C (IsOperator l r _) = chain (validate C l) (\<lambda>_. validate C r)"
| "validate C (LikeOperator l r _) =
    chain (validate C l) (\<lambda>_. chain (validate C r) (\<lambda>_.
      LikeOperator_validate (getResultValueType C l) (getResultValueType C r)))"
| "validate C (BetweenOperator l m r _) =
    chain (validate C l) (\<lambda>_. chain (validate C r) (\<lambda>_. BetweenOperator_validate C l m r))"
| "validate C (InOperator x variants _) =
    chain (validate C x) (\<lambda>_. chain (getResultValueType C x) (\<lambda>resultType.
    chain (InOperator_expectedType C x resultType) (\<lambda>expectedType.
      each (\<lambda>e. chain (validate C e) (\<lambda>_. chain (getResultValueType C e) (\<lambda>t.
        InOperator_checkVariant C expectedType e t))) variants)))"

section \<open>Copies and structural equality\<close>

text \<open>A copy of a column reference is not bound to a table and a column any more.\<close>

fun expr_clone :: "nat \<Rightarrow> Expression \<Rightarrow> Expression" where
  "expr_clone addr (ConstantExpression v) = ConstantExpression (variant_copy addr v)"
| "expr_clone addr (SingleColumnExpression table column _ _) = SingleColumnExpression table column [] None"
| "expr_clone addr (AllColumnsExpression table _) = AllColumnsExpression table []"
| "expr_clone addr (ListExpression items) = ListExpression (map (expr_clone addr) items)"
| "expr_clone addr (UnaryExpression op x) = UnaryExpression op (expr_clone addr x)"
| "expr_clone addr (BinaryExpression op l r) = BinaryExpression op (expr_clone addr l) (expr_clone addr r)"
| "expr_clone addr (IsOperator l r b) = IsOperator (expr_clone addr l) (expr_clone addr r) b"
| "expr_clone addr (LikeOperator l r b) = LikeOperator (expr_clone addr l) (expr_clone addr r) b"
| "expr_clone addr (BetweenOperator l m r b) =
    BetweenOperator (expr_clone addr l) (expr_clone addr m) (expr_clone addr r) b"
| "expr_clone addr (InOperator x variants b) =
    InOperator (expr_clone addr x) (map (expr_clone addr) variants) b"

fun all_equal :: "('a \<Rightarrow> 'b \<Rightarrow> bool) \<Rightarrow> 'a list \<Rightarrow> 'b list \<Rightarrow> bool" where
  "all_equal eq [] [] = True"
| "all_equal eq (x # xs) (y # ys) = (eq x y \<and> all_equal eq xs ys)"
| "all_equal eq _ _ = False"

lemma all_equal_cong [fundef_cong]:
  assumes "xs = xs'" and "ys = ys'" and "\<And>x y. x \<in> set xs' \<Longrightarrow> f x y = g x y"
  shows "all_equal f xs ys = all_equal g xs' ys'"
proof -
  from assms(3) have "\<forall>x \<in> set xs'. \<forall>y. f x y = g x y" by blast
  then show ?thesis unfolding assms(1,2) by (induction f xs' ys' rule: all_equal.induct) auto
qed

text \<open>Equality of two expressions that are different objects.\<close>

fun expr_eq :: "FPU \<Rightarrow> Expression \<Rightarrow> Expression \<Rightarrow> bool" where
  "expr_eq F (ConstantExpression v) other =
    (case other of ConstantExpression w \<Rightarrow> variant_eq F False v w | _ \<Rightarrow> False)"
| "expr_eq F (SingleColumnExpression t c _ _) other =
    (case other of SingleColumnExpression t' c' _ _ \<Rightarrow> t = t' \<and> c = c' | _ \<Rightarrow> False)"
| "expr_eq F (AllColumnsExpression t _) other =
    (case other of AllColumnsExpression t' _ \<Rightarrow> t = t' | _ \<Rightarrow> False)"
| "expr_eq F (ListExpression items) other =
    (case other of ListExpression items' \<Rightarrow> all_equal (expr_eq F) items items' | _ \<Rightarrow> False)"
| "expr_eq F (UnaryExpression op x) other =
    (case other of UnaryExpression op' x' \<Rightarrow> op = op' \<and> expr_eq F x x' | _ \<Rightarrow> False)"
| "expr_eq F (BinaryExpression op l r) other =
    (case other of
       BinaryExpression op' l' r' \<Rightarrow> op = op' \<and> expr_eq F l l' \<and> expr_eq F r r' | _ \<Rightarrow> False)"
| "expr_eq F (IsOperator l r b) other =
    (case other of IsOperator l' r' b' \<Rightarrow> b = b' \<and> expr_eq F l l' \<and> expr_eq F r r' | _ \<Rightarrow> False)"
| "expr_eq F (LikeOperator l r b) other =
    (case other of LikeOperator l' r' b' \<Rightarrow> b = b' \<and> expr_eq F l l' \<and> expr_eq F r r' | _ \<Rightarrow> False)"
| "expr_eq F (BetweenOperator l m r b) other =
    (case other of
       BetweenOperator l' m' r' b' \<Rightarrow> b = b' \<and> expr_eq F l l' \<and> expr_eq F m m' \<and> expr_eq F r r'
     | _ \<Rightarrow> False)"
| "expr_eq F (InOperator x variants b) other =
    (case other of
       InOperator x' variants' b' \<Rightarrow>
         b = b' \<and> expr_eq F x x' \<and> all_equal (expr_eq F) variants variants'
     | _ \<Rightarrow> False)"

end
