(* ===== verification/ExprEval.thy ===== *)
theory ExprEval
  imports Expression
begin

text \<open>
  Evaluation of expressions (the \<open>evaluate\<close> functions of \<open>parser/expr\<close>), with the pattern matcher of
  \<open>LikeOperator.cpp\<close>.  Every operator is a definition over the results of its operands, an operand
  that is not evaluated being one whose result is not looked at.
\<close>

section \<open>Pattern matching\<close>

text \<open>The two loops of \<open>matchPattern\<close>.  Strings and pattern are what is left of them; \<open>lastSeq\<close> holds the last
  occurrence of the percent sign, in both.  An ended pattern yields the character 0.\<close>

definition kAnyChar :: nat where "kAnyChar = 95"
definition kAnyCharSeq :: nat where "kAnyCharSeq = 37"

partial_function (option) skip_sequences ::
  "(bytes \<Rightarrow> (nat \<times> bytes) option) \<Rightarrow> bytes \<Rightarrow> (engine_error + bool) option" where
  "skip_sequences nxt pattern =
    (if pattern = [] then Some (Inr True)
     else case nxt pattern of
       None \<Rightarrow> Some (Inl (VariantError Utf8Error))
     | Some (c, pattern') \<Rightarrow>
         if c \<noteq> kAnyCharSeq then Some (Inr False) else skip_sequences nxt pattern')"

partial_function (option) match_loop ::
  "(bytes \<Rightarrow> (nat \<times> bytes) option) \<Rightarrow> bytes \<Rightarrow> bytes \<Rightarrow> (bytes \<times> bytes) option \<Rightarrow>
    (engine_error + bool) option" where
  "match_loop nxt str pattern lastSeq =
    (if str = [] then skip_sequences nxt pattern
     else case (if pattern \<noteq> [] then nxt pattern else Some (0, pattern)) of
       None \<Rightarrow> Some (Inl (VariantError Utf8Error))
     | Some (patternChar, pattern') \<Rightarrow>
        if patternChar = kAnyChar then
          (case nxt str of
             None \<Rightarrow> Some (Inl (VariantError Utf8Error))
           | Some (_, str') \<Rightarrow> match_loop nxt str' pattern' lastSeq)
        else if patternChar = kAnyCharSeq then match_loop nxt str pattern' (Some (str, pattern))
        else
          (case nxt str of
             None \<Rightarrow> Some (Inl (VariantError Utf8Error))
           | Some (c, str') \<Rightarrow>
              if c = patternChar then match_loop nxt str' pattern' lastSeq
              else case lastSeq of
                None \<Rightarrow> Some (Inr False)
              | Some (strLast, patternLast) \<Rightarrow>
                 (case nxt strLast of
                    None \<Rightarrow> Some (Inl (VariantError Utf8Error))
                  | Some (_, str'') \<Rightarrow> match_loop nxt str'' patternLast (Some (str'', patternLast)))))"

definition matchPattern ::
  "(bytes \<Rightarrow> (nat \<times> bytes) option) \<Rightarrow> bytes \<Rightarrow> bytes \<Rightarrow> (engine_error + bool) option" where
  "matchPattern nxt str pattern =
    (if str = [] then Some (Inr (pattern = [])) else match_loop nxt str pattern None)"

section \<open>Operators\<close>

abbreviation isNull :: "Variant \<Rightarrow> bool" where
  "isNull v \<equiv> v = VNull"

text \<open>The arithmetic and bitwise operators: both operands first, null when one of them is, else the operator of the
  value type.\<close>

definition UnaryMinusOperator_evaluate :: "Context \<Rightarrow> engine_error + Variant \<Rightarrow> engine_error + Variant" where
  "UnaryMinusOperator_evaluate C operand =
    chain operand (\<lambda>v. if isNull v then Inr VNull else raised (variant_neg (ctx_fpu C) v))"

definition UnaryPlusOperator_evaluate :: "engine_error + Variant \<Rightarrow> engine_error + Variant" where
  "UnaryPlusOperator_evaluate operand =
    chain operand (\<lambda>v. if isNull v then Inr VNull else raised (variant_pos v))"

definition ComplementOperator_evaluate :: "engine_error + Variant \<Rightarrow> engine_error + Variant" where
  "ComplementOperator_evaluate operand =
    chain operand (\<lambda>v. if isNull v then Inr VNull else raised (variant_not v))"

definition LogicalNotOperator_evaluate :: "engine_error + Variant \<Rightarrow> engine_error + Variant" where
  "LogicalNotOperator_evaluate operand =
    chain operand (\<lambda>v. case v of VNull \<Rightarrow> Inr VNull | VBool b \<Rightarrow> Inr (VBool (\<not> b)) | _ \<Rightarrow> Inl RuntimeError)"

definition unary_evaluate :: "Context \<Rightarrow> UnaryOp \<Rightarrow> engine_error + Variant \<Rightarrow> engine_error + Variant" where
  "unary_evaluate C op = (case op of
      LogicalNotOperator \<Rightarrow> LogicalNotOperator_evaluate
    | UnaryMinusOperator \<Rightarrow> UnaryMinusOperator_evaluate C
    | UnaryPlusOperator \<Rightarrow> UnaryPlusOperator_evaluate
    | ComplementOperator \<Rightarrow> ComplementOperator_evaluate)"

definition strict_operator :: "(Variant \<Rightarrow> Variant \<Rightarrow> engine_error + Variant) \<Rightarrow> engine_error + Variant \<Rightarrow>
    engine_error + Variant \<Rightarrow> engine_error + Variant" where
  "strict_operator f left right =
    chain left (\<lambda>v. chain right (\<lambda>w. if isNull v \<or> isNull w then Inr VNull else f v w))"

definition AddOperator_evaluate :: "Context \<Rightarrow> engine_error + Variant \<Rightarrow> engine_error + Variant \<Rightarrow> engine_error + Variant" where
  "AddOperator_evaluate C = strict_operator (\<lambda>v w. raised (variant_plus (ctx_fpu C) v w))"

definition SubtractOperator_evaluate :: "Context \<Rightarrow> engine_error + Variant \<Rightarrow> engine_error + Variant \<Rightarrow> engine_error + Variant" where
  "SubtractOperator_evaluate C = strict_operator (\<lambda>v w. raised (variant_minus (ctx_fpu C) v w))"

definition MultiplyOperator_evaluate :: "Context \<Rightarrow> engine_error + Variant \<Rightarrow> engine_error + Variant \<Rightarrow> engine_error + Variant" where
  "MultiplyOperator_evaluate C = strict_operator (\<lambda>v w. raised (variant_times (ctx_fpu C) v w))"

definition DivideOperator_evaluate :: "Context \<Rightarrow> engine_error + Variant \<Rightarrow> engine_error + Variant \<Rightarrow> engine_error + Variant" where
  "DivideOperator_evaluate C = strict_operator (\<lambda>v w. raised (variant_divide (ctx_fpu C) v w))"

definition ModuloOperator_evaluate :: "engine_error + Variant \<Rightarrow> engine_error + Variant \<Rightarrow> engine_error + Variant" where
  "ModuloOperator_evaluate = strict_operator (\<lambda>v w. raised (variant_modulo v w))"

definition BitwiseOrOperator_evaluate :: "engine_error + Variant \<Rightarrow> engine_error + Variant \<Rightarrow> engine_error + Variant" where
  "BitwiseOrOperator_evaluate = strict_operator (\<lambda>v w. raised (variant_or v w))"

definition BitwiseAndOperator_evaluate :: "engine_error + Variant \<Rightarrow> engine_error + Variant \<Rightarrow> engine_error + Variant" where
  "BitwiseAndOperator_evaluate = strict_operator (\<lambda>v w. raised (variant_and v w))"

definition BitwiseXorOperator_evaluate :: "engine_error + Variant \<Rightarrow> engine_error + Variant \<Rightarrow> engine_error + Variant" where
  "BitwiseXorOperator_evaluate = strict_operator (\<lambda>v w. raised (variant_xor v w))"

definition RightShiftOperator_evaluate :: "engine_error + Variant \<Rightarrow> engine_error + Variant \<Rightarrow> engine_error + Variant" where
  "RightShiftOperator_evaluate = strict_operator (\<lambda>v w. raised (variant_shr v w))"

definition LeftShiftOperator_evaluate :: "engine_error + Variant \<Rightarrow> engine_error + Variant \<Rightarrow> engine_error + Variant" where
  "LeftShiftOperator_evaluate = strict_operator (\<lambda>v w. raised (variant_shl v w))"

definition ConcatenationOperator_evaluate :: "Context \<Rightarrow> engine_error + Variant \<Rightarrow> engine_error + Variant \<Rightarrow> engine_error + Variant" where
  "ConcatenationOperator_evaluate C =
    strict_operator (\<lambda>v w. raised (fst (concatenate (ctx_fpu C) (ctx_libs C) v w)))"

text \<open>The logical operators look at the right operand only when the left one does not decide.\<close>

definition LogicalAndOperator_evaluate :: "engine_error + Variant \<Rightarrow> engine_error + Variant \<Rightarrow> engine_error + Variant" where
  "LogicalAndOperator_evaluate left right =
    chain left (\<lambda>v. case v of
      VNull \<Rightarrow> Inr VNull
    | VBool a \<Rightarrow>
        if \<not> a then Inr (VBool False)
        else chain right (\<lambda>w. case w of VNull \<Rightarrow> Inr VNull | VBool b \<Rightarrow> Inr (VBool b) | _ \<Rightarrow> Inl RuntimeError)
    | _ \<Rightarrow> Inl RuntimeError)"

definition LogicalOrOperator_evaluate :: "engine_error + Variant \<Rightarrow> engine_error + Variant \<Rightarrow> engine_error + Variant" where
  "LogicalOrOperator_evaluate left right =
    chain left (\<lambda>v. case v of
      VNull \<Rightarrow> Inr VNull
    | VBool a \<Rightarrow>
        if a then Inr (VBool True)
        else chain right (\<lambda>w. case w of VNull \<Rightarrow> Inr VNull | VBool b \<Rightarrow> Inr (VBool b) | _ \<Rightarrow> Inl RuntimeError)
    | _ \<Rightarrow> Inl RuntimeError)"

text \<open>The comparisons: false on null, except that the test for equality leaves null to \<open>compatibleEqual\<close>.\<close>

definition EqualOperator_evaluate :: "Context \<Rightarrow> engine_error + Variant \<Rightarrow> engine_error + Variant \<Rightarrow> engine_error + Variant" where
  "EqualOperator_evaluate C left right =
    chain left (\<lambda>v. chain right (\<lambda>w.
      chain (raised (compatibleEqual (ctx_fpu C) (ctx_libs C) False v w)) (\<lambda>b. Inr (VBool b))))"

definition NotEqualOperator_evaluate :: "Context \<Rightarrow> engine_error + Variant \<Rightarrow> engine_error + Variant \<Rightarrow> engine_error + Variant" where
  "NotEqualOperator_evaluate C left right =
    chain left (\<lambda>v. chain right (\<lambda>w.
      if isNull v \<or> isNull w then Inr (VBool False)
      else chain (raised (compatibleEqual (ctx_fpu C) (ctx_libs C) False v w)) (\<lambda>b. Inr (VBool (\<not> b)))))"

definition compare_operator :: "(Variant \<Rightarrow> Variant \<Rightarrow> variant_error + bool) \<Rightarrow> engine_error + Variant \<Rightarrow>
    engine_error + Variant \<Rightarrow> engine_error + Variant" where
  "compare_operator f left right =
    chain left (\<lambda>v. chain right (\<lambda>w.
      if isNull v \<or> isNull w then Inr (VBool False)
      else chain (raised (f v w)) (\<lambda>b. Inr (VBool b))))"

definition LessOperator_evaluate :: "Context \<Rightarrow> engine_error + Variant \<Rightarrow> engine_error + Variant \<Rightarrow> engine_error + Variant" where
  "LessOperator_evaluate C = compare_operator (compatibleLess (ctx_fpu C) (ctx_libs C) False)"

definition LessOrEqualOperator_evaluate :: "Context \<Rightarrow> engine_error + Variant \<Rightarrow> engine_error + Variant \<Rightarrow> engine_error + Variant" where
  "LessOrEqualOperator_evaluate C = compare_operator (compatibleLessOrEqual (ctx_fpu C) (ctx_libs C) False)"

definition GreaterOrEqualOperator_evaluate :: "Context \<Rightarrow> engine_error + Variant \<Rightarrow> engine_error + Variant \<Rightarrow> engine_error + Variant" where
  "GreaterOrEqualOperator_evaluate C = compare_operator (compatibleGreaterOrEqual (ctx_fpu C) (ctx_libs C) False)"

definition GreaterOperator_evaluate :: "Context \<Rightarrow> engine_error + Variant \<Rightarrow> engine_error + Variant \<Rightarrow> engine_error + Variant" where
  "GreaterOperator_evaluate C = compare_operator (compatibleGreater (ctx_fpu C) (ctx_libs C) False)"

text \<open>The right operand of IS is evaluated twice when neither operand is null.\<close>

definition IsOperator_evaluate :: "Context \<Rightarrow> bool \<Rightarrow> engine_error + Variant \<Rightarrow> engine_error + Variant \<Rightarrow> engine_error + Variant" where
  "IsOperator_evaluate C isNot left right =
    chain left (\<lambda>v. chain right (\<lambda>w.
      if isNull v \<or> isNull w then Inr (VBool (isNot \<noteq> (isNull v = isNull w)))
      else chain right (\<lambda>w'.
        chain (raised (compatibleEqual (ctx_fpu C) (ctx_libs C) False v w')) (\<lambda>b. Inr (VBool (b \<noteq> isNot))))))"

definition LikeOperator_evaluate :: "Context \<Rightarrow> bool \<Rightarrow> engine_error + Variant \<Rightarrow> engine_error + Variant \<Rightarrow> engine_error + Variant" where
  "LikeOperator_evaluate C notLike left right =
    chain left (\<lambda>v. chain right (\<lambda>p.
      if isNull v \<or> isNull p then Inr (VBool False)
      else case v of
        VString valueStr \<Rightarrow>
          (case p of
             VString patternStr \<Rightarrow>
               (case matchPattern (utf8_next (ctx_libs C)) valueStr patternStr of
                  None \<Rightarrow> Inl (VariantError NonTermination)
                | Some r \<Rightarrow> chain r (\<lambda>b. Inr (VBool (b \<noteq> notLike))))
           | _ \<Rightarrow> Inl RuntimeError)
      | _ \<Rightarrow> Inl RuntimeError))"

definition BetweenOperator_evaluate :: "Context \<Rightarrow> bool \<Rightarrow> engine_error + Variant \<Rightarrow> engine_error + Variant \<Rightarrow>
    engine_error + Variant \<Rightarrow> engine_error + Variant" where
  "BetweenOperator_evaluate C notBetween left middle right =
    chain left (\<lambda>v. chain middle (\<lambda>lowerBound. chain right (\<lambda>upperBound.
      if isNull v \<or> isNull lowerBound \<or> isNull upperBound then Inr (VBool False)
      else if \<not> isNumericType (getValueType v) \<and>
          \<not> (isStringType (getValueType v) \<or> isDateTimeType (getValueType v)) then Inl RuntimeError
      else
        chain (raised (compatibleLessOrEqual (ctx_fpu C) (ctx_libs C) False lowerBound v)) (\<lambda>a.
        chain (if a then raised (compatibleGreaterOrEqual (ctx_fpu C) (ctx_libs C) False upperBound v)
               else Inr False) (\<lambda>valueIsBetween.
          Inr (VBool (valueIsBetween \<noteq> notBetween)))))))"

text \<open>What the cast does with the value of its operand.  The operand is a constant object, so the conversions to
  strings, binary values and streams yield pointers to constants; the only constructor of a value
  that takes such a pointer is the one from a Boolean, so the result is true.  No column type has a
  stream type for its values, so the branches of the code for them are never taken.\<close>

definition cast_value :: "('a \<Rightarrow> Variant) \<Rightarrow> (variant_error + 'a) \<times> Variant \<Rightarrow> engine_error + Variant" where
  "cast_value con r = chain (raised (fst r)) (\<lambda>x. Inr (con x))"

definition cast_pointer :: "(variant_error + 'a) \<times> Variant \<Rightarrow> engine_error + Variant" where
  "cast_pointer r = chain (raised (fst r)) (\<lambda>_. Inr (VBool True))"

definition CastOperator_evaluate :: "Context \<Rightarrow> engine_error + VariantType \<Rightarrow> engine_error + Variant \<Rightarrow>
    engine_error + Variant" where
  "CastOperator_evaluate C destination left =
    chain left (\<lambda>v. chain destination (\<lambda>resultType.
      let F = ctx_fpu C; L = ctx_libs C in
      case resultType of
        kBool \<Rightarrow> cast_value VBool (asBool F v)
      | kInt8 \<Rightarrow> cast_value VInt8 (asInt8 F v)
      | kUInt8 \<Rightarrow> cast_value VUInt8 (asUInt8 F v)
      | kInt16 \<Rightarrow> cast_value VInt16 (asInt16 F False v)
      | kUInt16 \<Rightarrow> cast_value VUInt16 (asUInt16 F False v)
      | kInt32 \<Rightarrow> cast_value VInt32 (asInt32 F False v)
      | kUInt32 \<Rightarrow> cast_value VInt32 (asInt32 F False v)
      | kInt64 \<Rightarrow> cast_value VInt64 (asInt64 F False v)
      | kUInt64 \<Rightarrow> cast_value VUInt64 (asUInt64 F False v)
      | kFloat \<Rightarrow> cast_value VFloat (asFloat F v)
      | kDouble \<Rightarrow> cast_value VDouble (asDouble F v)
      | kDateTime \<Rightarrow> cast_value VDateTime (asDateTime F L (ctx_init C) None v)
      | kString \<Rightarrow> cast_pointer (asStringInternal F L None v)
      | kBinary \<Rightarrow> cast_pointer (asBinaryInternal F v)
      | _ \<Rightarrow> Inl RuntimeError))"

text \<open>The destination type is that of a cast.\<close>

definition binary_evaluate ::
  "Context \<Rightarrow> BinaryOp \<Rightarrow> engine_error + VariantType \<Rightarrow> engine_error + Variant \<Rightarrow> engine_error + Variant \<Rightarrow>
    engine_error + Variant" where
  "binary_evaluate C op destination = (case op of
      LogicalAndOperator \<Rightarrow> LogicalAndOperator_evaluate
    | LogicalOrOperator \<Rightarrow> LogicalOrOperator_evaluate
    | AddOperator \<Rightarrow> AddOperator_evaluate C
    | SubtractOperator \<Rightarrow> SubtractOperator_evaluate C
    | MultiplyOperator \<Rightarrow> MultiplyOperator_evaluate C
    | DivideOperator \<Rightarrow> DivideOperator_evaluate C
    | ModuloOperator \<Rightarrow> ModuloOperator_evaluate
    | ConcatenationOperator \<Rightarrow> ConcatenationOperator_evaluate C
    | BitwiseOrOperator \<Rightarrow> BitwiseOrOperator_evaluate
    | BitwiseAndOperator \<Rightarrow> BitwiseAndOperator_evaluate
    | BitwiseXorOperator \<Rightarrow> BitwiseXorOperator_evaluate
    | RightShiftOperator \<Rightarrow> RightShiftOperator_evaluate
    | LeftShiftOperator \<Rightarrow> LeftShiftOperator_evaluate
    | CastOperator \<Rightarrow> (\<lambda>left _. CastOperator_evaluate C destination left)
    | EqualOperator \<Rightarrow> EqualOperator_evaluate C
    | NotEqualOperator \<Rightarrow> NotEqualOperator_evaluate C
    | LessOperator \<Rightarrow> LessOperator_evaluate C
    | LessOrEqualOperator \<Rightarrow> LessOrEqualOperator_evaluate C
    | GreaterOrEqualOperator \<Rightarrow> GreaterOrEqualOperator_evaluate C
    | GreaterOperator \<Rightarrow> GreaterOperator_evaluate C)"

section \<open>Evaluation\<close>

fun evaluate :: "Context \<Rightarrow> Expression \<Rightarrow> engine_error + Variant" where
  "evaluate C (ConstantExpression v) = Inr (variant_copy (ctx_addr C) v)"
| "evaluate C (SingleColumnExpression _ _ tables column) =
    chain (checkHasTableAndColumnIndices tables column) (\<lambda>(table, c).
    chain (ctx_getColumnValue C table c) (\<lambda>v. Inr (variant_copy (ctx_addr C) v)))"
| "evaluate C (AllColumnsExpression _ _) = Inl RuntimeError"
| "evaluate C (ListExpression items) = last_value (evaluate C) VNull items"
| "evaluate C (UnaryExpression op x) = unary_evaluate C op (evaluate C x)"
| "evaluate C (BinaryExpression op l r) =
    binary_evaluate C op (CastOperator_type r) (evaluate C l) (evaluate C r)"
| "evaluate C (IsOperator l r isNot) = IsOperator_evaluate C isNot (evaluate C l) (evaluate C r)"
| "evaluate C (LikeOperator l r notLike) = LikeOperator_evaluate C notLike (evaluate C l) (evaluate C r)"
| "evaluate C (BetweenOperator l m r notBetween) =
    BetweenOperator_evaluate C notBetween (evaluate C l) (evaluate C m) (evaluate C r)"
| "evaluate C (InOperator x variants notIn) =
    chain (evaluate C x) (\<lambda>v.
      if isNull v then Inr (VBool False)
      else chain (find_if (\<lambda>e. chain (evaluate C e) (\<lambda>w.
          if isNull w then Inr False else raised (compatibleEqual (ctx_fpu C) (ctx_libs C) False w v))) variants)
        (\<lambda>found. Inr (VBool (notIn \<noteq> found))))"

end
