(* ===== verification/ExprLike.thy ===== *)
theory ExprLike
  imports ExprEval
begin

text \<open>
  The pattern matcher of the LIKE operator: it ends on every input, and on valid UTF-8 it decides the
  matching relation of patterns with percent signs and underscores, except for empty strings.
\<close>

section \<open>Reference\<close>

text \<open>What a pattern means: an underscore stands for one character, a percent sign for any number of characters.\<close>

fun like :: "nat list \<Rightarrow> nat list \<Rightarrow> bool" where
  "like s [] = (s = [])"
| "like [] (p # ps) = (p = kAnyCharSeq \<and> like [] ps)"
| "like (c # s) (p # ps) =
    (if p = kAnyCharSeq then like (c # s) ps \<or> like s (p # ps)
     else (p = kAnyChar \<or> p = c) \<and> like s ps)"

abbreviation plain_matches :: "nat list \<Rightarrow> nat list \<Rightarrow> bool" where
  "plain_matches \<equiv> list_all2 (\<lambda>c p. p \<noteq> kAnyCharSeq \<and> (p = kAnyChar \<or> p = c))"

lemma any_char_neq [simp]: "kAnyChar \<noteq> kAnyCharSeq" "kAnyCharSeq \<noteq> kAnyChar"
  by (simp_all add: kAnyChar_def kAnyCharSeq_def)

lemma like_plain:
  "plain_matches mid seg \<Longrightarrow> like (mid @ cs) (seg @ ps) = like cs ps"
  by (induction mid seg rule: list_all2_induct) auto

lemma like_plain_cases:
  assumes "like s (seg @ ps)" and "kAnyCharSeq \<notin> set seg"
  shows "\<exists>mid cs. s = mid @ cs \<and> length mid = length seg \<and> like cs ps"
  using assms
proof (induction seg arbitrary: s)
  case (Cons p seg)
  from Cons.prems obtain c s' where s: "s = c # s'" "like s' (seg @ ps)" by (cases s) auto
  from Cons.IH [OF s(2)] Cons.prems(2) obtain mid cs
    where "s' = mid @ cs" "length mid = length seg" "like cs ps" by auto
  with s(1) show ?case by (intro exI [of _ "c # mid"] exI [of _ cs]) simp
qed simp

lemma like_seq_drop: "like (x @ z) (kAnyCharSeq # ps)" if "like z (kAnyCharSeq # ps)"
  using that by (induction x) simp_all

lemma like_seq_cases:
  "like s (kAnyCharSeq # ps) \<Longrightarrow> \<exists>x z. s = x @ z \<and> like z ps"
proof (induction s)
  case Nil
  then show ?case by simp
next
  case (Cons c s)
  then consider "like (c # s) ps" | "like s (kAnyCharSeq # ps)" by auto
  then show ?case
  proof cases
    case 1
    then show ?thesis by (intro exI [of _ "[]"] exI [of _ "c # s"]) simp
  next
    case 2
    with Cons.IH show ?thesis by (metis append_Cons)
  qed
qed

lemma like_seq_intro: "like z ps \<Longrightarrow> like (x @ z) (kAnyCharSeq # ps)"
  by (induction x) (cases z; simp; fail | simp)+

text \<open>A pattern needs at least as many characters as it has characters other than the percent sign.\<close>

lemma like_length: "like s ps \<Longrightarrow> length (filter (\<lambda>p. p \<noteq> kAnyCharSeq) ps) \<le> length s"
  by (induction s ps rule: like.induct) (auto split: if_splits)

lemma like_all_seq: "set ps \<subseteq> {kAnyCharSeq} \<Longrightarrow> like [] ps"
  by (induction ps) auto

lemma plain_seg: "plain_matches mid seg \<Longrightarrow> kAnyCharSeq \<notin> set seg \<and> length mid = length seg"
  by (induction mid seg rule: list_all2_induct) auto

text \<open>The greedy step: once a plain segment has been matched after a percent sign, a further percent sign makes the
  first one irrelevant.\<close>

lemma like_greedy:
  assumes "plain_matches mid seg"
  shows "like (mid @ cs) (kAnyCharSeq # seg @ kAnyCharSeq # ps) = like cs (kAnyCharSeq # ps)"
proof
  assume "like (mid @ cs) (kAnyCharSeq # seg @ kAnyCharSeq # ps)"
  then obtain x z where xz: "mid @ cs = x @ z" "like z (seg @ kAnyCharSeq # ps)"
    using like_seq_cases by blast
  from plain_seg [OF assms] obtain m' z' where z: "z = m' @ z'" "length m' = length seg" "like z' (kAnyCharSeq # ps)"
    using like_plain_cases [OF xz(2)] by blast
  with xz(1) plain_seg [OF assms] have "mid @ cs = (x @ m') @ z'" and "length mid \<le> length (x @ m')"
    by simp_all
  then obtain y where "cs = y @ z'" by (metis append_eq_append_conv_if append_eq_conv_conj append_take_drop_id append_assoc same_append_eq)
  with z(3) show "like cs (kAnyCharSeq # ps)" by (simp add: like_seq_drop)
next
  assume "like cs (kAnyCharSeq # ps)"
  then have "like (mid @ cs) (seg @ kAnyCharSeq # ps)" using like_plain [OF assms] by simp
  then show "like (mid @ cs) (kAnyCharSeq # seg @ kAnyCharSeq # ps)" using like_seq_intro [of _ _ "[]"] by simp
qed

text \<open>The end of the string: what is left of the pattern must be percent signs.\<close>

lemma like_ended:
  assumes "plain_matches mid seg"
  shows "like mid (kAnyCharSeq # seg @ ps) \<longleftrightarrow> set ps \<subseteq> {kAnyCharSeq}"
proof
  assume "like mid (kAnyCharSeq # seg @ ps)"
  from like_length [OF this] have "length (filter (\<lambda>p. p \<noteq> kAnyCharSeq) (seg @ ps)) \<le> length mid" by simp
  moreover from plain_seg [OF assms] have "filter (\<lambda>p. p \<noteq> kAnyCharSeq) seg = seg" "length mid = length seg"
    by (auto simp: filter_id_conv)
  ultimately have "filter (\<lambda>p. p \<noteq> kAnyCharSeq) ps = []" by simp
  then show "set ps \<subseteq> {kAnyCharSeq}" by (auto simp: filter_empty_conv)
next
  assume "set ps \<subseteq> {kAnyCharSeq}"
  then have "like (mid @ []) (seg @ ps)" using like_plain [OF assms] like_all_seq by metis
  then show "like mid (kAnyCharSeq # seg @ ps)" using like_seq_intro [of mid _ "[]"] by simp
qed

lemma like_mismatch:
  assumes "plain_matches mid seg" and "\<not> like cs ps" and "mid @ cs = s # ss"
  shows "like (mid @ cs) (kAnyCharSeq # seg @ ps) = like ss (kAnyCharSeq # seg @ ps)"
proof -
  from like_plain [OF assms(1), of cs ps] assms(2,3) have "\<not> like (s # ss) (seg @ ps)" by simp
  then show ?thesis unfolding assms(3) by simp
qed

section \<open>The matcher\<close>

lemma skip_decodes:
  "utf8_decodes nxt pattern ps \<Longrightarrow> skip_sequences nxt pattern = Some (Inr (set ps \<subseteq> {kAnyCharSeq}))"
  by (induction rule: utf8_decodes.induct) (simp_all add: skip_sequences.simps)

text \<open>The states of the main loop: with a percent sign behind, either the loop is back at it or the segment since then
  matched plainly.\<close>

definition tracks :: "(bytes \<Rightarrow> (nat \<times> bytes) option) \<Rightarrow> (bytes \<times> bytes) option \<Rightarrow> nat list \<Rightarrow> nat list \<Rightarrow> bool \<Rightarrow> bool" where
  "tracks nxt lastSeq cs ps result \<longleftrightarrow> (case lastSeq of
      None \<Rightarrow> result = like cs ps
    | Some (s0, p0) \<Rightarrow>
        (\<exists>ps'. ps = kAnyCharSeq # ps' \<and> result = like cs ps) \<or>
        (\<exists>mid seg. plain_matches mid seg \<and> 0 \<notin> set mid \<and> utf8_decodes nxt s0 (mid @ cs) \<and>
          utf8_decodes nxt p0 (kAnyCharSeq # seg @ ps) \<and>
          result = like (mid @ cs) (kAnyCharSeq # seg @ ps)))"

lemma tracks_step:
  assumes "tracks nxt lastSeq (c # cs) (p # ps) result" and "p \<noteq> kAnyCharSeq" and "p = kAnyChar \<or> p = c"
    and "c \<noteq> 0"
  shows "tracks nxt lastSeq cs ps result"
proof (cases lastSeq)
  case None
  with assms show ?thesis by (auto simp: tracks_def)
next
  case (Some a)
  obtain s0 p0 where a: "a = (s0, p0)" by fastforce
  with assms(1,2) Some obtain mid seg where "plain_matches mid seg" "0 \<notin> set mid"
      "utf8_decodes nxt s0 (mid @ c # cs)" "utf8_decodes nxt p0 (kAnyCharSeq # seg @ p # ps)"
      "result = like (mid @ c # cs) (kAnyCharSeq # seg @ p # ps)"
    by (auto simp: tracks_def)
  moreover from this(1) assms(2,3) have "plain_matches (mid @ [c]) (seg @ [p])"
    by (auto intro: list_all2_appendI)
  ultimately have "plain_matches (mid @ [c]) (seg @ [p]) \<and> 0 \<notin> set (mid @ [c]) \<and>
      utf8_decodes nxt s0 ((mid @ [c]) @ cs) \<and> utf8_decodes nxt p0 (kAnyCharSeq # (seg @ [p]) @ ps) \<and>
      result = like ((mid @ [c]) @ cs) (kAnyCharSeq # (seg @ [p]) @ ps)"
    using assms(4) by simp
  then show ?thesis unfolding tracks_def Some a option.case prod.case by blast
qed

lemma tracks_seq:
  assumes "tracks nxt lastSeq cs (kAnyCharSeq # ps) result"
    and "utf8_decodes nxt str cs" and "utf8_decodes nxt pattern (kAnyCharSeq # ps)"
  shows "tracks nxt (Some (str, pattern)) cs ps result"
proof -
  have "result = like cs (kAnyCharSeq # ps)"
    using assms(1) like_greedy by (auto simp: tracks_def split: option.splits)
  with assms(2,3) have "plain_matches [] [] \<and> 0 \<notin> set [] \<and> utf8_decodes nxt str ([] @ cs) \<and>
      utf8_decodes nxt pattern (kAnyCharSeq # [] @ ps) \<and> result = like ([] @ cs) (kAnyCharSeq # [] @ ps)"
    by simp
  then show ?thesis unfolding tracks_def option.case prod.case by blast
qed

lemma like_empty: "like [] ps \<longleftrightarrow> set ps \<subseteq> {kAnyCharSeq}"
  by (induction ps) auto

lemma tracks_ended:
  "tracks nxt lastSeq [] ps result \<Longrightarrow> result \<longleftrightarrow> set ps \<subseteq> {kAnyCharSeq}"
  by (auto simp: tracks_def like_empty like_ended split: option.splits)

text \<open>A mismatch without a percent sign behind decides; with one, the loop goes on at the next character after it.\<close>

lemma tracks_mismatch:
  assumes "tracks nxt (Some (s0, p0)) (c # cs) ps result" and "\<not> like (c # cs) ps"
    and "\<nexists>ps'. ps = kAnyCharSeq # ps'" and "0 \<notin> set (c # cs)"
  shows "\<exists>x s1 cs1 ps1. nxt s0 = Some (x, s1) \<and> utf8_decodes nxt s1 cs1 \<and> 0 \<notin> set cs1 \<and>
    utf8_decodes nxt p0 (kAnyCharSeq # ps1) \<and> tracks nxt (Some (s1, p0)) cs1 (kAnyCharSeq # ps1) result"
proof -
  from assms(1,3) obtain mid seg where mid: "plain_matches mid seg" "0 \<notin> set mid"
      "utf8_decodes nxt s0 (mid @ c # cs)" and p0: "utf8_decodes nxt p0 (kAnyCharSeq # seg @ ps)"
    and result: "result = like (mid @ c # cs) (kAnyCharSeq # seg @ ps)"
    by (auto simp: tracks_def)
  obtain x ss where ss: "mid @ c # cs = x # ss" by (cases mid) auto
  with mid(3) obtain s1 where s1: "nxt s0 = Some (x, s1)" "utf8_decodes nxt s1 ss"
    by (metis decodes_ConsE)
  from like_mismatch [OF mid(1) assms(2) ss] result have "result = like ss (kAnyCharSeq # seg @ ps)" by simp
  then have "tracks nxt (Some (s1, p0)) ss (kAnyCharSeq # seg @ ps) result" by (simp add: tracks_def)
  moreover have "set ss \<subseteq> set (mid @ c # cs)" unfolding ss by auto
  with mid(2) assms(4) have "0 \<notin> set ss" by auto
  ultimately show ?thesis using s1 p0 by blast
qed

lemma tracks_mismatch_None:
  "tracks nxt None cs ps result \<Longrightarrow> \<not> like cs ps \<Longrightarrow> \<not> result"
  by (simp add: tracks_def)

lemma decoded_head:
  assumes "utf8_decodes nxt pattern ps" and "\<nexists>ps'. ps = kAnyCharSeq # ps'"
  shows "\<exists>p pattern'. (if pattern \<noteq> [] then nxt pattern else Some (0, pattern)) = Some (p, pattern') \<and>
    p \<noteq> kAnyCharSeq \<and> (ps = [] \<and> p = 0 \<or> (\<exists>ps'. ps = p # ps' \<and> utf8_decodes nxt pattern' ps'))"
  using assms by (cases rule: utf8_decodes.cases) (auto simp: kAnyCharSeq_def)

text \<open>Partial correctness, turn by turn on the decoded characters.\<close>

lemma match_loop_correct:
  assumes "match_loop nxt str pattern lastSeq = Some r"
    and "utf8_decodes nxt str cs" and "utf8_decodes nxt pattern ps" and "0 \<notin> set cs"
    and "tracks nxt lastSeq cs ps result"
  shows "r = Inr result"
  using assms
proof (induction arbitrary: cs ps rule: match_loop.raw_induct [rotated, consumes 1, case_names step])
  case (step loop nxt str pattern lastSeq r)
  note IH = step(1) and turn = step(2) and str = step(3) and pattern = step(4) and nul = step(5)
    and tracks = step(6)
  show ?case
  proof (cases cs)
    case Nil
    with str have "str = []" by (auto elim: decodes_NilE)
    with turn skip_decodes [OF pattern] tracks_ended tracks Nil show ?thesis by auto
  next
    case (Cons c cs')
    with str obtain str' where str': "str \<noteq> []" "nxt str = Some (c, str')" "utf8_decodes nxt str' cs'"
      by (auto elim: decodes_ConsE)
    from nul Cons have c0: "c \<noteq> 0" and nul': "0 \<notin> set cs'" by auto
    show ?thesis
    proof (cases "\<exists>ps'. ps = kAnyCharSeq # ps'")
      case True
      then obtain ps' where ps: "ps = kAnyCharSeq # ps'" ..
      with pattern obtain pattern' where p: "pattern \<noteq> []" "nxt pattern = Some (kAnyCharSeq, pattern')"
        "utf8_decodes nxt pattern' ps'" by (auto elim: decodes_ConsE)
      with turn str' have "loop nxt str pattern' (Some (str, pattern)) = Some r" by simp
      with IH str p(3) nul show ?thesis using tracks_seq [OF _ str] tracks pattern ps by blast
    next
      case False
      obtain p pattern' where p: "(if pattern \<noteq> [] then nxt pattern else Some (0, pattern)) = Some (p, pattern')"
        and head: "p \<noteq> kAnyCharSeq" "ps = [] \<and> p = 0 \<or> (\<exists>ps'. ps = p # ps' \<and> utf8_decodes nxt pattern' ps')"
        using decoded_head [OF pattern False] by blast
      show ?thesis
      proof (cases "p = kAnyChar \<or> p = c")
        case True
        with head c0 obtain ps' where ps': "ps = p # ps'" "utf8_decodes nxt pattern' ps'"
          by (auto simp: kAnyChar_def)
        from turn str' p True head(1) have "loop nxt str' pattern' lastSeq = Some r"
          by (auto split: if_splits)
        with IH str'(3) ps'(2) nul' show ?thesis
          using tracks_step [OF _ head(1) True c0] tracks Cons ps'(1) by blast
      next
        case mismatch: False
        with head have unlike: "\<not> like (c # cs') ps" by auto
        show ?thesis
        proof (cases lastSeq)
          case None
          with turn str' p mismatch head(1) have "r = Inr False" by (auto split: if_splits)
          with None tracks unlike Cons tracks_mismatch_None show ?thesis by blast
        next
          case (Some a)
          obtain s0 p0 where a: "a = (s0, p0)" by fastforce
          from tracks_mismatch [of nxt s0 p0 c cs' ps result] tracks unlike False nul
          obtain x s1 cs1 ps1 where s1: "nxt s0 = Some (x, s1)" "utf8_decodes nxt s1 cs1" "0 \<notin> set cs1"
            and p0: "utf8_decodes nxt p0 (kAnyCharSeq # ps1)"
            and resumed: "tracks nxt (Some (s1, p0)) cs1 (kAnyCharSeq # ps1) result"
            unfolding Some a Cons by blast
          from turn str' p mismatch head(1) s1(1) have "loop nxt s1 p0 (Some (s1, p0)) = Some r"
            unfolding Some a by (auto split: if_splits)
          with IH s1 p0 resumed show ?thesis by blast
        qed
      qed
    qed
  qed
qed

section \<open>Termination\<close>

text \<open>A return to the last percent sign moves its place in the string on; a new percent sign is further in the
  pattern; every other turn consumes something.\<close>

definition match_order :: "((nat \<times> nat \<times> nat) \<times> (nat \<times> nat \<times> nat)) set" where
  "match_order = less_than <*lex*> less_than <*lex*> less_than"

lemma wf_match_order: "wf match_order"
  by (simp add: match_order_def wf_lex_prod)

definition bounded_by :: "bytes \<Rightarrow> bytes \<Rightarrow> (bytes \<times> bytes) option \<Rightarrow> nat \<times> nat \<times> nat \<Rightarrow> bool" where
  "bounded_by str pattern lastSeq m = (case (lastSeq, m) of
      (None, (a, b, n)) \<Rightarrow> length pattern < a \<and> n = length pattern + length str
    | (Some (s0, p0), (a, b, n)) \<Rightarrow> length pattern \<le> length p0 \<and> length str \<le> length s0 \<and>
        a = length p0 \<and> b = length s0 \<and> n = length pattern + length str)"

lemma skip_returns:
  assumes "\<forall>s c r. nxt s = Some (c, r) \<longrightarrow> length r < length s"
  shows "\<exists>res. skip_sequences nxt pattern = Some res"
proof (induction "length pattern" arbitrary: pattern rule: less_induct)
  case less
  have "\<exists>res. skip_sequences nxt r = Some res" if "nxt pattern = Some (c, r)" for c r
    using that assms less by blast
  then show ?case by (subst skip_sequences.simps) (auto split: option.split)
qed

lemma bounded_consume:
  assumes "bounded_by str pattern lastSeq (a, b, n)" and "length str' < length str"
    and "length pattern' \<le> length pattern"
  shows "\<exists>m. bounded_by str' pattern' lastSeq m \<and> (m, (a, b, n)) \<in> match_order"
  using assms
  by (intro exI [of _ "(a, b, length pattern' + length str')"])
    (auto simp: bounded_by_def match_order_def split: option.splits)

lemma bounded_seq:
  assumes "bounded_by str pattern lastSeq (a, b, n)" and "length pattern' < length pattern"
  shows "\<exists>m. bounded_by str pattern' (Some (str, pattern)) m \<and> (m, (a, b, n)) \<in> match_order"
  using assms
  by (intro exI [of _ "(length pattern, length str, length pattern' + length str)"])
    (auto simp: bounded_by_def match_order_def split: option.splits)

lemma bounded_back:
  assumes "bounded_by str pattern (Some (s0, p0)) (a, b, n)" and "length s1 < length s0"
  shows "\<exists>m. bounded_by s1 p0 (Some (s1, p0)) m \<and> (m, (a, b, n)) \<in> match_order"
  using assms
  by (intro exI [of _ "(length p0, length s1, length p0 + length s1)"])
    (auto simp: bounded_by_def match_order_def)

lemma match_loop_returns:
  assumes progress: "\<forall>s c r. nxt s = Some (c, r) \<longrightarrow> length r < length s"
    and "bounded_by str pattern lastSeq m"
  shows "\<exists>res. match_loop nxt str pattern lastSeq = Some res"
  using assms(2)
proof (induction m arbitrary: str pattern lastSeq rule: wf_induct_rule [OF wf_match_order])
  case (1 m)
  obtain a b n where m: "m = (a, b, n)" by (cases m) auto
  note bound = 1(2) [unfolded m] and IH = 1(1) [unfolded m]
  have consume: "\<exists>res. match_loop nxt str' pattern' lastSeq = Some res"
    if "nxt str = Some (c, str')"
      and "(if pattern \<noteq> [] then nxt pattern else Some (0, pattern)) = Some (p, pattern')" for c str' p pattern'
  proof -
    from that progress have "length str' < length str" "length pattern' \<le> length pattern"
      by (auto split: if_splits intro: less_imp_le)
    with bounded_consume [OF bound] IH show ?thesis by blast
  qed
  have seq: "\<exists>res. match_loop nxt str pattern' (Some (str, pattern)) = Some res"
    if "(if pattern \<noteq> [] then nxt pattern else Some (0, pattern)) = Some (kAnyCharSeq, pattern')" for pattern'
  proof -
    from that progress have "length pattern' < length pattern"
      by (auto simp: kAnyCharSeq_def split: if_splits)
    with bounded_seq [OF bound] IH show ?thesis by blast
  qed
  have return: "\<exists>res. match_loop nxt s1 p0 (Some (s1, p0)) = Some res"
    if "lastSeq = Some (s0, p0)" and "nxt s0 = Some (c, s1)" for s0 p0 c s1
    using bounded_back [OF bound [unfolded that(1)]] progress that(2) IH by blast
  show ?case
    using skip_returns [OF progress, of pattern] consume seq return
    by (subst match_loop.simps) (auto split: option.split)
qed

text \<open>C10: The matcher of LIKE ends on every string and pattern, provided the UTF-8 decoder consumes at least one byte of
  what it decodes.  On valid UTF-8 its answer is the matching relation, for every non-empty string
  without a zero character.\<close>

theorem like_matcher_correct:
  assumes "\<forall>s c r. nxt s = Some (c, r) \<longrightarrow> length r < length s"
  shows "\<exists>res. matchPattern nxt str pattern = Some res \<and>
    (\<forall>cs ps. utf8_decodes nxt str cs \<longrightarrow> utf8_decodes nxt pattern ps \<longrightarrow> cs \<noteq> [] \<longrightarrow> 0 \<notin> set cs \<longrightarrow>
      res = Inr (like cs ps))"
proof (cases "str = []")
  case True
  then show ?thesis by (auto simp: matchPattern_def elim: decodes_ConsE utf8_decodes.cases)
next
  case False
  have "bounded_by str pattern None (Suc (length pattern), 0, length pattern + length str)"
    by (simp add: bounded_by_def)
  with match_loop_returns [OF assms] obtain res where res: "match_loop nxt str pattern None = Some res"
    by blast
  have "tracks nxt None cs ps (like cs ps)" for cs ps by (simp add: tracks_def)
  with False res match_loop_correct [OF res] show ?thesis by (auto simp: matchPattern_def)
qed

lemma ascii_progress: "\<forall>s c r. ascii_next s = Some (c, r) \<longrightarrow> length r < length s"
proof (intro allI impI)
  fix s c r
  assume "ascii_next s = Some (c, r)"
  then show "length r < length s" by (cases s) (auto split: if_splits)
qed

theorem like_matcher_correct_witness:
  "matchPattern ascii_next (bytes_of ''abcb'') (bytes_of ''a%_b'') = Some (Inr True)"
proof -
  have "utf8_decodes ascii_next (bytes_of ''abcb'') [97, 98, 99, 98]"
    and "utf8_decodes ascii_next (bytes_of ''a%_b'') [97, 37, 95, 98]"
    by (auto intro!: utf8_decodes.intros simp: bytes_of_def)
  moreover have "like [97, 98, 99, 98] [97, 37, 95, 98]" by (simp add: kAnyChar_def kAnyCharSeq_def)
  ultimately show ?thesis
    using like_matcher_correct [OF ascii_progress, of "bytes_of ''abcb''" "bytes_of ''a%_b''"] by fastforce
qed

text \<open>The empty string is matched by the empty pattern only: a pattern of percent signs, which stands for every
  string, does not match it.\<close>

theorem like_empty_string:
  assumes "utf8_decodes nxt pattern ps" and "set ps \<subseteq> {kAnyCharSeq}" and "ps \<noteq> []"
  shows "like [] ps \<and> matchPattern nxt [] pattern = Some (Inr False)"
  using assms by (auto simp: like_empty matchPattern_def elim: utf8_decodes.cases)

theorem like_empty_string_witness:
  "like [] [kAnyCharSeq] \<and> matchPattern ascii_next [] (bytes_of ''%'') = Some (Inr False)"
proof -
  have "utf8_decodes ascii_next (bytes_of ''%'') [kAnyCharSeq]"
    by (auto intro!: utf8_decodes.intros simp: bytes_of_def kAnyCharSeq_def)
  from like_empty_string [OF this] show ?thesis by simp
qed

end
