(* ===== verification/ExprTypes.thy ===== *)
theory ExprTypes
  imports ExprEval
begin

text \<open>
  What the announced types of expressions promise about their values: soundness of
  \<open>getResultValueType\<close> for evaluation, the operators for which it fails, and the agreement of
  \<open>getColumnDataType\<close> with it.
\<close>

section \<open>Operators\<close>

text \<open>A computation yields values of a type: null, or a value of that type, if it ends with a value at all.\<close>

definition yields :: "engine_error + Variant \<Rightarrow> VariantType \<Rightarrow> bool" where
  "yields r t \<longleftrightarrow> (\<forall>v. r = Inr v \<longrightarrow> v = VNull \<or> getValueType v = t)"

lemma yields_Inl [simp]: "yields (Inl e) t"
  by (simp add: yields_def)

lemma yields_Inr: "yields (Inr v) t \<longleftrightarrow> v = VNull \<or> getValueType v = t"
  by (simp add: yields_def)

lemma yields_chain:
  assumes "yields r t"
    and "\<And>v. r = Inr v \<Longrightarrow> v = VNull \<or> getValueType v = t \<Longrightarrow> yields (f v) u"
  shows "yields (chain r f) u"
  using assms by (cases r) (auto simp: yields_def)

lemma yields_strict:
  assumes "yields left a" and "yields right b"
    and "\<And>v w r. v \<noteq> VNull \<Longrightarrow> w \<noteq> VNull \<Longrightarrow> getValueType v = a \<Longrightarrow> getValueType w = b \<Longrightarrow> f v w = Inr r \<Longrightarrow>
      getValueType r = t"
  shows "yields (strict_operator f left right) t"
  unfolding yields_def
proof (intro allI impI)
  fix r
  assume "strict_operator f left right = Inr r"
  then obtain v w where v: "left = Inr v" and w: "right = Inr w"
    and r: "(if isNull v \<or> isNull w then Inr VNull else f v w) = Inr r"
    by (auto simp: strict_operator_def)
  show "r = VNull \<or> getValueType r = t"
  proof (cases "isNull v \<or> isNull w")
    case True
    with r show ?thesis by simp
  next
    case False
    with assms(1,2) v w have "getValueType v = a" and "getValueType w = b" by (auto simp: yields_def)
    with False r assms(3) [of v w r] show ?thesis by simp
  qed
qed

lemma numeric_op_Inr:
  "numeric_op F iop fop v w = Inr r \<Longrightarrow> isNumericType (getValueType v) \<and> isNumericType (getValueType w)"
  by (rule ccontr) (simp add: numeric_op_def mismatch_def Let_def)

lemma integers_of_Inr:
  assumes "(case integers_of v w of None \<Rightarrow> mismatch v w | Some (t, a, b) \<Rightarrow> f t a b) = Inr r"
  shows "isIntegerType (getValueType v) \<and> isIntegerType (getValueType w)"
  using assms integers_of_None [of v w] by (cases "integers_of v w") (auto simp: mismatch_def)

lemma integer_numeric: "isIntegerType t \<Longrightarrow> isNumericType t"
  by (cases t) (simp_all add: isIntegerType_def isNumericType_def)

lemma arithmetic_announced:
  assumes "f \<in> {variant_minus F, variant_times F, variant_divide F, variant_modulo}" and "f v w = Inr r"
  shows "getValueType r = ArithmeticBinaryOperator_type (getValueType v) (getValueType w)"
proof -
  consider iop fop where "numeric_op F iop fop v w = Inr r" | "variant_modulo v w = Inr r"
    using assms by (auto simp: variant_minus_def variant_times_def variant_divide_def)
  then show ?thesis
  proof cases
    case 1
    with numeric_op_Inr numeric_op_type show ?thesis by (simp add: ArithmeticBinaryOperator_type_def)
  next
    case 2
    then show ?thesis
      using integers_of_Inr [of v w "int_arith IntMod" r] modulo_type integer_numeric
      by (simp add: ArithmeticBinaryOperator_type_def variant_modulo_def)
  qed
qed

lemma add_announced:
  assumes "variant_plus F v w = Inr r"
  shows "getValueType r = AddOperator_type (getValueType v) (getValueType w)"
proof (cases "\<exists>a b. v = VString a \<and> w = VString b")
  case True
  with assms show ?thesis by (auto simp: variant_plus_def AddOperator_type_def)
next
  case False
  then have "variant_plus F v w = numeric_op F IntAdd ArithAdd v w"
    by (cases v; cases w) (simp_all add: variant_plus_def)
  with assms have n: "numeric_op F IntAdd ArithAdd v w = Inr r" by simp
  from numeric_op_Inr [OF n] have "getValueType v \<noteq> kString" by (auto simp: isNumericType_def)
  with n numeric_op_Inr [OF n] numeric_op_type show ?thesis
    by (simp add: AddOperator_type_def ArithmeticBinaryOperator_type_def)
qed

lemma bitwise_announced:
  assumes "f \<in> {variant_or, variant_and, variant_xor}" and "f v w = Inr r"
  shows "getValueType r = BitwiseBinaryOperator_type (getValueType v) (getValueType w)"
proof -
  from assms obtain g where g: "bitwise_op g v w = Inr r"
    by (auto simp: variant_or_def variant_and_def variant_xor_def)
  then have "isIntegerType (getValueType v) \<and> isIntegerType (getValueType w)"
    unfolding bitwise_op_def by (rule integers_of_Inr)
  with bitwise_type [OF g] show ?thesis by (simp add: BitwiseBinaryOperator_type_def)
qed

lemma promoted_wide: "isIntegerType t \<Longrightarrow> wide (promoted t)"
  by (cases t) (simp_all add: isIntegerType_def width_simps)

lemma shift_result:
  assumes "f \<in> {variant_shl, variant_shr}" and "f v w = Inr r"
  shows "isIntegerType (getValueType v) \<and> isIntegerType (getValueType w) \<and>
    getValueType r = promoted (getValueType v)"
proof -
  have int: "isIntegerType (getValueType v) \<and> isIntegerType (getValueType w)"
    by (rule ccontr) (use assms in \<open>auto simp: variant_shl_def variant_shr_def mismatch_def\<close>)
  then obtain z where "r = make_int (promoted (getValueType v)) z"
    using assms by (auto simp: variant_shl_def variant_shr_def Let_def split: if_splits)
  with int make_int_type [OF promoted_wide] show ?thesis by simp
qed

lemma unary_integer:
  assumes "isIntegerType (getValueType v)"
  shows "variant_neg F v = int_result (promoted (getValueType v)) (- intValue v)"
    and "variant_pos v = Inr (make_int (promoted (getValueType v)) (intValue v))"
  using assms by (cases v; simp add: variant_neg_def variant_pos_def isIntegerType_def)+

lemma unary_result:
  assumes "variant_neg F v = Inr s \<or> variant_pos v = Inr s"
  shows "isNumericType (getValueType v) \<and> getValueType s =
    (if isIntegerType (getValueType v) then promoted (getValueType v) else getValueType v)"
proof (cases "isIntegerType (getValueType v)")
  case True
  with assms unary_integer [OF True] int_result_type [OF promoted_wide] make_int_type [OF promoted_wide]
  have "getValueType s = promoted (getValueType v)" by auto
  with True integer_numeric show ?thesis by simp
next
  case False
  then show ?thesis
    using assms by (cases v; simp add: variant_neg_def variant_pos_def isNumericType_def isIntegerType_def) auto
qed

lemma promoted_announced:
  assumes "isNumericType t" and "t \<noteq> kUInt32" and "t \<noteq> kUInt64"
  shows "ArithmeticUnaryOperator_type t = (if isIntegerType t then promoted t else t)"
  using assms
  by (cases t) (simp_all add: ArithmeticUnaryOperator_type_def isNumericType_def isIntegerType_def
      width_simps getSignedType_def less_eq_VariantType_def type_code_def)

lemma complement_announced:
  assumes "variant_not v = Inr r"
  shows "getValueType r = BitwiseUnaryOperator_type (getValueType v)"
proof -
  from assms have int: "isIntegerType (getValueType v)"
    by (auto simp: variant_not_def split: if_splits)
  with assms have "getValueType r = promoted (getValueType v)"
    by (auto simp: variant_not_def make_int_type [OF promoted_wide])
  also have "\<dots> = BitwiseUnaryOperator_type (getValueType v)"
    using int by (cases "getValueType v") (simp_all add: BitwiseUnaryOperator_type_def isIntegerType_def
        width_simps less_eq_VariantType_def type_code_def)
  finally show ?thesis .
qed

lemma concatenate_string: "fst (concatenate F L v w) = Inr r \<Longrightarrow> getValueType r = kString"
  by (auto simp: concatenate_def Let_def split: prod.splits sum.splits)

lemma yields_cast:
  assumes "\<And>x. getValueType (con x) = t"
  shows "yields (cast_value con r) t"
  using assms by (auto simp: yields_def cast_value_def)

lemma yields_last:
  assumes "items \<noteq> []" and "yields (f (last items)) t"
  shows "yields (last_value f v items) t"
  using assms by (induction items arbitrary: v) (auto simp: yields_def split: if_splits)

lemma yields_any: "(\<And>x. yields (f x) t) \<Longrightarrow> yields (chain r f) t"
  by (cases r) simp_all

lemma yields_if: "yields x t \<Longrightarrow> yields y t \<Longrightarrow> yields (if b then x else y) t"
  by simp

lemma yields_boolean:
  "yields (EqualOperator_evaluate C left right) kBool"
  "yields (NotEqualOperator_evaluate C left right) kBool"
  "yields (compare_operator f left right) kBool"
  "yields (IsOperator_evaluate C b left right) kBool"
  "yields (BetweenOperator_evaluate C b left middle right) kBool"
  unfolding EqualOperator_evaluate_def NotEqualOperator_evaluate_def compare_operator_def
    IsOperator_evaluate_def BetweenOperator_evaluate_def
  by (intro yields_any yields_if; simp add: yields_Inr)+

lemma yields_like: "yields (LikeOperator_evaluate C b left right) kBool"
proof -
  have "yields (case p of
      VString ps \<Rightarrow> (case matchPattern nxt s ps of
          None \<Rightarrow> Inl (VariantError NonTermination) | Some r \<Rightarrow> chain r (\<lambda>m. Inr (VBool (m \<noteq> b))))
    | _ \<Rightarrow> Inl RuntimeError) kBool" for nxt s p
    by (cases p) (auto simp: yields_def split: option.splits)
  then have "yields (case v of
      VString s \<Rightarrow> (case p of
          VString ps \<Rightarrow> (case matchPattern nxt s ps of
              None \<Rightarrow> Inl (VariantError NonTermination) | Some r \<Rightarrow> chain r (\<lambda>m. Inr (VBool (m \<noteq> b))))
        | _ \<Rightarrow> Inl RuntimeError)
    | _ \<Rightarrow> Inl RuntimeError) kBool" for nxt v p
    by (cases v) simp_all
  then show ?thesis
    unfolding LikeOperator_evaluate_def by (intro yields_any yields_if) (simp_all add: yields_Inr)
qed

section \<open>Soundness of the announced types\<close>

text \<open>The operators that announce a type other than that of their value: the signs on the wide unsigned types, the
  shifts by a wider operand, the conjunction and disjunction of a Boolean with null, and the casts
  to UINT32, TEXT and BINARY.\<close>

definition unary_announces :: "UnaryOp \<Rightarrow> engine_error + VariantType \<Rightarrow> bool" where
  "unary_announces op t = (case op of
      UnaryMinusOperator \<Rightarrow> t \<notin> {Inr kUInt32, Inr kUInt64}
    | UnaryPlusOperator \<Rightarrow> t \<notin> {Inr kUInt32, Inr kUInt64}
    | _ \<Rightarrow> True)"

definition shift_announces :: "engine_error + VariantType \<Rightarrow> engine_error + VariantType \<Rightarrow> bool" where
  "shift_announces l r = (case (l, r) of
      (Inr a, Inr b) \<Rightarrow>
        \<not> isIntegerType a \<or> \<not> isIntegerType b \<or> promoted a = getNumericResultType a b
    | _ \<Rightarrow> True)"

definition binary_announces :: "BinaryOp \<Rightarrow> engine_error + VariantType \<Rightarrow> engine_error + VariantType \<Rightarrow>
    engine_error + VariantType \<Rightarrow> bool" where
  "binary_announces op destination l r = (case op of
      LogicalAndOperator \<Rightarrow> l = Inr kNull \<or> r = Inr kBool
    | LogicalOrOperator \<Rightarrow> l = Inr kNull \<or> r = Inr kBool
    | LeftShiftOperator \<Rightarrow> shift_announces l r
    | RightShiftOperator \<Rightarrow> shift_announces l r
    | CastOperator \<Rightarrow> destination \<notin> {Inr kUInt32, Inr kString, Inr kBinary}
    | _ \<Rightarrow> True)"

text \<open>The expressions that contain no such operator where it decides the type.\<close>

fun announces :: "Context \<Rightarrow> Expression \<Rightarrow> bool" where
  "announces C (ListExpression items) = (if items = [] then True else announces C (last items))"
| "announces C (UnaryExpression op x) = (announces C x \<and> unary_announces op (getResultValueType C x))"
| "announces C (BinaryExpression op l r) =
    (announces C l \<and> announces C r \<and>
     binary_announces op (CastOperator_type r) (getResultValueType C l) (getResultValueType C r))"
| "announces C _ = True"

text \<open>The columns hold null or values of their declared type.\<close>

definition typed_columns :: "Context \<Rightarrow> bool" where
  "typed_columns C \<longleftrightarrow> (\<forall>table column c v. ctx_getColumnDataType C table column = Inr c \<longrightarrow>
    ctx_getColumnValue C table column = Inr v \<longrightarrow> v = VNull \<or>
    convertColumnDataTypeToVariantType c = Inr (getValueType v))"

lemma copy_type [simp]:
  "getValueType (variant_copy addr v) = getValueType v" "variant_copy addr v = VNull \<longleftrightarrow> v = VNull"
  by (cases v; simp add: variant_copy_def)+

lemma unary_sound:
  assumes "yields x t" and "unary_announces op (Inr t)"
  shows "yields (unary_evaluate C op x) (unary_type op t)"
proof -
  have sign: "getValueType s = ArithmeticUnaryOperator_type (getValueType v)"
    if "variant_neg (ctx_fpu C) v = Inr s \<or> variant_pos v = Inr s"
      and "getValueType v \<notin> {kUInt32, kUInt64}" for v s
    using unary_result [OF that(1)] promoted_announced that(2) by simp
  show ?thesis
  proof (cases op)
    case LogicalNotOperator
    have "yields (LogicalNotOperator_evaluate (Inr v)) (LogicalUnaryOperator_type t)"
      if "v = VNull \<or> getValueType v = t" for v
      using that
      by (cases v) (auto simp: LogicalNotOperator_evaluate_def yields_Inr LogicalUnaryOperator_type_def
          isBoolType_def)
    with assms LogicalNotOperator show ?thesis
      by (cases x) (auto simp: yields_def unary_evaluate_def unary_type_def LogicalNotOperator_evaluate_def)
  next
    case UnaryMinusOperator
    with assms sign show ?thesis
      by (auto simp: yields_def unary_evaluate_def unary_type_def unary_announces_def
          UnaryMinusOperator_evaluate_def split: if_splits)
  next
    case UnaryPlusOperator
    with assms sign show ?thesis
      by (auto simp: yields_def unary_evaluate_def unary_type_def unary_announces_def
          UnaryPlusOperator_evaluate_def split: if_splits)
  next
    case ComplementOperator
    with assms complement_announced show ?thesis
      by (auto simp: yields_def unary_evaluate_def unary_type_def ComplementOperator_evaluate_def
          split: if_splits)
  qed
qed

lemma logical_right:
  assumes "yields r kBool"
  shows "yields (chain r (\<lambda>w. case w of VNull \<Rightarrow> Inr VNull | VBool b \<Rightarrow> Inr (VBool b) | _ \<Rightarrow> Inl RuntimeError)) kBool"
proof (cases r)
  case (Inr w)
  then show ?thesis by (cases w) (simp_all add: yields_Inr)
qed simp

lemma logical_sound:
  assumes "yields l a" and "yields r b" and "a = kNull \<or> b = kBool"
  shows "yields (LogicalAndOperator_evaluate l r) (LogicalBinaryOperator_type a b)"
    and "yields (LogicalOrOperator_evaluate l r) (LogicalBinaryOperator_type a b)"
proof -
  have "yields (LogicalAndOperator_evaluate (Inr v) r) (LogicalBinaryOperator_type a b) \<and>
      yields (LogicalOrOperator_evaluate (Inr v) r) (LogicalBinaryOperator_type a b)" if "l = Inr v" for v
    using that assms logical_right [of r]
    by (cases v) (auto simp: LogicalAndOperator_evaluate_def LogicalOrOperator_evaluate_def yields_Inr
        LogicalBinaryOperator_type_def)
  then show "yields (LogicalAndOperator_evaluate l r) (LogicalBinaryOperator_type a b)"
    and "yields (LogicalOrOperator_evaluate l r) (LogicalBinaryOperator_type a b)"
    by (cases l; simp add: LogicalAndOperator_evaluate_def LogicalOrOperator_evaluate_def)+
qed

lemma shift_sound:
  assumes "yields l a" and "yields r b" and "shift_announces (Inr a) (Inr b)"
    and "f \<in> {variant_shl, variant_shr}"
  shows "yields (strict_operator (\<lambda>v w. raised (f v w)) l r) (BitwiseBinaryOperator_type a b)"
  using assms(1,2)
proof (rule yields_strict)
  fix v w s
  assume "getValueType v = a" and "getValueType w = b" and "raised (f v w) = Inr s"
  with shift_result [OF assms(4), of v w s] assms(3) show "getValueType s = BitwiseBinaryOperator_type a b"
    by (simp add: shift_announces_def BitwiseBinaryOperator_type_def)
qed

lemmas strict_defs =
  AddOperator_evaluate_def SubtractOperator_evaluate_def MultiplyOperator_evaluate_def
  DivideOperator_evaluate_def ModuloOperator_evaluate_def BitwiseOrOperator_evaluate_def
  BitwiseAndOperator_evaluate_def BitwiseXorOperator_evaluate_def LeftShiftOperator_evaluate_def
  RightShiftOperator_evaluate_def ConcatenationOperator_evaluate_def

lemma arithmetic_sound:
  assumes "yields l a" and "yields r b"
    and "f \<in> {variant_minus F, variant_times F, variant_divide F, variant_modulo}"
  shows "yields (strict_operator (\<lambda>v w. raised (f v w)) l r) (ArithmeticBinaryOperator_type a b)"
  by (rule yields_strict [OF assms(1,2)]) (auto simp: arithmetic_announced [OF assms(3)])

lemma bitwise_sound:
  assumes "yields l a" and "yields r b" and "f \<in> {variant_or, variant_and, variant_xor}"
  shows "yields (strict_operator (\<lambda>v w. raised (f v w)) l r) (BitwiseBinaryOperator_type a b)"
  by (rule yields_strict [OF assms(1,2)]) (auto simp: bitwise_announced [OF assms(3)])

lemma add_sound:
  assumes "yields l a" and "yields r b"
  shows "yields (strict_operator (\<lambda>v w. raised (variant_plus F v w)) l r) (AddOperator_type a b)"
  by (rule yields_strict [OF assms]) (auto simp: add_announced)

lemma binary_sound:
  assumes "yields l a" and "yields r b" and "binary_type op = Some f"
    and "binary_announces op destination (Inr a) (Inr b)"
  shows "yields (binary_evaluate C op destination l r) (f a b)"
  using assms(3,4) logical_sound [OF assms(1,2)] add_sound [OF assms(1,2)]
    shift_sound [OF assms(1,2)] bitwise_sound [OF assms(1,2)]
    arithmetic_sound [OF assms(1,2), where F = "ctx_fpu C"]
  by (cases op) (auto simp: binary_type_def binary_announces_def binary_evaluate_def strict_defs)

lemma cast_sound:
  assumes "destination = Inr t" and "destination \<notin> {Inr kUInt32, Inr kString, Inr kBinary}"
  shows "yields (CastOperator_evaluate C destination l) t"
  using assms
  by (cases t) (auto simp: CastOperator_evaluate_def Let_def intro!: yields_any yields_cast)

lemma comparison_sound:
  assumes "binary_type op = None" and "op \<noteq> CastOperator" and "op \<noteq> ConcatenationOperator"
  shows "yields (binary_evaluate C op destination l r) kBool"
  using assms
  by (cases op) (simp_all add: binary_type_def binary_evaluate_def yields_boolean LessOperator_evaluate_def
      LessOrEqualOperator_evaluate_def GreaterOperator_evaluate_def GreaterOrEqualOperator_evaluate_def)

lemma null_type [simp]: "getValueType v = kNull \<longleftrightarrow> v = VNull"
  by (cases v) simp_all

lemma concatenation_sound:
  assumes "ConcatenationOperator_type l r = Inr t"
    and "\<And>a. l = Inr a \<Longrightarrow> yields x a" and "\<And>b. r = Inr b \<Longrightarrow> yields y b"
  shows "yields (ConcatenationOperator_evaluate C x y) t"
proof -
  obtain a where a: "l = Inr a" using assms(1) by (auto simp: ConcatenationOperator_type_def)
  show ?thesis
  proof (cases "isNullType a")
    case True
    with a assms(2) have "yields x kNull" by (simp add: isNullType_def)
    then have "yields (ConcatenationOperator_evaluate C x y) kNull"
      by (auto simp: ConcatenationOperator_evaluate_def strict_operator_def yields_def)
    with True a assms(1) show ?thesis by (simp add: ConcatenationOperator_type_def)
  next
    case False
    with a assms(1) obtain b where b: "r = Inr b" and t: "t = (if isNullType b then kNull else kString)"
      by (auto simp: ConcatenationOperator_type_def)
    show ?thesis
      unfolding ConcatenationOperator_evaluate_def
    proof (rule yields_strict [OF assms(2) [OF a] assms(3) [OF b]])
      fix v w s
      assume "w \<noteq> VNull" and "getValueType w = b"
        and s: "raised (fst (concatenate (ctx_fpu C) (ctx_libs C) v w)) = Inr s"
      then have "\<not> isNullType b" by (cases w) (auto simp: isNullType_def)
      with s t concatenate_string show "getValueType s = t" by simp
    qed
  qed
qed

lemma binary_expression_sound:
  assumes "\<And>t. getResultValueType C l = Inr t \<Longrightarrow> yields (evaluate C l) t"
    and "\<And>t. getResultValueType C r = Inr t \<Longrightarrow> yields (evaluate C r) t"
    and "binary_announces op (CastOperator_type r) (getResultValueType C l) (getResultValueType C r)"
    and "getResultValueType C (BinaryExpression op l r) = Inr t"
  shows "yields (evaluate C (BinaryExpression op l r)) t"
proof (cases "binary_type op")
  case (Some f)
  with assms(4) obtain a b where "getResultValueType C l = Inr a" "getResultValueType C r = Inr b" "t = f a b"
    by auto
  with assms Some show ?thesis by (simp add: binary_sound)
next
  case None
  consider "op = CastOperator" | "op = ConcatenationOperator" | "op \<noteq> CastOperator" "op \<noteq> ConcatenationOperator"
    by blast
  then show ?thesis
  proof cases
    case 1
    with assms None show ?thesis
      using cast_sound [of "CastOperator_type r" t C] by (simp add: binary_announces_def binary_evaluate_def)
  next
    case 2
    with assms None show ?thesis
      by (simp add: binary_evaluate_def concatenation_sound)
  next
    case 3
    with assms None show ?thesis by (simp add: comparison_sound)
  qed
qed

lemma announces_sound:
  assumes "typed_columns C" and "announces C e" and "getResultValueType C e = Inr t"
  shows "yields (evaluate C e) t"
  using assms
proof (induction e arbitrary: t)
  case (SingleColumnExpression tn cn tables column)
  then show ?case by (fastforce simp: yields_def typed_columns_def)
next
  case (ListExpression items)
  then show ?case by (auto simp: yields_Inr intro: yields_last split: if_splits)
next
  case (UnaryExpression op x)
  then show ?case by (auto intro: unary_sound)
next
  case (BinaryExpression op l r)
  from BinaryExpression.prems(2)
  have "announces C l" and "announces C r"
    and "binary_announces op (CastOperator_type r) (getResultValueType C l) (getResultValueType C r)"
    by simp_all
  with BinaryExpression show ?case by (intro binary_expression_sound) simp_all
qed (simp_all add: yields_boolean yields_like yields_Inr yields_any yields_if)


text \<open>A context with one table of one column, and \<open>column + 1 = 42\<close> over it.\<close>

definition sample_context :: Context where
  "sample_context = DBExpressionEvaluationContext sample_fpu sample_libs 0 midnight
    [\<lparr>ds_name = [84], ds_alias = [],
      ds_value = (\<lambda>_. Inr (VUInt8 41)), ds_type = (\<lambda>_. Inr COLUMN_DATA_TYPE_UINT8)\<rparr>]"

definition sample_sum :: Expression where
  "sample_sum = BinaryExpression AddOperator
    (SingleColumnExpression [84] [67] [0] (Some 0)) (ConstantExpression (VInt64 1))"

lemma sample_typed_columns: "typed_columns sample_context"
  by (auto simp: typed_columns_def sample_context_def DBExpressionEvaluationContext_def
      convertColumnDataTypeToVariantType_def split: if_splits)

lemma sample_sum_evaluates:
  "getResultValueType sample_context sample_sum = Inr kInt64 \<and>
   evaluate sample_context sample_sum = Inr (VInt64 42)"
  by code_simp


section \<open>Where the announced type is wrong\<close>

lemma chars_of_bytes_of: "chars_of (bytes_of s) = s"
  by (simp add: chars_of_def bytes_of_def comp_def unat_of_nat)

lemma cast_destinations:
  "CastOperator_type (ConstantExpression (VString (bytes_of ''TEXT''))) = Inr kString"
  "CastOperator_type (ConstantExpression (VString (bytes_of ''UINT32''))) = Inr kUInt32"
  by (simp_all add: CastOperator_type_def CastOperator_columnType_def chars_of_bytes_of
      getColumnDataTypeByName_def kColumnDataTypeNames_def all_column_types_def
      convertColumnDataTypeToVariantType_def)

definition misannounced :: "Context \<Rightarrow> Expression \<Rightarrow> VariantType \<Rightarrow> Variant \<Rightarrow> bool" where
  "misannounced C e t v \<longleftrightarrow> validate C e = Inr () \<and> getResultValueType C e = Inr t \<and> evaluate C e = Inr v \<and>
    v \<noteq> VNull \<and> getValueType v \<noteq> t"

text \<open>Every exception of the soundness theorem is a valid expression of constants whose value has another type than
  announced, in every context: the plus sign on an unsigned 32-bit number, a shift by a 64-bit
  number, \<open>FALSE AND NULL\<close>, and the casts to UINT32 and to TEXT, the latter yielding the Boolean true.\<close>

theorem announced_type_exceptions:
  "misannounced C (UnaryExpression UnaryPlusOperator (ConstantExpression (VUInt32 a))) kInt32 (VUInt32 a) \<and>
   misannounced C (BinaryExpression LeftShiftOperator
     (ConstantExpression (VInt32 1)) (ConstantExpression (VInt64 1))) kInt64 (VInt32 2) \<and>
   misannounced C (BinaryExpression LogicalAndOperator
     (ConstantExpression (VBool False)) (ConstantExpression VNull)) kNull (VBool False) \<and>
   misannounced C (BinaryExpression CastOperator (ConstantExpression (VUInt32 a))
     (ConstantExpression (VString (bytes_of ''UINT32'')))) kUInt32 (VInt32 a) \<and>
   misannounced C (BinaryExpression CastOperator (ConstantExpression (VString s))
     (ConstantExpression (VString (bytes_of ''TEXT'')))) kString (VBool True)"
  (is "?plus \<and> ?shift \<and> ?and \<and> ?uint32 \<and> ?text")
proof (intro conjI)
  show ?plus
    by (simp add: misannounced_def unary_validate_def ArithmeticUnaryOperator_validate_def check_operand_def
        unary_type_def ArithmeticUnaryOperator_type_def type_pred_defs getSignedType_def
        less_eq_VariantType_def type_code_def unary_evaluate_def UnaryPlusOperator_evaluate_def
        variant_copy_def unary_integer(2) width_simps intValue_def make_int_def)
  show ?shift
    by (simp add: misannounced_def binary_validate_def BitwiseBinaryOperator_validate_def check_operand_def
        binary_type_def BitwiseBinaryOperator_type_def type_pred_defs getNumericResultType_def
        less_eq_VariantType_def type_code_def max_def binary_evaluate_def LeftShiftOperator_evaluate_def
        strict_operator_def variant_shl_def Let_def variant_copy_def width_simps intValue_def make_int_def)
  show ?and
    by (simp add: misannounced_def binary_validate_def LogicalBinaryOperator_validate_def check_operand_def
        binary_type_def LogicalBinaryOperator_type_def isBoolType_def isNullType_def binary_evaluate_def
        LogicalAndOperator_evaluate_def variant_copy_def)
  show ?uint32
    by (simp add: misannounced_def binary_type_def cast_destinations binary_evaluate_def
        CastOperator_evaluate_def cast_value_def asInt32_def with_streams_def variant_copy_def Let_def)
  show ?text
    by (simp add: misannounced_def binary_type_def cast_destinations binary_evaluate_def
        CastOperator_evaluate_def cast_pointer_def asStringInternal_def with_streams_def variant_copy_def Let_def)
qed

section \<open>Column types\<close>

text \<open>The expressions without stream constants and without the signs on wide unsigned types, for which the signed
  column type is computed wrongly.\<close>

fun column_plain :: "Context \<Rightarrow> Expression \<Rightarrow> bool" where
  "column_plain C (ConstantExpression v) = (getValueType v \<noteq> kClob \<and> getValueType v \<noteq> kBlob)"
| "column_plain C (ListExpression items) = (if items = [] then True else column_plain C (last items))"
| "column_plain C (UnaryExpression op x) = (column_plain C x \<and> unary_announces op (getResultValueType C x))"
| "column_plain C (BinaryExpression op l r) = (column_plain C l \<and> column_plain C r)"
| "column_plain C _ = True"

lemma convert_simps [simp]:
  "convertColumnDataTypeToVariantType COLUMN_DATA_TYPE_UNKNOWN = Inr kNull"
  "convertColumnDataTypeToVariantType COLUMN_DATA_TYPE_BOOL = Inr kBool"
  "convertColumnDataTypeToVariantType COLUMN_DATA_TYPE_TEXT = Inr kString"
  by (simp_all add: convertColumnDataTypeToVariantType_def)

lemma convert_predicates:
  assumes "convertColumnDataTypeToVariantType c = Inr t"
  shows "cdt_isNumericType c = isNumericType t" and "cdt_isIntegerType c = isIntegerType t"
    and "c = COLUMN_DATA_TYPE_BOOL \<longleftrightarrow> t = kBool" and "c = COLUMN_DATA_TYPE_TEXT \<longleftrightarrow> t = kString"
    and "c \<noteq> COLUMN_DATA_TYPE_NTEXT"
  using assms
  by (cases c; auto simp: convertColumnDataTypeToVariantType_def cdt_isNumericType_def cdt_isIntegerType_def
      type_pred_defs)+

lemma convert_order:
  assumes "convertColumnDataTypeToVariantType c = Inr t" and "isNumericType t"
  shows "column_type_code c + 1 = type_code t"
  using assms
  by (cases c) (auto simp: convertColumnDataTypeToVariantType_def column_type_code_def type_code_def
      isNumericType_def)

lemma convert_max:
  assumes "convertColumnDataTypeToVariantType c = Inr t" and "convertColumnDataTypeToVariantType d = Inr u"
    and "isNumericType t" and "isNumericType u"
  shows "convertColumnDataTypeToVariantType (max c d) = Inr (max t u) \<and> isNumericType (max t u)"
  using assms convert_order [OF assms(1,3)] convert_order [OF assms(2,4)]
  by (auto simp: max_def less_eq_ColumnDataType_def less_eq_VariantType_def)

lemma convert_numeric_result:
  assumes "convertColumnDataTypeToVariantType c = Inr t" and "convertColumnDataTypeToVariantType d = Inr u"
    and "isNumericType t" and "isNumericType u"
  shows "convertColumnDataTypeToVariantType (cdt_getNumericResultType c d) = Inr (getNumericResultType t u)"
  using convert_max [OF assms] convert_max [of "max c d" "max t u" COLUMN_DATA_TYPE_INT32 kInt32]
  by (simp add: cdt_getNumericResultType_def getNumericResultType_def convertColumnDataTypeToVariantType_def
      isNumericType_def)

lemma unary_columns:
  assumes "convertColumnDataTypeToVariantType c = Inr t" and "unary_announces op (Inr t)"
  shows "convertColumnDataTypeToVariantType (unary_columnType op c) = Inr (unary_type op t)"
  using assms
  by (cases op; cases c; simp add: unary_columnType_def unary_type_def unary_announces_def
      convertColumnDataTypeToVariantType_def LogicalUnaryOperator_columnType_def
      LogicalUnaryOperator_type_def ArithmeticUnaryOperator_columnType_def
      ArithmeticUnaryOperator_type_def BitwiseUnaryOperator_columnType_def BitwiseUnaryOperator_type_def
      isBoolType_def cdt_isNumericType_def cdt_isIntegerType_def type_pred_defs cdt_getSignedType_def
      getSignedType_def less_eq_ColumnDataType_def column_type_code_def less_eq_VariantType_def type_code_def;
      (auto simp: convertColumnDataTypeToVariantType_def)?)

lemma binary_columns:
  assumes "convertColumnDataTypeToVariantType c = Inr t" and "convertColumnDataTypeToVariantType d = Inr u"
    and "binary_type op = Some f" and "binary_columnType op = Some g"
  shows "convertColumnDataTypeToVariantType (g c d) = Inr (f t u)"
proof -
  note preds = convert_predicates [OF assms(1)] convert_predicates [OF assms(2)]
  have arith: "convertColumnDataTypeToVariantType (ArithmeticBinaryOperator_columnType c d) =
      Inr (ArithmeticBinaryOperator_type t u)"
    using convert_numeric_result [OF assms(1,2)] preds
    by (simp add: ArithmeticBinaryOperator_columnType_def ArithmeticBinaryOperator_type_def)
  have bits: "convertColumnDataTypeToVariantType (BitwiseBinaryOperator_columnType c d) =
      Inr (BitwiseBinaryOperator_type t u)"
    using convert_numeric_result [OF assms(1,2)] preds integer_numeric
    by (simp add: BitwiseBinaryOperator_columnType_def BitwiseBinaryOperator_type_def)
  have logic: "convertColumnDataTypeToVariantType (LogicalBinaryOperator_columnType c d) =
      Inr (LogicalBinaryOperator_type t u)"
    using preds
    by (simp add: LogicalBinaryOperator_columnType_def LogicalBinaryOperator_type_def)
  have add: "convertColumnDataTypeToVariantType (AddOperator_columnType c d) = Inr (AddOperator_type t u)"
    using assms(1,2) arith preds by (auto simp: AddOperator_columnType_def AddOperator_type_def)
  from assms(3,4) arith bits logic add show ?thesis
    by (cases op) (auto simp: binary_type_def binary_columnType_def)
qed

lemma binary_type_columns: "binary_type op = None \<longleftrightarrow> binary_columnType op = None"
  by (cases op) (simp_all add: binary_type_def binary_columnType_def)

lemma concatenation_columns:
  "ConcatenationOperator_type l r = Inr t \<Longrightarrow> ConcatenationOperator_columnType l r = Inr c \<Longrightarrow>
    convertColumnDataTypeToVariantType c = Inr t"
  by (auto simp: ConcatenationOperator_columnType_def ConcatenationOperator_type_def split: if_splits)

lemma binary_expression_columns:
  assumes "\<And>t c. getResultValueType C l = Inr t \<Longrightarrow> getColumnDataType C l = Inr c \<Longrightarrow>
      convertColumnDataTypeToVariantType c = Inr t"
    and "\<And>t c. getResultValueType C r = Inr t \<Longrightarrow> getColumnDataType C r = Inr c \<Longrightarrow>
      convertColumnDataTypeToVariantType c = Inr t"
    and "getResultValueType C (BinaryExpression op l r) = Inr t"
    and "getColumnDataType C (BinaryExpression op l r) = Inr c"
  shows "convertColumnDataTypeToVariantType c = Inr t"
proof (cases "binary_type op")
  case (Some f)
  with binary_type_columns [of op] obtain g where g: "binary_columnType op = Some g"
    by (cases "binary_columnType op") auto
  from Some assms(3) obtain a b where v: "getResultValueType C l = Inr a" "getResultValueType C r = Inr b" "t = f a b"
    by auto
  from g assms(4) obtain x y where c: "getColumnDataType C l = Inr x" "getColumnDataType C r = Inr y" "c = g x y"
    by auto
  from binary_columns [OF assms(1) [OF v(1) c(1)] assms(2) [OF v(2) c(2)] Some g] v c show ?thesis
    by simp
next
  case None
  with binary_type_columns [of op] have "binary_columnType op = None" by simp
  with None assms(3,4) concatenation_columns show ?thesis
    by (auto simp: CastOperator_type_def split: if_splits)
qed

lemma column_types_agree:
  assumes "column_plain C e" and "getResultValueType C e = Inr t" and "getColumnDataType C e = Inr c"
  shows "convertColumnDataTypeToVariantType c = Inr t"
  using assms
proof (induction e arbitrary: t c)
  case (ConstantExpression v)
  then show ?case
    by (cases v) (auto simp: convertVariantTypeToColumnDataType_def convertColumnDataTypeToVariantType_def)
next
  case (ListExpression items)
  show ?case
  proof (cases "items = []")
    case False
    with ListExpression.prems ListExpression.IH [OF last_in_set [OF False]] show ?thesis by simp
  qed (use ListExpression.prems in auto)
next
  case (UnaryExpression op x)
  then show ?case by (auto intro: unary_columns)
next
  case (BinaryExpression op l r)
  from BinaryExpression.prems(1) have "column_plain C l" and "column_plain C r" by simp_all
  from BinaryExpression.IH(1) [OF this(1)] BinaryExpression.IH(2) [OF this(2)] BinaryExpression.prems(2,3)
  show ?case by (rule binary_expression_columns)
qed auto



text \<open>The sign on an unsigned 32-bit number announces a 16-bit column for a 32-bit value.\<close>

lemma signed_column_type_wrong:
  "getColumnDataType C (UnaryExpression UnaryMinusOperator (ConstantExpression (VUInt32 a))) =
    Inr COLUMN_DATA_TYPE_INT16"
  by (simp add: convertVariantTypeToColumnDataType_def unary_columnType_def
      ArithmeticUnaryOperator_columnType_def cdt_isNumericType_def cdt_getSignedType_def
      less_eq_ColumnDataType_def column_type_code_def)

end
