(* ===== verification/ExprLogic.thy ===== *)
theory ExprLogic
  imports ExprTypes
begin

text \<open>
  What the logical operators and the comparisons of expressions compute: three-valued logic up to the
  order of evaluation, range and membership tests on integers, and the treatment of null.
\<close>

section \<open>Three-valued logic\<close>

definition truth :: "bool option \<Rightarrow> Variant" where
  "truth a = (case a of None \<Rightarrow> VNull | Some b \<Rightarrow> VBool b)"

definition kleene_and :: "bool option \<Rightarrow> bool option \<Rightarrow> bool option" where
  "kleene_and a b =
    (if a = Some False \<or> b = Some False then Some False
     else if a = None \<or> b = None then None else Some True)"

definition kleene_or :: "bool option \<Rightarrow> bool option \<Rightarrow> bool option" where
  "kleene_or a b =
    (if a = Some True \<or> b = Some True then Some True
     else if a = None \<or> b = None then None else Some False)"

abbreviation And :: "Expression \<Rightarrow> Expression \<Rightarrow> Expression" where
  "And \<equiv> BinaryExpression LogicalAndOperator"

abbreviation Or :: "Expression \<Rightarrow> Expression \<Rightarrow> Expression" where
  "Or \<equiv> BinaryExpression LogicalOrOperator"

abbreviation Not :: "Expression \<Rightarrow> Expression" where
  "Not \<equiv> UnaryExpression LogicalNotOperator"

lemmas logical_defs =
  binary_evaluate_def unary_evaluate_def LogicalAndOperator_evaluate_def LogicalOrOperator_evaluate_def
  LogicalNotOperator_evaluate_def

text \<open>C34: The logical operators.  A left operand that decides, or that is null, is the result, and the right operand is
  not evaluated, whatever it would raise; otherwise the result is that of three-valued logic.  So
  null on the left hides a deciding right operand.\<close>

theorem logical_operators_three_valued:
  assumes "evaluate C l = Inr (truth a)"
  shows "(a \<noteq> Some True \<longrightarrow> evaluate C (And l r) = Inr (truth a)) \<and>
    (a \<noteq> Some False \<longrightarrow> evaluate C (Or l r) = Inr (truth a)) \<and>
    (\<forall>b. a \<noteq> None \<longrightarrow> evaluate C r = Inr (truth b) \<longrightarrow>
      evaluate C (And l r) = Inr (truth (kleene_and a b)) \<and>
      evaluate C (Or l r) = Inr (truth (kleene_or a b)))"
  using assms
  by (auto simp: logical_defs truth_def kleene_and_def kleene_or_def split: option.splits)

theorem logical_operators_three_valued_witness:
  "evaluate sample_context (And (ConstantExpression (VBool False)) (AllColumnsExpression [] [])) =
    Inr (VBool False)"
  using logical_operators_three_valued [of sample_context "ConstantExpression (VBool False)" "Some False"
      "AllColumnsExpression [] []"]
  by (simp add: truth_def variant_copy_def)

text \<open>The laws of De Morgan hold for all operands, with null and with exceptions.\<close>

theorem logical_operators_de_morgan:
  "evaluate C (Not (And l r)) = evaluate C (Or (Not l) (Not r)) \<and>
   evaluate C (Not (Or l r)) = evaluate C (And (Not l) (Not r))"
proof -
  have one: "LogicalNotOperator_evaluate (LogicalAndOperator_evaluate (Inr v) x) =
        LogicalOrOperator_evaluate (LogicalNotOperator_evaluate (Inr v)) (LogicalNotOperator_evaluate x) \<and>
      LogicalNotOperator_evaluate (LogicalOrOperator_evaluate (Inr v) x) =
        LogicalAndOperator_evaluate (LogicalNotOperator_evaluate (Inr v)) (LogicalNotOperator_evaluate x)"
    for v and x :: "engine_error + Variant"
  proof (cases x)
    case (Inr w)
    then show ?thesis by (cases v; cases w) (simp_all add: logical_defs)
  qed (cases v; simp add: logical_defs)
  then show ?thesis
    by (cases "evaluate C l") (simp_all add: binary_evaluate_def unary_evaluate_def, simp add: logical_defs)
qed

section \<open>Comparisons of integers\<close>



lemma find_if_total:
  assumes "\<forall>x \<in> set xs. f x = Inr (g x)"
  shows "find_if f xs = Inr (\<exists>x \<in> set xs. g x)"
  using assms by (induction xs) auto

text \<open>The membership test on integers: the value is found if some variant that is not null denotes its number,
  provided every variant is null or an integer that no cast changes.\<close>

theorem in_integers:
  assumes "evaluate C x = Inr v" and "isIntegerType (getValueType v)"
    and "\<forall>e \<in> set variants. evaluate C e = Inr (val e) \<and> (val e = VNull \<or>
      isIntegerType (getValueType (val e)) \<and> casts_harmless (val e) v)"
  shows "evaluate C (InOperator x variants notIn) =
    Inr (VBool ((\<exists>e \<in> set variants. val e \<noteq> VNull \<and> intValue (val e) = intValue v) \<noteq> notIn))"
proof -
  have "find_if (\<lambda>e. chain (evaluate C e) (\<lambda>w.
      if isNull w then Inr False else raised (compatibleEqual (ctx_fpu C) (ctx_libs C) False w v))) variants =
    Inr (\<exists>e \<in> set variants. val e \<noteq> VNull \<and> intValue (val e) = intValue v)"
    using assms(2,3) by (intro find_if_total) (auto simp: integers_compare)
  moreover have "v \<noteq> VNull" using assms(2) by (auto simp: isIntegerType_def)
  ultimately show ?thesis using assms(1) by simp metis
qed

theorem in_integers_witness:
  "evaluate sample_context (InOperator sample_sum [ConstantExpression VNull, ConstantExpression (VUInt8 42)] True) =
    Inr (VBool False)"
proof -
  let ?val = "\<lambda>e. case e of ConstantExpression w \<Rightarrow> w | _ \<Rightarrow> VNull"
  show ?thesis
    using in_integers [of sample_context sample_sum "VInt64 42"
        "[ConstantExpression VNull, ConstantExpression (VUInt8 42)]" ?val True] sample_sum_evaluates
    by (simp add: variant_copy_def isIntegerType_def casts_harmless_def isSignedType_def intValue_def)
qed

section \<open>Null\<close>

text \<open>Equality with null on the right raises an exception, for every value on the left, while null on the left, and
  inequality on either side, give false.\<close>

theorem equality_with_null:
  assumes "evaluate C l = Inr v" and "v \<noteq> VNull" and "evaluate C r = Inr VNull"
  shows "(\<exists>e. evaluate C (BinaryExpression EqualOperator l r) = Inl e) \<and>
    evaluate C (BinaryExpression EqualOperator r l) = Inr (VBool False) \<and>
    evaluate C (BinaryExpression NotEqualOperator l r) = Inr (VBool False) \<and>
    evaluate C (BinaryExpression NotEqualOperator r l) = Inr (VBool False)"
proof -
  have "\<exists>e. compatibleEqual F L False v VNull = Inl e" for F L
    using assms(2)
    by (cases v) (simp_all add: compatibleEqual_def compatible_defs compat_rows_def compat_integer_def
        compat_floating_def compat_other_def type_pred_defs Let_def)
  then obtain e where "compatibleEqual (ctx_fpu C) (ctx_libs C) False v VNull = Inl e" by blast
  moreover have "compatibleEqual (ctx_fpu C) (ctx_libs C) False VNull v = Inr False"
    by (simp add: compatibleEqual_def)
  ultimately show ?thesis using assms
    by (simp add: binary_evaluate_def EqualOperator_evaluate_def NotEqualOperator_evaluate_def)
qed

theorem equality_with_null_witness:
  "\<exists>e. evaluate sample_context (BinaryExpression EqualOperator (ConstantExpression (VInt32 1)) (ConstantExpression VNull)) =
    Inl e"
  using equality_with_null [of sample_context "ConstantExpression (VInt32 1)" "VInt32 1" "ConstantExpression VNull"]
  by (simp add: variant_copy_def)

section \<open>Copies\<close>

fun column_free :: "Expression \<Rightarrow> bool" where
  "column_free (ConstantExpression v) = True"
| "column_free (SingleColumnExpression _ _ _ _) = False"
| "column_free (AllColumnsExpression _ _) = False"
| "column_free (ListExpression items) = (\<forall>x \<in> set items. column_free x)"
| "column_free (UnaryExpression op x) = column_free x"
| "column_free (BinaryExpression op l r) = (column_free l \<and> column_free r)"
| "column_free (IsOperator l r b) = (column_free l \<and> column_free r)"
| "column_free (LikeOperator l r b) = (column_free l \<and> column_free r)"
| "column_free (BetweenOperator l m r b) = (column_free l \<and> column_free m \<and> column_free r)"
| "column_free (InOperator x variants b) = (column_free x \<and> (\<forall>e \<in> set variants. column_free e))"

lemma last_value_map: "\<forall>x \<in> set xs. f (g x) = f x \<Longrightarrow> last_value f v (map g xs) = last_value f v xs"
  by (induction xs arbitrary: v) simp_all

lemma find_if_map: "\<forall>x \<in> set xs. f (g x) = f x \<Longrightarrow> find_if f (map g xs) = find_if f xs"
  by (induction xs) (simp_all cong: if_cong)

lemma copy_copy [simp]: "variant_copy a (variant_copy b v) = variant_copy a v"
  by (cases v) (simp_all add: variant_copy_def)

lemma clone_destination: "column_free r \<Longrightarrow> CastOperator_type (expr_clone addr r) = CastOperator_type r"
proof (cases r)
  case (ConstantExpression v)
  then show ?thesis by (cases v) (simp_all add: CastOperator_type_def CastOperator_columnType_def variant_copy_def)
qed (simp_all add: CastOperator_type_def CastOperator_columnType_def)

lemma clone_evaluates: "column_free e \<Longrightarrow> evaluate C (expr_clone addr e) = evaluate C e"
proof (induction e)
  case (ListExpression items)
  then show ?case by (simp add: last_value_map)
next
  case (InOperator x variants b)
  then show ?case by (simp add: find_if_map cong: if_cong)
qed (simp_all add: clone_destination)

lemma all_equal_map: "\<forall>x \<in> set xs. eq x (g x) \<Longrightarrow> all_equal eq xs (map g xs)"
  by (induction xs) simp_all

text \<open>The constants that equal their own copy: no streams, and numbers the floating-point unit finds equal to
  themselves.\<close>

fun constants_comparable :: "FPU \<Rightarrow> Expression \<Rightarrow> bool" where
  "constants_comparable F (ConstantExpression v) =
    (case v of VFloat a \<Rightarrow> f32_rel F CmpEq a a | VDouble a \<Rightarrow> f64_rel F CmpEq a a
     | VClob _ \<Rightarrow> False | VBlob _ \<Rightarrow> False | _ \<Rightarrow> True)"
| "constants_comparable F (ListExpression items) = (\<forall>x \<in> set items. constants_comparable F x)"
| "constants_comparable F (UnaryExpression op x) = constants_comparable F x"
| "constants_comparable F (BinaryExpression op l r) = (constants_comparable F l \<and> constants_comparable F r)"
| "constants_comparable F (IsOperator l r b) = (constants_comparable F l \<and> constants_comparable F r)"
| "constants_comparable F (LikeOperator l r b) = (constants_comparable F l \<and> constants_comparable F r)"
| "constants_comparable F (BetweenOperator l m r b) =
    (constants_comparable F l \<and> constants_comparable F m \<and> constants_comparable F r)"
| "constants_comparable F (InOperator x variants b) =
    (constants_comparable F x \<and> (\<forall>e \<in> set variants. constants_comparable F e))"
| "constants_comparable F _ = True"

lemma clone_equal: "constants_comparable F e \<Longrightarrow> expr_eq F e (expr_clone addr e)"
proof (induction e)
  case (ConstantExpression v)
  then show ?case
    by (cases v) (simp_all add: variant_eq_def payload_rel_def variant_copy_def int_rel_def string_rel_def
        buffer_rel_def buffer_eq_def)
qed (simp_all add: all_equal_map)

text \<open>A copy of an expression equals it, and without references to columns has the same value in every context; a
  reference to a column is copied without its binding, so the copy of a valid reference is refused.\<close>

theorem expression_clone:
  "(constants_comparable F e \<longrightarrow> expr_eq F e (expr_clone addr e)) \<and>
   (column_free e \<longrightarrow> evaluate C (expr_clone addr e) = evaluate C e) \<and>
   validate C (SingleColumnExpression tn cn [table] (Some column)) = Inr () \<and>
   validate C (expr_clone addr (SingleColumnExpression tn cn [table] (Some column))) = Inl RuntimeError"
  by (simp add: clone_equal clone_evaluates checkHasTableAndColumnIndices_def)

theorem expression_clone_witness:
  "expr_eq sample_fpu (Not (ConstantExpression (VBool True))) (expr_clone 7 (Not (ConstantExpression (VBool True)))) \<and>
   evaluate sample_context (expr_clone 7 (Not (ConstantExpression (VBool True)))) = Inr (VBool False)"
  using expression_clone [of sample_fpu "Not (ConstantExpression (VBool True))" 7 sample_context "[]" "[]" 0 0]
  by (simp add: logical_defs variant_copy_def)

end
