(* ===== verification/ExprSerial.thy ===== *)
theory ExprSerial
  imports ExprTypes
begin

text \<open>
  The serialized form of expressions: the \<open>getSerializedSize\<close> and \<open>serializeUnchecked\<close> functions of the
  expression classes and \<open>Expression::deserialize\<close> (\<open>Expression.cpp\<close>), as they store the
  expressions of constraints and default values.
\<close>

section \<open>Writing\<close>

definition getExpressionTypeSerializedSize :: "nat \<Rightarrow> nat" where
  "getExpressionTypeSerializedSize expressionType = getVarUInt32Size (of_nat expressionType)"

definition serializeExpressionTypeUnchecked :: "nat \<Rightarrow> bytes" where
  "serializeExpressionTypeUnchecked expressionType = encodeVarUInt32 (of_nat expressionType)"

definition flag_byte :: "bool \<Rightarrow> bytes" where
  "flag_byte b = [if b then 1 else 0]"

fun expr_getSerializedSize :: "Expression \<Rightarrow> nat" where
  "expr_getSerializedSize (ConstantExpression v) =
    getExpressionTypeSerializedSize 0 + variant_getSerializedSize v"
| "expr_getSerializedSize (SingleColumnExpression tableName columnName _ _) =
    getExpressionTypeSerializedSize 1 + getSerializedSize_string tableName + getSerializedSize_string columnName"
| "expr_getSerializedSize (AllColumnsExpression tableName _) =
    getExpressionTypeSerializedSize 2 + getSerializedSize_string tableName"
| "expr_getSerializedSize (ListExpression items) =
    getExpressionTypeSerializedSize 3 + getVarUInt64Size (of_nat (length items)) +
    sum_list (map expr_getSerializedSize items)"
| "expr_getSerializedSize (UnaryExpression op x) =
    getExpressionTypeSerializedSize (unary_code op) + expr_getSerializedSize x"
| "expr_getSerializedSize (BinaryExpression op l r) =
    getExpressionTypeSerializedSize (binary_code op) + expr_getSerializedSize l + expr_getSerializedSize r"
| "expr_getSerializedSize (IsOperator l r _) =
    getExpressionTypeSerializedSize 35 + expr_getSerializedSize l + expr_getSerializedSize r + 1"
| "expr_getSerializedSize (LikeOperator l r _) =
    getExpressionTypeSerializedSize 37 + expr_getSerializedSize l + expr_getSerializedSize r + 1"
| "expr_getSerializedSize (BetweenOperator l m r _) =
    getExpressionTypeSerializedSize 36 + expr_getSerializedSize l + expr_getSerializedSize m +
    expr_getSerializedSize r + 1"
| "expr_getSerializedSize (InOperator x variants _) =
    getExpressionTypeSerializedSize 34 + expr_getSerializedSize x +
    getVarUInt64Size (of_nat (length variants)) + 1 + sum_list (map expr_getSerializedSize variants)"

text \<open>The bytes of a sequence of expressions; the first exception ends the loop.\<close>

fun all_bytes :: "('a \<Rightarrow> 'e + bytes) \<Rightarrow> 'a list \<Rightarrow> 'e + bytes" where
  "all_bytes f [] = Inr []"
| "all_bytes f (x # xs) = chain (f x) (\<lambda>bs. chain (all_bytes f xs) (\<lambda>cs. Inr (bs @ cs)))"

lemma all_bytes_cong [fundef_cong]:
  assumes "xs = ys" and "\<And>x. x \<in> set ys \<Longrightarrow> f x = g x"
  shows "all_bytes f xs = all_bytes g ys"
proof -
  from assms(2) have "\<forall>x \<in> set ys. f x = g x" by blast
  then show ?thesis unfolding assms(1) by (induction ys) simp_all
qed

fun expr_serializeUnchecked :: "Expression \<Rightarrow> engine_error + bytes" where
  "expr_serializeUnchecked (ConstantExpression v) =
    chain (raised (fst (variant_serializeUnchecked v))) (\<lambda>bs. Inr (serializeExpressionTypeUnchecked 0 @ bs))"
| "expr_serializeUnchecked (SingleColumnExpression tableName columnName _ _) =
    Inr (serializeExpressionTypeUnchecked 1 @ serializeUnchecked_string tableName @
      serializeUnchecked_string columnName)"
| "expr_serializeUnchecked (AllColumnsExpression tableName _) =
    Inr (serializeExpressionTypeUnchecked 2 @ serializeUnchecked_string tableName)"
| "expr_serializeUnchecked (ListExpression items) =
    chain (all_bytes expr_serializeUnchecked items) (\<lambda>bs.
      Inr (serializeExpressionTypeUnchecked 3 @ encodeVarUInt64 (of_nat (length items)) @ bs))"
| "expr_serializeUnchecked (UnaryExpression op x) =
    chain (expr_serializeUnchecked x) (\<lambda>bs. Inr (serializeExpressionTypeUnchecked (unary_code op) @ bs))"
| "expr_serializeUnchecked (BinaryExpression op l r) =
    chain (expr_serializeUnchecked l) (\<lambda>bs. chain (expr_serializeUnchecked r) (\<lambda>cs.
      Inr (serializeExpressionTypeUnchecked (binary_code op) @ bs @ cs)))"
| "expr_serializeUnchecked (IsOperator l r isNot) =
    chain (expr_serializeUnchecked l) (\<lambda>bs. chain (expr_serializeUnchecked r) (\<lambda>cs.
      Inr (serializeExpressionTypeUnchecked 35 @ bs @ cs @ flag_byte isNot)))"
| "expr_serializeUnchecked (LikeOperator l r notLike) =
    chain (expr_serializeUnchecked l) (\<lambda>bs. chain (expr_serializeUnchecked r) (\<lambda>cs.
      Inr (serializeExpressionTypeUnchecked 37 @ bs @ cs @ flag_byte notLike)))"
| "expr_serializeUnchecked (BetweenOperator l m r notBetween) =
    chain (expr_serializeUnchecked l) (\<lambda>bs. chain (expr_serializeUnchecked m) (\<lambda>cs.
    chain (expr_serializeUnchecked r) (\<lambda>ds.
      Inr (serializeExpressionTypeUnchecked 36 @ bs @ cs @ ds @ flag_byte notBetween))))"
| "expr_serializeUnchecked (InOperator x variants notIn) =
    chain (expr_serializeUnchecked x) (\<lambda>bs. chain (all_bytes expr_serializeUnchecked variants) (\<lambda>cs.
      Inr (serializeExpressionTypeUnchecked 34 @ bs @ encodeVarUInt64 (of_nat (length variants)) @ cs @
        flag_byte notIn)))"

section \<open>Reading\<close>

text \<open>A reader takes the rest of the buffer and tells the number of bytes it used.  A value may report one byte more
  than there is, since it is read past the end; what follows it is then read with a wrapped length,
  outside the buffer.\<close>

type_synonym 'a reader = "bytes \<Rightarrow> engine_error + ('a \<times> nat)"

definition r_bind :: "'a reader \<Rightarrow> ('a \<Rightarrow> 'b reader) \<Rightarrow> 'b reader" where
  "r_bind p q buf = chain (p buf) (\<lambda>(x, n).
    if n > length buf then Inl (VariantError UndefinedBehaviour)
    else chain (q x (drop n buf)) (\<lambda>(y, m). Inr (y, n + m)))"

definition r_map :: "('a \<Rightarrow> 'b) \<Rightarrow> 'a reader \<Rightarrow> 'b reader" where
  "r_map f p buf = chain (p buf) (\<lambda>(x, n). Inr (f x, n))"

fun r_items :: "'a reader \<Rightarrow> nat \<Rightarrow> 'a list reader" where
  "r_items p 0 = (\<lambda>buf. Inr ([], 0))"
| "r_items p (Suc k) =
    (if k = 0 then r_map (\<lambda>x. [x]) p else r_bind p (\<lambda>x. r_map (\<lambda>xs. x # xs) (r_items p k)))"

definition read_type :: "nat reader" where
  "read_type buf = (case decodeVarUInt32 buf of
      DecOk consumedForType expressionType \<Rightarrow>
        if unat expressionType \<ge> kExpressionTypeMax then Inl RuntimeError
        else Inr (unat expressionType, consumedForType)
    | DecOverrun \<Rightarrow> Inl (VariantError UndefinedBehaviour)
    | _ \<Rightarrow> Inl RuntimeError)"

text \<open>A count, for which space is reserved at once: \<open>std::vector\<close> holds at most \<open>2\<^sup>60 - 1\<close> pointers.\<close>

definition kMaxVectorSize :: nat where "kMaxVectorSize = 2 ^ 60 - 1"

definition read_count :: "nat reader" where
  "read_count buf = (case decodeVarUInt64 buf of
      DecOk consumed1 itemCount \<Rightarrow>
        if unat itemCount > kMaxVectorSize then Inl StdLengthError else Inr (unat itemCount, consumed1)
    | DecOverrun \<Rightarrow> Inl (VariantError UndefinedBehaviour)
    | _ \<Rightarrow> Inl (VariantError VariantDeserializationError))"

definition read_string :: "bytes reader" where
  "read_string buf = (case deserializeObject_string buf of
      Inl e \<Rightarrow> Inl (VariantError (ObjectDeserializationError e)) | Inr r \<Rightarrow> Inr r)"

definition read_flag :: "bool reader" where
  "read_flag buf = (case buf of
      [] \<Rightarrow> Inl (VariantError VariantDeserializationError)
    | b # _ \<Rightarrow> if b > 1 then Inl (VariantError VariantDeserializationError) else Inr (b = 1, 1))"

text \<open>The contents of uninitialised memory, the address of new objects and the byte after the buffer.\<close>

record Memory =
  mem_init :: RawDateTime
  mem_addr :: nat
  mem_over :: uint8

definition read_constant :: "Memory \<Rightarrow> Expression reader" where
  "read_constant M =
    r_map ConstantExpression (\<lambda>buf. raised (variant_deserialize (mem_init M) (mem_addr M) (mem_over M) buf))"

definition unary_of_code :: "nat \<Rightarrow> UnaryOp option" where
  "unary_of_code t = map_of (map (\<lambda>op. (unary_code op, op))
    [LogicalNotOperator, UnaryMinusOperator, UnaryPlusOperator, ComplementOperator]) t"

definition binary_of_code :: "nat \<Rightarrow> BinaryOp option" where
  "binary_of_code t = map_of (map (\<lambda>op. (binary_code op, op))
    [LogicalAndOperator, LogicalOrOperator, LessOperator, LessOrEqualOperator, EqualOperator,
     NotEqualOperator, GreaterOrEqualOperator, GreaterOperator, AddOperator, SubtractOperator,
     DivideOperator, MultiplyOperator, ModuloOperator, BitwiseOrOperator, BitwiseAndOperator,
     BitwiseXorOperator, RightShiftOperator, LeftShiftOperator, ConcatenationOperator, CastOperator]) t"

text \<open>The constructor of a cast is \<open>noexcept\<close> and refuses a destination that is no constant string with an exception,
  which ends the process.\<close>

definition is_type_name :: "Expression \<Rightarrow> bool" where
  "is_type_name r = (case r of ConstantExpression (VString _) \<Rightarrow> True | _ \<Rightarrow> False)"

definition makeBinary :: "BinaryOp \<Rightarrow> Expression \<Rightarrow> Expression \<times> nat \<Rightarrow> engine_error + (Expression \<times> nat)" where
  "makeBinary op l rn = (case rn of (r, n) \<Rightarrow>
    if op = CastOperator \<and> \<not> is_type_name r then Inl Terminated
    else Inr (BinaryExpression op l r, n))"

definition deserializeUnaryExpression :: "Expression reader \<Rightarrow> UnaryOp \<Rightarrow> Expression reader" where
  "deserializeUnaryExpression rec op = r_map (UnaryExpression op) rec"

definition deserializeBinaryExpression :: "Expression reader \<Rightarrow> BinaryOp \<Rightarrow> Expression reader" where
  "deserializeBinaryExpression rec op = r_bind rec (\<lambda>l buf. chain (rec buf) (makeBinary op l))"

definition deserialize_rest :: "Memory \<Rightarrow> Expression reader \<Rightarrow> nat \<Rightarrow> Expression reader" where
  "deserialize_rest M rec expressionType =
    (if expressionType = 0 then read_constant M
     else if expressionType = 1 then
       r_bind read_string (\<lambda>tableName.
       r_map (\<lambda>columnName. SingleColumnExpression tableName columnName [] None) read_string)
     else if expressionType = 2 then r_map (\<lambda>tableName. AllColumnsExpression tableName []) read_string
     else if expressionType = 3 then r_bind read_count (\<lambda>n. r_map ListExpression (r_items rec n))
     else if expressionType = 34 then
       r_bind rec (\<lambda>x. r_bind read_count (\<lambda>n. r_bind (r_items rec n) (\<lambda>variants.
       r_map (InOperator x variants) read_flag)))
     else if expressionType = 35 then
       r_bind rec (\<lambda>l. r_bind rec (\<lambda>r. r_map (IsOperator l r) read_flag))
     else if expressionType = 36 then
       r_bind rec (\<lambda>l. r_bind rec (\<lambda>m. r_bind rec (\<lambda>r. r_map (BetweenOperator l m r) read_flag)))
     else if expressionType = 37 then
       r_bind rec (\<lambda>l. r_bind rec (\<lambda>r. r_map (LikeOperator l r) read_flag))
     else case unary_of_code expressionType of
       Some op \<Rightarrow> deserializeUnaryExpression rec op
     | None \<Rightarrow>
        (case binary_of_code expressionType of
           Some op \<Rightarrow> deserializeBinaryExpression rec op
         | None \<Rightarrow> (\<lambda>_. Inl RuntimeError)))"

text \<open>The recursion is bounded by the number of levels; every level reads at least one byte, so a buffer is read with
  as many levels as it has bytes.\<close>

fun deserialize_levels :: "nat \<Rightarrow> Memory \<Rightarrow> Expression reader" where
  "deserialize_levels 0 M = (\<lambda>buf. Inl OutOfFuel)"
| "deserialize_levels (Suc k) M = r_bind read_type (deserialize_rest M (deserialize_levels k M))"

declare deserialize_levels.simps(2) [simp del]

definition expr_deserialize :: "Memory \<Rightarrow> Expression reader" where
  "expr_deserialize M buf = deserialize_levels (Suc (length buf)) M buf"

lemma expr_deserialize_unfold:
  "expr_deserialize M buf = r_bind read_type (deserialize_rest M (deserialize_levels (length buf) M)) buf"
  by (simp add: expr_deserialize_def deserialize_levels.simps(2))

section \<open>Termination\<close>

text \<open>Two readers that agree on the short buffers and do not run out of levels there.\<close>

definition settled :: "nat \<Rightarrow> 'a reader \<Rightarrow> 'a reader \<Rightarrow> bool" where
  "settled n p q \<longleftrightarrow> (\<forall>buf. length buf < n \<longrightarrow> p buf = q buf \<and> p buf \<noteq> Inl OutOfFuel)"

lemma settledI: "(\<And>buf. length buf < n \<Longrightarrow> p buf = q buf \<and> p buf \<noteq> Inl OutOfFuel) \<Longrightarrow> settled n p q"
  unfolding settled_def by blast

lemma settledD: "settled n p q \<Longrightarrow> length buf < n \<Longrightarrow> p buf = q buf \<and> p buf \<noteq> Inl OutOfFuel"
  unfolding settled_def by blast

named_theorems settled_intros

lemma settled_bind [settled_intros]:
  assumes "settled n p p'" and "\<And>x. settled n (q x) (q' x)"
  shows "settled n (r_bind p q) (r_bind p' q')"
proof (rule settledI)
  fix buf :: bytes
  assume len: "length buf < n"
  have "q x (drop m buf) = q' x (drop m buf) \<and> q x (drop m buf) \<noteq> Inl OutOfFuel" for x m
    by (rule settledD [OF assms(2)]) (use len in simp)
  note rest = this
  from settledD [OF assms(1) len] have p: "p' buf = p buf" "p buf \<noteq> Inl OutOfFuel" by metis+
  show "r_bind p q buf = r_bind p' q' buf \<and> r_bind p q buf \<noteq> Inl OutOfFuel"
  proof (cases "p buf")
    case (Inl e)
    with p show ?thesis by (simp add: r_bind_def)
  next
    case (Inr r)
    obtain x m where "r = (x, m)" by (cases r)
    with Inr p rest [of x m] show ?thesis by (auto simp: r_bind_def chain_eq_Inl)
  qed
qed

lemma settled_map [settled_intros]: "settled n p p' \<Longrightarrow> settled n (r_map f p) (r_map f p')"
  by (auto simp: settled_def r_map_def chain_eq_Inl)

lemma settled_items [settled_intros]: "settled n p p' \<Longrightarrow> settled n (r_items p k) (r_items p' k)"
proof (induction k)
  case (Suc k)
  then show ?case by (auto intro!: settled_intros)
qed (simp add: settled_def)

lemma settled_basic [settled_intros]:
  "settled n read_count read_count" "settled n read_string read_string" "settled n read_flag read_flag"
  "settled n (read_constant M) (read_constant M)" "settled n (\<lambda>_. Inl RuntimeError) (\<lambda>_. Inl RuntimeError)"
  by (auto simp: settled_def read_count_def read_string_def read_flag_def read_constant_def r_map_def
      chain_eq_Inl raised_def split: decode_result.splits sum.splits list.splits)

lemma settled_unary [settled_intros]:
  "settled n p p' \<Longrightarrow> settled n (deserializeUnaryExpression p op) (deserializeUnaryExpression p' op)"
  unfolding deserializeUnaryExpression_def by (intro settled_intros)

lemma settled_binary [settled_intros]:
  assumes "settled n p p'"
  shows "settled n (deserializeBinaryExpression p op) (deserializeBinaryExpression p' op)"
proof -
  have "settled n (\<lambda>buf. chain (p buf) (makeBinary op l)) (\<lambda>buf. chain (p' buf) (makeBinary op l))" for l
    using assms by (auto simp: settled_def chain_eq_Inl makeBinary_def split: if_splits)
  with assms show ?thesis unfolding deserializeBinaryExpression_def by (intro settled_intros)
qed

lemma settled_rest:
  assumes "settled n p p'"
  shows "settled n (deserialize_rest M p t) (deserialize_rest M p' t)"
  unfolding deserialize_rest_def
  using assms by (simp split: option.split) (intro conjI impI allI settled_intros; assumption?)

lemma read_type_pos: "read_type buf = Inr (t, n) \<Longrightarrow> 0 < n"
  by (auto simp: read_type_def decodeVarUInt32_vi vi_decode_def Let_def split: decode_result.splits if_splits)

lemma settled_levels: "settled k (deserialize_levels k M) (deserialize_levels (Suc k) M)"
proof (induction k)
  case (Suc k)
  have "settled (Suc k) (r_bind read_type (deserialize_rest M (deserialize_levels k M)))
      (r_bind read_type (deserialize_rest M (deserialize_levels (Suc k) M)))"
    (is "settled _ (r_bind _ ?p) (r_bind _ ?q)")
  proof (rule settledI)
    fix buf :: bytes
    assume len: "length buf < Suc k"
    show "r_bind read_type ?p buf = r_bind read_type ?q buf \<and> r_bind read_type ?p buf \<noteq> Inl OutOfFuel"
    proof (cases "read_type buf")
      case (Inl e)
      then show ?thesis by (auto simp: r_bind_def read_type_def split: decode_result.splits if_splits)
    next
      case (Inr r)
      obtain t n where r: "read_type buf = Inr (t, n)" using Inr by (cases r) simp
      have "?p t (drop n buf) = ?q t (drop n buf) \<and> ?p t (drop n buf) \<noteq> Inl OutOfFuel" if "n \<le> length buf"
        using read_type_pos [OF r] that len by (intro settledD [OF settled_rest [OF Suc.IH]]) auto
      with r show ?thesis by (auto simp: r_bind_def chain_eq_Inl not_less)
    qed
  qed
  then show ?case by (simp only: deserialize_levels.simps)
qed (simp add: settled_def)

lemma levels_enough:
  assumes "length buf < k"
  shows "deserialize_levels k M buf = expr_deserialize M buf"
proof -
  from assms have "Suc (length buf) \<le> k" by simp
  then show ?thesis
  proof (induction k rule: dec_induct)
    case (step k)
    with settledD [OF settled_levels [of k M], of buf] show ?case by simp
  qed (simp add: expr_deserialize_def)
qed

text \<open>C18: Reading an expression ends on every buffer, with a nesting of at most as many levels as there are bytes: more
  levels do not change the outcome, and the bound is never met.\<close>

theorem expression_deserialize_terminates:
  assumes "length buf < k"
  shows "deserialize_levels k M buf = expr_deserialize M buf \<and> expr_deserialize M buf \<noteq> Inl OutOfFuel"
  using levels_enough [OF assms] settledD [OF settled_levels [of "Suc (length buf)" M] lessI]
  unfolding expr_deserialize_def by blast

theorem expression_deserialize_terminates_witness:
  "deserialize_levels 9 \<lparr>mem_init = midnight, mem_addr = 0, mem_over = 0\<rparr> [5, 5] =
    expr_deserialize \<lparr>mem_init = midnight, mem_addr = 0, mem_over = 0\<rparr> [5, 5]"
  using expression_deserialize_terminates [of "[5, 5]" 9 "\<lparr>mem_init = midnight, mem_addr = 0, mem_over = 0\<rparr>"]
  by simp

section \<open>Round trip\<close>

text \<open>The expressions that are read back: their constants are, and their sizes fit the format.\<close>

fun expr_serializable :: "Expression \<Rightarrow> bool" where
  "expr_serializable (ConstantExpression v) = serializable v"
| "expr_serializable (SingleColumnExpression tableName columnName _ _) =
    (length tableName < 2 ^ 64 \<and> length columnName < 2 ^ 64)"
| "expr_serializable (AllColumnsExpression tableName _) = (length tableName < 2 ^ 64)"
| "expr_serializable (ListExpression items) =
    (length items \<le> kMaxVectorSize \<and> (\<forall>x \<in> set items. expr_serializable x))"
| "expr_serializable (UnaryExpression op x) = expr_serializable x"
| "expr_serializable (BinaryExpression op l r) =
    (expr_serializable l \<and> expr_serializable r \<and>
     (op \<noteq> CastOperator \<or> is_type_name r))"
| "expr_serializable (IsOperator l r b) = (expr_serializable l \<and> expr_serializable r)"
| "expr_serializable (LikeOperator l r b) = (expr_serializable l \<and> expr_serializable r)"
| "expr_serializable (BetweenOperator l m r b) =
    (expr_serializable l \<and> expr_serializable m \<and> expr_serializable r)"
| "expr_serializable (InOperator x variants b) =
    (expr_serializable x \<and> length variants \<le> kMaxVectorSize \<and> (\<forall>e \<in> set variants. expr_serializable e))"

text \<open>What is read back: columns are not bound to tables, streams are new.\<close>

fun expr_reloaded :: "nat \<Rightarrow> Expression \<Rightarrow> Expression" where
  "expr_reloaded addr (ConstantExpression v) = ConstantExpression (reloaded addr v)"
| "expr_reloaded addr (SingleColumnExpression table column _ _) = SingleColumnExpression table column [] None"
| "expr_reloaded addr (AllColumnsExpression table _) = AllColumnsExpression table []"
| "expr_reloaded addr (ListExpression items) = ListExpression (map (expr_reloaded addr) items)"
| "expr_reloaded addr (UnaryExpression op x) = UnaryExpression op (expr_reloaded addr x)"
| "expr_reloaded addr (BinaryExpression op l r) =
    BinaryExpression op (expr_reloaded addr l) (expr_reloaded addr r)"
| "expr_reloaded addr (IsOperator l r b) = IsOperator (expr_reloaded addr l) (expr_reloaded addr r) b"
| "expr_reloaded addr (LikeOperator l r b) = LikeOperator (expr_reloaded addr l) (expr_reloaded addr r) b"
| "expr_reloaded addr (BetweenOperator l m r b) =
    BetweenOperator (expr_reloaded addr l) (expr_reloaded addr m) (expr_reloaded addr r) b"
| "expr_reloaded addr (InOperator x variants b) =
    InOperator (expr_reloaded addr x) (map (expr_reloaded addr) variants) b"

text \<open>The bytes of a serializable expression.\<close>

fun expr_bytes :: "Expression \<Rightarrow> bytes" where
  "expr_bytes (ConstantExpression v) = 0 # type_byte v # payload v"
| "expr_bytes (SingleColumnExpression tableName columnName _ _) =
    1 # serializeUnchecked_string tableName @ serializeUnchecked_string columnName"
| "expr_bytes (AllColumnsExpression tableName _) = 2 # serializeUnchecked_string tableName"
| "expr_bytes (ListExpression items) =
    3 # encodeVarUInt64 (of_nat (length items)) @ concat (map expr_bytes items)"
| "expr_bytes (UnaryExpression op x) = of_nat (unary_code op) # expr_bytes x"
| "expr_bytes (BinaryExpression op l r) = of_nat (binary_code op) # expr_bytes l @ expr_bytes r"
| "expr_bytes (IsOperator l r b) = 35 # expr_bytes l @ expr_bytes r @ flag_byte b"
| "expr_bytes (LikeOperator l r b) = 37 # expr_bytes l @ expr_bytes r @ flag_byte b"
| "expr_bytes (BetweenOperator l m r b) = 36 # expr_bytes l @ expr_bytes m @ expr_bytes r @ flag_byte b"
| "expr_bytes (InOperator x variants b) =
    34 # expr_bytes x @ encodeVarUInt64 (of_nat (length variants)) @ concat (map expr_bytes variants) @ flag_byte b"

lemma type_bytes:
  assumes "n < 128"
  shows "serializeExpressionTypeUnchecked n = [of_nat n]" and "getExpressionTypeSerializedSize n = 1"
proof -
  from assms have "unat (of_nat n :: uint32) = n" by (simp add: unat_of_nat)
  with assms show "serializeExpressionTypeUnchecked n = [of_nat n]" and "getExpressionTypeSerializedSize n = 1"
    by (simp_all add: serializeExpressionTypeUnchecked_def getExpressionTypeSerializedSize_def
        encodeVarUInt_vi getVarUIntSize_vi vi_encode.simps [of n])
qed

lemma type_codes: "unary_code u < kExpressionTypeMax" "binary_code b < kExpressionTypeMax"
  "unary_code u < 128" "binary_code b < 128"
  by (cases u; simp add: unary_code_def kExpressionTypeMax_def; fail | cases b; simp add: binary_code_def
      kExpressionTypeMax_def)+

lemma all_bytes_concat: "\<forall>x \<in> set xs. f x = Inr (g x) \<Longrightarrow> all_bytes f xs = Inr (concat (map g xs))"
  by (induction xs) simp_all

lemma expr_writes: "expr_serializable e \<Longrightarrow> expr_serializeUnchecked e = Inr (expr_bytes e)"
proof (induction e)
  case (ConstantExpression v)
  then show ?case by (simp add: serialize_payload type_bytes)
next
  case (ListExpression items)
  then show ?case by (simp add: all_bytes_concat [where g = expr_bytes] type_bytes)
next
  case (InOperator x variants b)
  then show ?case by (simp add: all_bytes_concat [where g = expr_bytes] type_bytes)
qed (simp_all add: type_bytes type_codes)

lemma expr_bytes_nonempty [simp]: "0 < length (expr_bytes e)"
  by (cases e) simp_all

lemma expr_bytes_size: "expr_serializable e \<Longrightarrow> length (expr_bytes e) = expr_getSerializedSize e"
proof (induction e)
  case (ConstantExpression v)
  then show ?case using payload_size [of v] by (simp add: type_bytes)
next
  case (ListExpression items)
  then show ?case by (simp add: type_bytes length_concat comp_def cong: map_cong)
next
  case (InOperator x variants b)
  then show ?case by (simp add: type_bytes length_concat comp_def flag_byte_def cong: map_cong)
qed (simp_all add: type_bytes type_codes flag_byte_def)

text \<open>A reader reads a value from its bytes, whatever follows.\<close>

definition reads :: "'a reader \<Rightarrow> bytes \<Rightarrow> 'a \<Rightarrow> bool" where
  "reads p bs x \<longleftrightarrow> (\<forall>rest. p (bs @ rest) = Inr (x, length bs))"

named_theorems reads_intros

lemma reads_bind [reads_intros]: "reads p bs x \<Longrightarrow> reads (q x) cs y \<Longrightarrow> reads (r_bind p q) (bs @ cs) y"
  by (simp add: reads_def r_bind_def)

lemma reads_map: "reads p bs x \<Longrightarrow> y = f x \<Longrightarrow> reads (r_map f p) bs y"
  by (simp add: reads_def r_map_def)

lemma reads_flag [reads_intros]: "reads read_flag (flag_byte b) b"
  by (simp add: reads_def read_flag_def flag_byte_def)

lemma reads_string [reads_intros]:
  "length s < 2 ^ 64 \<Longrightarrow> reads read_string (serializeUnchecked_string s) s"
  by (simp add: reads_def read_string_def deserialize_serialize_string)

lemma reads_items:
  assumes "\<forall>x \<in> set xs. reads p (ser x) (g x)"
  shows "reads (r_items p (length xs)) (concat (map ser xs)) (map g xs)"
  using assms
proof (induction xs)
  case (Cons x xs)
  show ?case
  proof (cases xs)
    case Nil
    with Cons.prems show ?thesis by (auto intro: reads_map)
  next
    case (Cons y ys)
    with Cons.prems Cons.IH have "reads p (ser x) (g x)"
      and "reads (r_items p (length xs)) (concat (map ser xs)) (map g xs)" by simp_all
    then have "reads (r_bind p (\<lambda>x. r_map (\<lambda>xs. x # xs) (r_items p (length xs))))
        (ser x @ concat (map ser xs)) (g x # map g xs)"
      by (intro reads_bind reads_map) simp_all
    with Cons show ?thesis by simp
  qed
qed (simp add: reads_def)

lemma reads_count:
  assumes "n \<le> kMaxVectorSize" and "n \<le> length cs" and "reads (q n) cs y"
  shows "reads (r_bind read_count q) (encodeVarUInt64 (of_nat n) @ cs) y"
proof -
  have n: "unat (of_nat n :: uint64) = n" using assms(1) by (simp add: unat_of_nat kMaxVectorSize_def)
  have "decodeVarUInt64 (encodeVarUInt64 (of_nat n) @ cs @ rest) =
      DecOk (length (encodeVarUInt64 (of_nat n))) (of_nat n)" for rest
    using assms(2) n by (auto simp: decodeVarUInt64_encode word_less_nat_alt)
  then have "read_count (encodeVarUInt64 (of_nat n) @ cs @ rest) = Inr (n, length (encodeVarUInt64 (of_nat n)))" for rest
    using assms(1) n by (simp add: read_count_def)
  with assms(3) show ?thesis by (simp add: reads_def r_bind_def)
qed

lemma reads_constant:
  assumes "serializable v" and "mem_over M < 128"
  shows "reads (read_constant M) (type_byte v # payload v) (ConstantExpression (reloaded (mem_addr M) v))"
proof -
  have "varint_tail (rest @ [mem_over M])" for rest using assms(2) by (simp add: varint_tail_def)
  with deserialize_payload [OF assms(1)] show ?thesis
    by (simp add: reads_def read_constant_def r_map_def)
qed

lemma read_type_code:
  assumes "t < kExpressionTypeMax"
  shows "read_type (of_nat t # rest) = Inr (t, 1)"
proof -
  from assms have "t < 128" by (simp add: kExpressionTypeMax_def)
  then have "unat (of_nat t :: uint8) = t" by (simp add: unat_of_nat)
  with assms \<open>t < 128\<close> show ?thesis
    by (simp add: read_type_def decodeVarUInt32_vi vi_decode_short word_le_nat_alt unat_ucast_mod)
qed

lemma reads_type:
  assumes "t < kExpressionTypeMax" and "reads (deserialize_rest M (deserialize_levels k M) t) bs y"
  shows "reads (deserialize_levels (Suc k) M) (of_nat t # bs) y"
  using assms(2) read_type_code [OF assms(1)] by (simp add: reads_def r_bind_def deserialize_levels.simps(2))

lemma rest_operators:
  "deserialize_rest M rec (unary_code u) = deserializeUnaryExpression rec u"
  "deserialize_rest M rec (binary_code b) = deserializeBinaryExpression rec b"
proof -
  show "deserialize_rest M rec (unary_code u) = deserializeUnaryExpression rec u"
    by (cases u) (simp_all add: deserialize_rest_def unary_code_def unary_of_code_def)
  show "deserialize_rest M rec (binary_code b) = deserializeBinaryExpression rec b"
    by (cases b) (simp_all add: deserialize_rest_def unary_code_def unary_of_code_def binary_code_def
        binary_of_code_def)
qed

lemma reads_binary:
  assumes "reads rec bs l" and "reads rec cs r"
    and "op \<noteq> CastOperator \<or> is_type_name r"
  shows "reads (deserializeBinaryExpression rec op) (bs @ cs) (BinaryExpression op l r)"
proof -
  have "makeBinary op l (r, n) = Inr (BinaryExpression op l r, n)" for n
    using assms(3) by (auto simp: makeBinary_def)
  with assms(2) have "reads (\<lambda>buf. chain (rec buf) (makeBinary op l)) cs (BinaryExpression op l r)"
    by (simp add: reads_def)
  with assms(1) show ?thesis unfolding deserializeBinaryExpression_def by (rule reads_bind)
qed

lemma is_type_name_iff: "is_type_name r \<longleftrightarrow> (\<exists>s. r = ConstantExpression (VString s))"
proof (cases r)
  case (ConstantExpression v)
  then show ?thesis by (cases v) (simp_all add: is_type_name_def)
qed (simp_all add: is_type_name_def)

lemma reloaded_type_name: "is_type_name r \<Longrightarrow> is_type_name (expr_reloaded addr r)"
  by (auto simp: is_type_name_iff reloaded_def)

lemma count_le_bytes: "length xs \<le> length (concat (map expr_bytes xs))"
proof (induction xs)
  case (Cons x xs)
  then show ?case using expr_bytes_nonempty [of x] by (simp add: Suc_le_eq add_strict_increasing)
qed simp

lemma item_le_bytes: "x \<in> set xs \<Longrightarrow> length (expr_bytes x) \<le> length (concat (map expr_bytes xs))"
  by (induction xs) auto

fun children :: "Expression \<Rightarrow> Expression list" where
  "children (ListExpression items) = items"
| "children (UnaryExpression op x) = [x]"
| "children (BinaryExpression op l r) = [l, r]"
| "children (IsOperator l r b) = [l, r]"
| "children (LikeOperator l r b) = [l, r]"
| "children (BetweenOperator l m r b) = [l, m, r]"
| "children (InOperator x variants b) = x # variants"
| "children e = []"

lemma children_bytes:
  assumes "x \<in> set (children e)"
  shows "length (expr_bytes x) < length (expr_bytes e)"
  using assms item_le_bytes by (cases e) (fastforce simp: less_Suc_eq_le)+

lemma children_serializable: "expr_serializable e \<Longrightarrow> x \<in> set (children e) \<Longrightarrow> expr_serializable x"
  by (cases e) auto

lemma expr_bytes_head: "expr_bytes e = of_nat (getType e) # tl (expr_bytes e)"
  by (cases e) (simp_all add: getType_def)

lemma getType_bound: "getType e < kExpressionTypeMax"
  using type_codes by (cases e) (simp_all add: getType_def kExpressionTypeMax_def)

text \<open>One level: an expression is read if its operands are.\<close>

lemma rest_reads:
  assumes "mem_over M < 128" and "expr_serializable e"
    and "\<forall>x \<in> set (children e). reads rec (expr_bytes x) (expr_reloaded (mem_addr M) x)"
  shows "reads (deserialize_rest M rec (getType e)) (tl (expr_bytes e)) (expr_reloaded (mem_addr M) e)"
proof (cases e)
  case (ConstantExpression v)
  with assms reads_constant show ?thesis by (simp add: getType_def deserialize_rest_def)
next
  case (ListExpression items)
  with assms have "\<forall>x \<in> set items. reads rec (expr_bytes x) (expr_reloaded (mem_addr M) x)" by simp
  from reads_map [OF reads_items [OF this] refl, of ListExpression] ListExpression assms(2) count_le_bytes
  show ?thesis by (simp add: getType_def deserialize_rest_def reads_count)
next
  case (InOperator x variants b)
  with assms have "\<forall>x \<in> set variants. reads rec (expr_bytes x) (expr_reloaded (mem_addr M) x)" by simp
  from reads_bind [OF reads_items [OF this] reads_map [OF reads_flag refl]]
  have "reads (r_bind (r_items rec (length variants)) (\<lambda>vs. r_map (InOperator y vs) read_flag))
      (concat (map expr_bytes variants) @ flag_byte b)
      (InOperator y (map (expr_reloaded (mem_addr M)) variants) b)" for y .
  with InOperator assms(2) count_le_bytes [of variants]
  have "reads (r_bind read_count (\<lambda>n. r_bind (r_items rec n) (\<lambda>vs. r_map (InOperator y vs) read_flag)))
      (encodeVarUInt64 (of_nat (length variants)) @ concat (map expr_bytes variants) @ flag_byte b)
      (InOperator y (map (expr_reloaded (mem_addr M)) variants) b)" for y
    by (intro reads_count) (simp_all add: trans_le_add1)
  note variants = this
  from InOperator assms(3) have "reads rec (expr_bytes x) (expr_reloaded (mem_addr M) x)" by simp
  from reads_bind [OF this variants] InOperator show ?thesis by (simp add: getType_def deserialize_rest_def)
next
  case (BinaryExpression op l r)
  with assms reloaded_type_name show ?thesis by (auto simp: getType_def rest_operators intro!: reads_binary)
next
  case (UnaryExpression op x)
  with assms show ?thesis
    by (simp add: getType_def rest_operators deserializeUnaryExpression_def reads_map)
qed (use assms in \<open>auto simp: getType_def deserialize_rest_def intro!: reads_intros reads_map\<close>)

lemma expr_reads:
  assumes "mem_over M < 128" and "expr_serializable e" and "length (expr_bytes e) \<le> k"
  shows "reads (deserialize_levels k M) (expr_bytes e) (expr_reloaded (mem_addr M) e)"
  using assms(2,3)
proof (induction k arbitrary: e)
  case 0
  then show ?case using expr_bytes_nonempty [of e] by simp
next
  case (Suc k)
  have "\<forall>x \<in> set (children e). reads (deserialize_levels k M) (expr_bytes x) (expr_reloaded (mem_addr M) x)"
    using Suc.prems Suc.IH children_bytes children_serializable by fastforce
  from reads_type [OF getType_bound rest_reads [OF assms(1) Suc.prems(1) this]] show ?case
    by (simp add: expr_bytes_head [symmetric])
qed


definition sample_memory :: Memory where
  "sample_memory = \<lparr>mem_init = midnight, mem_addr = 0, mem_over = 0\<rparr>"

definition sample_condition :: Expression where
  "sample_condition = InOperator sample_sum [ConstantExpression (VString [104, 105]), ConstantExpression VNull] True"


text \<open>A cast whose destination is no constant string ends the process when it is read: the exception leaves a
  constructor declared \<open>noexcept\<close>.\<close>

theorem cast_deserialize_terminates_process:
  assumes "expr_serializable l" and "expr_serializable r" and "\<not> is_type_name (expr_reloaded (mem_addr M) r)"
    and "mem_over M < 128"
    and "expr_serializeUnchecked l = Inr bl" and "expr_serializeUnchecked r = Inr br"
  shows "expr_deserialize M (serializeExpressionTypeUnchecked (binary_code CastOperator) @ bl @ br) = Inl Terminated"
proof -
  let ?g = "expr_reloaded (mem_addr M)" and ?buf = "of_nat (binary_code CastOperator) # expr_bytes l @ expr_bytes r"
  let ?rec = "deserialize_levels (length ?buf) M"
  have "reads ?rec (expr_bytes l) (?g l)" and r: "reads ?rec (expr_bytes r) (?g r)"
    using assms by (simp_all add: expr_reads)
  moreover have "?rec (expr_bytes r) = Inr (?g r, length (expr_bytes r))"
    using r unfolding reads_def by (metis append_Nil2)
  ultimately have "deserialize_rest M ?rec (binary_code CastOperator) (expr_bytes l @ expr_bytes r) = Inl Terminated"
    using assms(3) by (simp only: rest_operators)
      (simp add: deserializeBinaryExpression_def r_bind_def reads_def makeBinary_def)
  moreover have "read_type ?buf = Inr (binary_code CastOperator, 1)"
    using read_type_code [of "binary_code CastOperator"] type_codes by simp
  ultimately have "expr_deserialize M ?buf = Inl Terminated"
    by (simp add: expr_deserialize_unfold r_bind_def)
  with assms expr_writes show ?thesis by (simp add: type_bytes type_codes)
qed

theorem cast_deserialize_terminates_process_witness:
  "expr_deserialize sample_memory
    (serializeExpressionTypeUnchecked (binary_code CastOperator) @ [0, 0] @ [0, 1, 1]) = Inl Terminated"
  using cast_deserialize_terminates_process [of "ConstantExpression VNull" "ConstantExpression (VBool True)"
      sample_memory "[0, 0]" "[0, 1, 1]"]
  by (simp add: serializable_def is_type_name_def reloaded_def sample_memory_def variant_serializeUnchecked_def
      type_byte_def type_code_def type_bytes)

end
