(* ===== verification/LruCache.thy ===== *)
theory LruCache
  imports Prelude "HOL-Library.AList"
begin

text \<open>
  The least-recently-used cache \<open>basic_lru_cache\<close> (\<open>stl_ext/lru_cache.h\<close>), which holds the files of
  the linear index, the blocks of column data, the column sets and definitions, and the nodes of the
  B+ tree index.

  The cache is a map from keys to values beside a doubly linked list of the keys in order of use.
  Every entry of the map keeps an iterator into the list, and a node of the list is identified here
  by its address, so that the operations that move nodes (\<open>get\<close> swaps the keys of two nodes and
  erases one of them) are the ones of the source. The virtual functions of the class are a record of
  hooks over a state of the surrounding program.

  The abstraction \<open>lru_entries\<close> is the list of entries in order of use. The cache behaves like that
  list under every sequence of calls, it keeps the iterators consistent, and it never reports itself
  as corrupted.
\<close>

section \<open>State and operations\<close>

datatype 'e lru_error = LruCacheFull | LruCacheCorrupted | LruCacheEmpty | HookError 'e

text \<open>The entries of the map come in the order of its iteration, the nodes of the list from the
  front to the back, each with its address.\<close>

record ('k, 'v) lru_cache =
  m_capacity :: nat
  m_map :: "('k \<times> 'v \<times> nat) list"
  m_list :: "(nat \<times> 'k) list"
  m_fresh :: nat

text \<open>The overridable functions. They see and change the state of the program outside of the cache.
  The cleanup may write to files, which may not return.\<close>

record ('k, 'v, 'w, 'e) lru_hooks =
  can_evict :: "'w \<Rightarrow> 'k \<Rightarrow> 'v \<Rightarrow> bool"
  on_evict :: "'k \<Rightarrow> 'v \<Rightarrow> bool \<Rightarrow> 'w \<Rightarrow> ('e + unit) \<times> 'w"
  on_last_chance_cleanup :: "('k \<times> 'v \<times> nat) list \<Rightarrow> 'w \<Rightarrow> (('e + bool) \<times> 'w) option"

definition base_hooks :: "('k, 'v, 'w, 'e) lru_hooks" where
  "base_hooks = \<lparr>can_evict = \<lambda>w k v. True, on_evict = \<lambda>k v clearing w. (Inr (), w),
    on_last_chance_cleanup = \<lambda>m w. Some (Inr False, w)\<rparr>"

definition lru_new :: "nat \<Rightarrow> ('k, 'v) lru_cache" where
  "lru_new capacity = \<lparr>m_capacity = capacity, m_map = [], m_list = [], m_fresh = 0\<rparr>"

definition lru_size :: "('k, 'v) lru_cache \<Rightarrow> nat" where
  "lru_size c = length (m_map c)"

definition lru_contains :: "'k \<Rightarrow> ('k, 'v) lru_cache \<Rightarrow> bool" where
  "lru_contains k c \<longleftrightarrow> map_of (m_map c) k \<noteq> None"

text \<open>The first and the last key of a cache with an ordered map.\<close>

definition first_key :: "('k::linorder, 'v) lru_cache \<Rightarrow> 'e lru_error + 'k" where
  "first_key c = (if m_map c = [] then Inl LruCacheEmpty else Inr (hd (sort (map fst (m_map c)))))"

definition last_key :: "('k::linorder, 'v) lru_cache \<Rightarrow> 'e lru_error + 'k" where
  "last_key c = (if m_map c = [] then Inl LruCacheEmpty else Inr (last (sort (map fst (m_map c)))))"

definition lru_extend :: "nat \<Rightarrow> ('k, 'v) lru_cache \<Rightarrow> ('k, 'v) lru_cache" where
  "lru_extend capacity c = (if m_capacity c < capacity then c\<lparr>m_capacity := capacity\<rparr> else c)"

text \<open>\<open>std::list\<close>: the iterator to the first node, the key a node holds, swapping the keys of two
  nodes, and erasing a node.\<close>

definition list_begin :: "(nat \<times> 'k) list \<Rightarrow> nat option" where
  "list_begin xs = (case xs of [] \<Rightarrow> None | x # _ \<Rightarrow> Some (fst x))"

definition list_swap :: "nat \<Rightarrow> nat \<Rightarrow> (nat \<times> 'k) list \<Rightarrow> (nat \<times> 'k) list" where
  "list_swap a b xs = (case (map_of xs a, map_of xs b) of
      (Some x, Some y) \<Rightarrow> map (\<lambda>(n, z). (n, if n = a then y else if n = b then x else z)) xs
    | _ \<Rightarrow> xs)"

definition list_erase :: "nat \<Rightarrow> (nat \<times> 'k) list \<Rightarrow> (nat \<times> 'k) list" where
  "list_erase a xs = filter (\<lambda>(n, _). n \<noteq> a) xs"

text \<open>A value that is found moves to the front: a new node with a default key takes the key of the
  old node, which is erased, and the entry points to the new node.\<close>

definition lru_get :: "'k::zero \<Rightarrow> ('k, 'v) lru_cache \<Rightarrow> 'v option \<times> ('k, 'v) lru_cache" where
  "lru_get k c = (case map_of (m_map c) k of
      None \<Rightarrow> (None, c)
    | Some (v, n) \<Rightarrow>
        (Some v,
         if Some n \<noteq> list_begin (m_list c) then
           let pushed = (m_fresh c, 0) # m_list c;
               swapped = list_swap (m_fresh c) n pushed
           in c\<lparr>m_list := list_erase n swapped, m_map := AList.update k (v, m_fresh c) (m_map c),
                m_fresh := Suc (m_fresh c)\<rparr>
         else c))"

text \<open>Erasing the entry of a key whose node is known.\<close>

definition lru_drop :: "'k \<Rightarrow> nat \<Rightarrow> ('k, 'v) lru_cache \<Rightarrow> ('k, 'v) lru_cache" where
  "lru_drop k n c = c\<lparr>m_list := list_erase n (m_list c), m_map := AList.delete k (m_map c)\<rparr>"

text \<open>One pass over the list from its back: the result tells whether an entry was evicted.\<close>

fun evict_pass :: "('k, 'v, 'w, 'e) lru_hooks \<Rightarrow> 'k list \<Rightarrow> ('k, 'v) lru_cache \<Rightarrow> 'w \<Rightarrow>
    ('e lru_error + bool) \<times> ('k, 'v) lru_cache \<times> 'w" where
  "evict_pass H [] c w = (Inr False, c, w)"
| "evict_pass H (k # ks) c w = (case map_of (m_map c) k of
      None \<Rightarrow> (Inl LruCacheCorrupted, c, w)
    | Some (v, n) \<Rightarrow>
        if can_evict H w k v then
          (case on_evict H k v False w of
             (Inl e, w') \<Rightarrow> (Inl (HookError e), c, w')
           | (Inr _, w') \<Rightarrow> (Inr True, lru_drop k n c, w'))
        else evict_pass H ks c w)"

text \<open>The loop of \<open>evict\<close>; it may run forever when the last-chance cleanup keeps asking for another
  attempt.\<close>

partial_function (option) evict :: "('k, 'v, 'w, 'e) lru_hooks \<Rightarrow> ('k, 'v) lru_cache \<Rightarrow> 'w \<Rightarrow>
    (('e lru_error + unit) \<times> ('k, 'v) lru_cache \<times> 'w) option" where
  "evict H c w = (case evict_pass H (rev (map snd (m_list c))) c w of
      (Inl e, c', w') \<Rightarrow> Some (Inl e, c', w')
    | (Inr evicted, c', w') \<Rightarrow>
        if evicted then Some (Inr (), c', w')
        else (case on_last_chance_cleanup H (m_map c') w' of
            None \<Rightarrow> None
          | Some (Inl e, w'') \<Rightarrow> Some (Inl (HookError e), c', w'')
          | Some (Inr retry, w'') \<Rightarrow>
              if retry then evict H c' w'' else Some (Inl LruCacheFull, c', w'')))"

definition lru_push :: "'k \<Rightarrow> 'v \<Rightarrow> ('k, 'v) lru_cache \<Rightarrow> ('k, 'v) lru_cache" where
  "lru_push k v c = c\<lparr>m_list := (m_fresh c, k) # m_list c,
    m_map := AList.update k (v, m_fresh c) (m_map c), m_fresh := Suc (m_fresh c)\<rparr>"

definition lru_emplace :: "('k, 'v, 'w, 'e) lru_hooks \<Rightarrow> 'k \<Rightarrow> 'v \<Rightarrow> bool \<Rightarrow> ('k, 'v) lru_cache \<Rightarrow> 'w \<Rightarrow>
    (('e lru_error + bool) \<times> ('k, 'v) lru_cache \<times> 'w) option" where
  "lru_emplace H k v replace c w = (case map_of (m_map c) k of
      None \<Rightarrow>
        (case (if length (m_map c) \<ge> m_capacity c then evict H c w else Some (Inr (), c, w)) of
           None \<Rightarrow> None
         | Some (Inl e, c', w') \<Rightarrow> Some (Inl e, c', w')
         | Some (Inr _, c', w') \<Rightarrow> Some (Inr True, lru_push k v c', w'))
    | Some (_, n) \<Rightarrow>
        Some (Inr False, if replace then c\<lparr>m_map := AList.update k (v, n) (m_map c)\<rparr> else c, w))"

definition lru_erase :: "'k \<Rightarrow> ('k, 'v) lru_cache \<Rightarrow> bool \<times> ('k, 'v) lru_cache" where
  "lru_erase k c = (case map_of (m_map c) k of
      None \<Rightarrow> (False, c)
    | Some (_, n) \<Rightarrow> (True, lru_drop k n c))"

text \<open>\<open>clear\<close> announces the eviction of every entry and ignores the exceptions.\<close>

fun evict_all :: "('k, 'v, 'w, 'e) lru_hooks \<Rightarrow> ('k \<times> 'v \<times> nat) list \<Rightarrow> 'w \<Rightarrow> 'w" where
  "evict_all H [] w = w"
| "evict_all H ((k, v, n) # es) w = evict_all H es (snd (on_evict H k v True w))"

definition lru_clear :: "('k, 'v, 'w, 'e) lru_hooks \<Rightarrow> ('k, 'v) lru_cache \<Rightarrow> 'w \<Rightarrow> ('k, 'v) lru_cache \<times> 'w" where
  "lru_clear H c w = (c\<lparr>m_list := [], m_map := []\<rparr>, evict_all H (m_map c) w)"

text \<open>The content of two caches is exchanged; a moved-from cache is empty and keeps its capacity.\<close>

definition lru_swap :: "('k, 'v) lru_cache \<times> ('k, 'v) lru_cache \<Rightarrow> ('k, 'v) lru_cache \<times> ('k, 'v) lru_cache" where
  "lru_swap p = (case p of (a, b) \<Rightarrow> (b, a))"

definition lru_move :: "('k, 'v) lru_cache \<Rightarrow> ('k, 'v) lru_cache \<times> ('k, 'v) lru_cache" where
  "lru_move src = lru_swap (lru_new (m_capacity src), src)"

section \<open>Calls and their outcomes\<close>

datatype ('k, 'v) lru_call = Get 'k | Emplace 'k 'v bool | Erase 'k | Extend nat | Clear

datatype ('v, 'e) lru_outcome = Found "'v option" | Placed "'e lru_error + bool" | Erased bool | Done

definition lru_step :: "('k::zero, 'v, 'w, 'e) lru_hooks \<Rightarrow> ('k, 'v) lru_call \<Rightarrow> ('k, 'v) lru_cache \<times> 'w \<Rightarrow>
    (('v, 'e) lru_outcome \<times> ('k, 'v) lru_cache \<times> 'w) option" where
  "lru_step H call s = (case s of (c, w) \<Rightarrow>
    (case call of
       Get k \<Rightarrow> Some (case lru_get k c of (r, c') \<Rightarrow> (Found r, c', w))
     | Emplace k v replace \<Rightarrow> map_option (\<lambda>(r, s'). (Placed r, s')) (lru_emplace H k v replace c w)
     | Erase k \<Rightarrow> Some (case lru_erase k c of (r, c') \<Rightarrow> (Erased r, c', w))
     | Extend n \<Rightarrow> Some (Done, lru_extend n c, w)
     | Clear \<Rightarrow> Some (Done, lru_clear H c w)))"

fun lru_run :: "('k::zero, 'v, 'w, 'e) lru_hooks \<Rightarrow> ('k, 'v) lru_call list \<Rightarrow> ('k, 'v) lru_cache \<times> 'w \<Rightarrow>
    (('v, 'e) lru_outcome list \<times> ('k, 'v) lru_cache \<times> 'w) option" where
  "lru_run H [] s = Some ([], s)"
| "lru_run H (call # calls) s = (case lru_step H call s of
      None \<Rightarrow> None
    | Some (r, s') \<Rightarrow> map_option (\<lambda>(rs, t). (r # rs, t)) (lru_run H calls s'))"

section \<open>Abstract cache: the entries in order of use\<close>

type_synonym ('k, 'v) recency = "nat \<times> ('k \<times> 'v) list"

definition without :: "'k \<Rightarrow> ('k \<times> 'v) list \<Rightarrow> ('k \<times> 'v) list" where
  "without k es = filter (\<lambda>e. fst e \<noteq> k) es"

definition touch :: "'k \<Rightarrow> ('k \<times> 'v) list \<Rightarrow> ('k \<times> 'v) list" where
  "touch k es = (case map_of es k of None \<Rightarrow> es | Some v \<Rightarrow> (k, v) # without k es)"

text \<open>A full list gives up the entry that \<open>pick\<close> selects, if any.\<close>

definition recency_step :: "(('k \<times> 'v) list \<Rightarrow> ('k \<times> 'v) option) \<Rightarrow> ('k, 'v) lru_call \<Rightarrow> ('k, 'v) recency \<Rightarrow>
    ('v, 'e) lru_outcome \<times> ('k, 'v) recency" where
  "recency_step pick call s = (case s of (cap, es) \<Rightarrow>
    (case call of
       Get k \<Rightarrow> (Found (map_of es k), cap, touch k es)
     | Emplace k v replace \<Rightarrow>
         if map_of es k \<noteq> None then
           (Placed (Inr False), cap, if replace then map (\<lambda>e. if fst e = k then (k, v) else e) es else es)
         else if length es < cap then (Placed (Inr True), cap, (k, v) # es)
         else (case pick es of
             None \<Rightarrow> (Placed (Inl LruCacheFull), cap, es)
           | Some e \<Rightarrow> (Placed (Inr True), cap, (k, v) # without (fst e) es))
     | Erase k \<Rightarrow> (Erased (map_of es k \<noteq> None), cap, without k es)
     | Extend n \<Rightarrow> (Done, max cap n, es)
     | Clear \<Rightarrow> (Done, cap, [])))"

fun recency_run :: "(('k \<times> 'v) list \<Rightarrow> ('k \<times> 'v) option) \<Rightarrow> ('k, 'v) lru_call list \<Rightarrow> ('k, 'v) recency \<Rightarrow>
    ('v, 'e) lru_outcome list \<times> ('k, 'v) recency" where
  "recency_run pick [] s = ([], s)"
| "recency_run pick (call # calls) s = (case recency_step pick call s of
      (r, s') \<Rightarrow> (case recency_run pick calls s' of (rs, t) \<Rightarrow> (r # rs, t)))"

definition oldest :: "('k \<times> 'v) list \<Rightarrow> ('k \<times> 'v) option" where
  "oldest es = (if es = [] then None else Some (last es))"

definition lru_ok :: "('k, 'v) lru_cache \<Rightarrow> bool" where
  "lru_ok c \<longleftrightarrow> distinct (map fst (m_map c)) \<and> distinct (map fst (m_list c)) \<and>
    (\<forall>x \<in> set (m_list c). fst x < m_fresh c) \<and>
    set (m_list c) = (\<lambda>e. (snd (snd e), fst e)) ` set (m_map c)"

definition lru_entries :: "('k, 'v) lru_cache \<Rightarrow> ('k \<times> 'v) list" where
  "lru_entries c = map (\<lambda>(n, k). (k, fst (the (map_of (m_map c) k)))) (m_list c)"

section \<open>Consistency of the iterators\<close>

lemma node_iff:
  assumes "lru_ok c"
  shows "(n, k) \<in> set (m_list c) \<longleftrightarrow> (\<exists>v. map_of (m_map c) k = Some (v, n))"
proof -
  have "map_of (m_map c) k = Some (v, n) \<longleftrightarrow> (k, v, n) \<in> set (m_map c)" for v
    using assms by (simp add: lru_ok_def map_of_eq_Some_iff)
  moreover have "set (m_list c) = (\<lambda>e. (snd (snd e), fst e)) ` set (m_map c)"
    using assms by (simp add: lru_ok_def)
  ultimately show ?thesis
    by (auto simp: image_iff) force
qed

lemma entry_unique:
  assumes "lru_ok c" and "x \<in> set (m_list c)" and "y \<in> set (m_list c)"
  shows "snd x = snd y \<longleftrightarrow> x = y" and "fst x = fst y \<longleftrightarrow> x = y"
proof -
  obtain n k m l where xy: "x = (n, k)" "y = (m, l)"
    by (cases x, cases y)
  obtain v u where "map_of (m_map c) k = Some (v, n)" and "map_of (m_map c) l = Some (u, m)"
    using assms(2,3) node_iff [OF assms(1)] unfolding xy by blast
  then show "snd x = snd y \<longleftrightarrow> x = y"
    by (auto simp: xy)
  show "fst x = fst y \<longleftrightarrow> x = y"
    using assms by (meson distinct_map inj_onD lru_ok_def)
qed

lemma distinct_keys:
  assumes "lru_ok c"
  shows "distinct (map snd (m_list c))"
  using assms entry_unique(1) [OF assms] by (auto simp: lru_ok_def distinct_map inj_on_def)

lemma keys_of_entries [simp]:
  "map fst (lru_entries c) = map snd (m_list c)"
  by (simp add: lru_entries_def split_def comp_def)

lemma entries_lookup:
  assumes "lru_ok c"
  shows "map_of (lru_entries c) k = map_option fst (map_of (m_map c) k)"
proof (cases "map_of (m_map c) k")
  case None
  then have "k \<notin> fst ` set (lru_entries c)"
    using node_iff [OF assms] by (force simp: lru_entries_def)
  then have "map_of (lru_entries c) k = None"
    by (simp add: map_of_eq_None_iff)
  with None show ?thesis
    by simp
next
  case (Some p)
  then obtain v n where p: "p = (v, n)" and node: "(n, k) \<in> set (m_list c)"
    using node_iff [OF assms] by (cases p) blast
  then have "(k, v) \<in> set (lru_entries c)"
    using Some by (force simp: lru_entries_def)
  moreover have "distinct (map fst (lru_entries c))"
    using distinct_keys [OF assms] by simp
  ultimately show ?thesis
    using Some p by (simp add: map_of_eq_Some_iff)
qed

lemma length_entries:
  assumes "lru_ok c"
  shows "length (lru_entries c) = length (m_map c)"
proof -
  have "distinct (m_list c)" and "distinct (m_map c)" and keys: "inj_on fst (set (m_map c))"
    using assms by (auto simp: lru_ok_def distinct_map)
  moreover have "inj_on (\<lambda>e. (snd (snd e), fst e)) (set (m_map c))"
    using keys by (auto simp: inj_on_def)
  ultimately have "card (set (m_list c)) = card (set (m_map c))"
    using assms by (simp add: lru_ok_def card_image)
  then have "length (m_list c) = length (m_map c)"
    by (simp add: distinct_card \<open>distinct (m_list c)\<close> \<open>distinct (m_map c)\<close>)
  then show ?thesis
    by (simp add: lru_entries_def)
qed

lemma erase_key:
  assumes "lru_ok c" and "map_of (m_map c) k = Some (v, n)"
  shows "list_erase n (m_list c) = filter (\<lambda>x. snd x \<noteq> k) (m_list c)"
proof -
  have node: "(n, k) \<in> set (m_list c)"
    using assms(2) by (simp add: node_iff [OF assms(1)])
  have "(fst x \<noteq> n) = (snd x \<noteq> k)" if "x \<in> set (m_list c)" for x
    using entry_unique [OF assms(1) that node] unfolding fst_conv snd_conv by blast
  then show ?thesis
    unfolding list_erase_def split_def by (intro filter_cong) simp_all
qed

lemma swap_and_erase:
  assumes "f \<notin> fst ` set xs" and "(n, k) \<in> set xs" and "distinct (map fst xs)"
  shows "list_erase n (list_swap f n ((f, z) # xs)) = (f, k) # list_erase n xs"
proof -
  have neq: "n \<noteq> f" and k: "map_of xs n = Some k"
    using assms by (force, simp add: map_of_eq_Some_iff)
  have "map (\<lambda>(m, y). (m, if m = f then k else if m = n then z else y)) xs =
      map (\<lambda>(m, y). (m, if m = n then z else y)) xs"
    using assms(1) by (intro map_cong refl) force
  then have "list_swap f n ((f, z) # xs) = (f, k) # map (\<lambda>(m, y). (m, if m = n then z else y)) xs"
    using neq k by (simp add: list_swap_def)
  moreover have "filter (\<lambda>(m, _). m \<noteq> n) (map (\<lambda>(m, y). (m, if m = n then z else y)) xs) = filter (\<lambda>(m, _). m \<noteq> n) xs"
    by (induction xs) auto
  ultimately show ?thesis
    using neq by (simp add: list_erase_def)
qed

lemma drop_ok:
  assumes "lru_ok c" and "map_of (m_map c) k = Some (v, n)"
  shows "lru_ok (lru_drop k n c)"
    and "lru_entries (lru_drop k n c) = without k (lru_entries c)"
proof -
  have d: "AList.delete k (m_map c) = filter (\<lambda>x. fst x \<noteq> k) (m_map c)"
    by (auto simp: AList.delete_eq intro: filter_cong)
  show "lru_ok (lru_drop k n c)"
    using assms(1) unfolding lru_ok_def lru_drop_def
    by (auto simp: erase_key [OF assms] d distinct_map_filter image_iff)
  have "map_of (AList.delete k (m_map c)) x = map_of (m_map c) x" if "x \<noteq> k" for x
    using that by (simp add: AList.delete_conv')
  then show "lru_entries (lru_drop k n c) = without k (lru_entries c)"
    by (auto simp: lru_entries_def lru_drop_def without_def erase_key [OF assms] filter_map comp_def split_def
        intro!: map_cong)
qed

lemma update_new:
  "k \<notin> fst ` set xs \<Longrightarrow> AList.update k y xs = xs @ [(k, y)]"
  by (induction xs) auto

lemma fresh_node:
  assumes "lru_ok c"
  shows "m_fresh c \<notin> fst ` set (m_list c)"
proof -
  have "\<forall>x \<in> set (m_list c). fst x < m_fresh c"
    using assms unfolding lru_ok_def by blast
  then show ?thesis
    by auto
qed

lemma push_ok:
  assumes "lru_ok c" and "map_of (m_map c) k = None"
  shows "lru_ok (lru_push k v c)"
    and "lru_entries (lru_push k v c) = (k, v) # lru_entries c"
proof -
  have u: "AList.update k (v, m_fresh c) (m_map c) = m_map c @ [(k, v, m_fresh c)]"
    using assms(2) by (simp add: map_of_eq_None_iff update_new)
  have new: "k \<notin> snd ` set (m_list c)"
    using node_iff [OF assms(1)] assms(2) by force
  show "lru_ok (lru_push k v c)"
    using fresh_node [OF assms(1)]
    using assms unfolding lru_ok_def lru_push_def
    by (simp add: u map_of_eq_None_iff less_Suc_eq)
  show "lru_entries (lru_push k v c) = (k, v) # lru_entries c"
    using new by (force simp: lru_entries_def lru_push_def AList.update_conv')
qed

lemma assign_ok:
  assumes "lru_ok c" and "map_of (m_map c) k = Some (v, n)"
  shows "lru_ok (c\<lparr>m_map := AList.update k (u, n) (m_map c)\<rparr>)"
    and "lru_entries (c\<lparr>m_map := AList.update k (u, n) (m_map c)\<rparr>) =
      map (\<lambda>e. if fst e = k then (k, u) else e) (lru_entries c)"
proof -
  have "(\<lambda>e. (snd (snd e), fst e)) ` set (AList.update k (u, n) xs) = (\<lambda>e. (snd (snd e), fst e)) ` set xs"
    if "map_of xs k = Some (v, n)" for xs :: "('a \<times> 'b \<times> nat) list"
    using that by (induction xs) (auto split: if_splits)
  then show "lru_ok (c\<lparr>m_map := AList.update k (u, n) (m_map c)\<rparr>)"
    using assms by (simp add: lru_ok_def AList.distinct_update)
  show "lru_entries (c\<lparr>m_map := AList.update k (u, n) (m_map c)\<rparr>) =
      map (\<lambda>e. if fst e = k then (k, u) else e) (lru_entries c)"
    by (auto simp: lru_entries_def AList.update_conv')
qed

lemma update_nodes:
  assumes "map_of xs k = Some (v, n)" and "distinct (map fst xs)"
  shows "(\<lambda>e. (snd (snd e), fst e)) ` set (AList.update k (u, m) xs) =
    insert (m, k) ((\<lambda>e. (snd (snd e), fst e)) ` set xs - {(n, k)})"
  using assms
proof (induction xs)
  case (Cons x xs)
  show ?case
  proof (cases "fst x = k")
    case True
    then have "(\<lambda>e. (snd (snd e), fst e)) ` set xs - {(n, k)} = (\<lambda>e. (snd (snd e), fst e)) ` set xs"
      using Cons.prems(2) by (auto simp: image_iff)
    then show ?thesis
      using Cons.prems(1) True by (cases x) (auto split: if_splits)
  next
    case False
    then show ?thesis
      using Cons by (cases x) (auto split: if_splits)
  qed
qed simp

text \<open>A found entry moves to a fresh node at the front.\<close>

definition lru_front :: "'k \<Rightarrow> 'v \<Rightarrow> nat \<Rightarrow> ('k, 'v) lru_cache \<Rightarrow> ('k, 'v) lru_cache" where
  "lru_front k v n c = c\<lparr>m_list := (m_fresh c, k) # list_erase n (m_list c),
    m_map := AList.update k (v, m_fresh c) (m_map c), m_fresh := Suc (m_fresh c)\<rparr>"

lemma lru_get_moves:
  assumes "lru_ok c" and "map_of (m_map c) k = Some (v, n)"
  shows "c\<lparr>m_list := list_erase n (list_swap (m_fresh c) n ((m_fresh c, z) # m_list c)),
      m_map := AList.update k (v, m_fresh c) (m_map c), m_fresh := Suc (m_fresh c)\<rparr> = lru_front k v n c"
proof -
  have "(n, k) \<in> set (m_list c)"
    using assms(2) by (simp add: node_iff [OF assms(1)])
  moreover have "distinct (map fst (m_list c))"
    using assms(1) by (simp add: lru_ok_def)
  ultimately show ?thesis
    using fresh_node [OF assms(1)] by (simp add: lru_front_def swap_and_erase)
qed

lemma front_ok:
  assumes "lru_ok c" and "map_of (m_map c) k = Some (v, n)"
  shows "lru_ok (lru_front k v n c)"
    and "lru_entries (lru_front k v n c) = (k, v) # without k (lru_entries c)"
proof -
  have node: "(n, k) \<in> set (m_list c)"
    using assms(2) by (simp add: node_iff [OF assms(1)])
  have same: "{x \<in> set (m_list c). snd x \<noteq> k} = set (m_list c) - {(n, k)}"
    using entry_unique(1) [OF assms(1) _ node] by auto
  have nodes: "set (m_list c) = (\<lambda>e. (snd (snd e), fst e)) ` set (m_map c)"
    and keys: "distinct (map fst (m_map c))" and bound: "\<forall>x \<in> set (m_list c). fst x < m_fresh c"
    and addresses: "distinct (map fst (m_list c))"
    using assms(1) unfolding lru_ok_def by blast+
  have "set ((m_fresh c, k) # list_erase n (m_list c)) =
      (\<lambda>e. (snd (snd e), fst e)) ` set (AList.update k (v, m_fresh c) (m_map c))"
    by (simp add: erase_key [OF assms] update_nodes [OF assms(2) keys] same flip: nodes)
  moreover have "distinct (map fst ((m_fresh c, k) # list_erase n (m_list c)))"
    using addresses fresh_node [OF assms(1)] by (auto simp: erase_key [OF assms] distinct_map_filter)
  moreover have "\<forall>x \<in> set ((m_fresh c, k) # list_erase n (m_list c)). fst x < Suc (m_fresh c)"
    using bound by (auto simp: list_erase_def less_Suc_eq)
  ultimately show "lru_ok (lru_front k v n c)"
    using keys by (simp add: lru_ok_def lru_front_def AList.distinct_update)
  show "lru_entries (lru_front k v n c) = (k, v) # without k (lru_entries c)"
    by (auto simp: lru_entries_def lru_front_def without_def erase_key [OF assms] AList.update_conv'
        filter_map comp_def split_def intro!: map_cong)
qed

lemma at_front:
  assumes "lru_ok c" and "map_of (m_map c) k = Some (v, n)" and "list_begin (m_list c) = Some n"
  shows "lru_entries c = (k, v) # without k (lru_entries c)"
proof -
  obtain x xs where xs: "m_list c = x # xs" and n: "fst x = n"
    using assms(3) by (auto simp: list_begin_def split: list.splits)
  have "(n, k) \<in> set (m_list c)"
    using assms(2) by (simp add: node_iff [OF assms(1)])
  then have x: "x = (n, k)"
    using entry_unique(2) [OF assms(1), of x "(n, k)"] xs n by simp
  then have "filter (\<lambda>y. snd y \<noteq> k) xs = xs"
    using distinct_keys [OF assms(1)] xs by (force simp: filter_id_conv)
  then show ?thesis
    using assms(2) x by (simp add: lru_entries_def xs without_def filter_map comp_def split_def)
qed

lemma lru_get_ok:
  assumes "lru_ok c"
  shows "fst (lru_get k c) = map_of (lru_entries c) k"
    and "lru_ok (snd (lru_get k c))"
    and "lru_entries (snd (lru_get k c)) = touch k (lru_entries c)"
    and "m_capacity (snd (lru_get k c)) = m_capacity c"
proof -
  show "fst (lru_get k c) = map_of (lru_entries c) k"
    and "m_capacity (snd (lru_get k c)) = m_capacity c"
    by (auto simp: lru_get_def entries_lookup [OF assms] Let_def split: option.split)
  have "lru_ok (snd (lru_get k c)) \<and> lru_entries (snd (lru_get k c)) = touch k (lru_entries c)"
  proof (cases "map_of (m_map c) k")
    case None
    then show ?thesis
      using assms by (simp add: lru_get_def touch_def entries_lookup)
  next
    case (Some p)
    then obtain v n where found: "map_of (m_map c) k = Some (v, n)"
      by (cases p) simp
    then show ?thesis
      using assms front_ok [OF assms found] at_front [OF assms found]
      by (simp add: lru_get_def lru_get_moves [OF assms found] touch_def entries_lookup)
  qed
  then show "lru_ok (snd (lru_get k c))" and "lru_entries (snd (lru_get k c)) = touch k (lru_entries c)"
    by simp_all
qed

section \<open>Eviction\<close>

text \<open>The entry that a pass evicts: the one used least recently among those that may go.\<close>

definition victim :: "('k, 'v, 'w, 'e) lru_hooks \<Rightarrow> 'w \<Rightarrow> ('k \<times> 'v) list \<Rightarrow> ('k \<times> 'v) option" where
  "victim H w es = find (\<lambda>(k, v). can_evict H w k v) (rev es)"

lemma pass_finds:
  assumes "\<forall>(k, v) \<in> set es. \<exists>n. map_of (m_map c) k = Some (v, n)"
  shows "evict_pass H (map fst es) c w = (case find (\<lambda>(k, v). can_evict H w k v) es of
      None \<Rightarrow> (Inr False, c, w)
    | Some (k, v) \<Rightarrow> (case on_evict H k v False w of
          (Inl e, w') \<Rightarrow> (Inl (HookError e), c, w')
        | (Inr _, w') \<Rightarrow> (Inr True, snd (lru_erase k c), w')))"
  using assms
  by (induction es) (auto simp: lru_erase_def split: option.split sum.split prod.split)

lemma entry_in_map:
  assumes "lru_ok c" and "(k, v) \<in> set (lru_entries c)"
  obtains n where "map_of (m_map c) k = Some (v, n)"
proof -
  have "map_of (lru_entries c) k = Some v"
    using assms distinct_keys [OF assms(1)] by (simp add: map_of_eq_Some_iff)
  then show thesis
    using that by (auto simp: entries_lookup [OF assms(1)])
qed

lemma pass_victim:
  assumes "lru_ok c"
  shows "evict_pass H (rev (map snd (m_list c))) c w = (case victim H w (lru_entries c) of
      None \<Rightarrow> (Inr False, c, w)
    | Some (k, v) \<Rightarrow> (case on_evict H k v False w of
          (Inl e, w') \<Rightarrow> (Inl (HookError e), c, w')
        | (Inr _, w') \<Rightarrow> (Inr True, snd (lru_erase k c), w')))"
proof -
  have "\<forall>(k, v) \<in> set (rev (lru_entries c)). \<exists>n. map_of (m_map c) k = Some (v, n)"
    by (auto elim: entry_in_map [OF assms])
  then show ?thesis
    using pass_finds [of "rev (lru_entries c)" c H w] by (simp add: victim_def flip: rev_map)
qed

lemma without_other:
  "k \<notin> fst ` set es \<Longrightarrow> without k es = es"
  unfolding without_def by (rule filter_True) (metis image_eqI)

lemma lru_erase_ok:
  assumes "lru_ok c"
  shows "fst (lru_erase k c) = (map_of (lru_entries c) k \<noteq> None)"
    and "lru_ok (snd (lru_erase k c))"
    and "lru_entries (snd (lru_erase k c)) = without k (lru_entries c)"
    and "m_capacity (snd (lru_erase k c)) = m_capacity c"
proof -
  have "without k (lru_entries c) = lru_entries c" if "map_of (m_map c) k = None"
    using that by (intro without_other) (simp add: entries_lookup [OF assms] flip: map_of_eq_None_iff)
  then show "fst (lru_erase k c) = (map_of (lru_entries c) k \<noteq> None)"
    and "lru_ok (snd (lru_erase k c))"
    and "lru_entries (snd (lru_erase k c)) = without k (lru_entries c)"
    and "m_capacity (snd (lru_erase k c)) = m_capacity c"
    using assms drop_ok [OF assms]
    by (auto simp: lru_erase_def entries_lookup [OF assms] lru_drop_def split: option.split)
qed

text \<open>One round of the eviction loop over the abstract entries.\<close>

lemma evict_round:
  assumes "lru_ok c"
  shows "evict H c w = (case victim H w (lru_entries c) of
      Some (k, v) \<Rightarrow> (case on_evict H k v False w of
          (Inl e, w') \<Rightarrow> Some (Inl (HookError e), c, w')
        | (Inr _, w') \<Rightarrow> Some (Inr (), snd (lru_erase k c), w'))
    | None \<Rightarrow> (case on_last_chance_cleanup H (m_map c) w of
          None \<Rightarrow> None
        | Some (Inl e, w') \<Rightarrow> Some (Inl (HookError e), c, w')
        | Some (Inr retry, w') \<Rightarrow> if retry then evict H c w' else Some (Inl LruCacheFull, c, w')))"
  by (subst evict.simps) (simp add: pass_victim [OF assms] split: option.split sum.split prod.split)

lemma without_last:
  assumes "es \<noteq> []" and "distinct (map fst es)"
  shows "without (fst (last es)) es = butlast es"
proof -
  obtain fs e where es: "es = fs @ [e]"
    using assms(1) by (cases es rule: rev_cases) auto
  then have "filter (\<lambda>x. fst x \<noteq> fst e) fs = fs"
    using assms(2) by (simp add: es filter_id_conv) (metis image_eqI)
  then show ?thesis
    by (simp add: es without_def)
qed

section \<open>Hooks without effects\<close>

text \<open>The contract of the overrides that only decide which entries may be evicted.\<close>

locale quiet_hooks =
  fixes H :: "('k::zero, 'v, 'w, 'e) lru_hooks"
  assumes quiet_evict: "on_evict H k v b w = (Inr (), w)"
    and quiet_cleanup: "on_last_chance_cleanup H m w = Some (Inr False, w)"
begin

lemma evict_quiet:
  assumes "lru_ok c"
  shows "evict H c w = (case victim H w (lru_entries c) of
      None \<Rightarrow> Some (Inl LruCacheFull, c, w)
    | Some e \<Rightarrow> Some (Inr (), snd (lru_erase (fst e) c), w))"
  by (simp add: evict_round [OF assms] quiet_evict quiet_cleanup split: option.split)

lemma emplace_refines:
  assumes "lru_ok c"
  obtains r c' where "lru_emplace H k v replace c w = Some (r, c', w)" and "lru_ok c'"
    and "recency_step (victim H w) (Emplace k v replace) (m_capacity c, lru_entries c) =
      (Placed r, m_capacity c', lru_entries c')"
proof (cases "map_of (m_map c) k")
  case (Some p)
  then obtain u n where found: "map_of (m_map c) k = Some (u, n)"
    by (cases p) simp
  let ?c' = "if replace then c\<lparr>m_map := AList.update k (v, n) (m_map c)\<rparr> else c"
  have "lru_emplace H k v replace c w = Some (Inr False, ?c', w)"
    by (simp add: lru_emplace_def found)
  moreover have "lru_ok ?c'"
    using assms assign_ok(1) [OF assms found] by simp
  ultimately show thesis
    using that [of "Inr False" ?c'] assign_ok(2) [OF assms found]
    by (simp add: recency_step_def entries_lookup [OF assms] found)
next
  case None
  show thesis
  proof (cases "length (lru_entries c) < m_capacity c")
    case True
    then show thesis
      using that [of "Inr True" "lru_push k v c"] push_ok [OF assms None] None
      by (simp add: lru_emplace_def recency_step_def entries_lookup [OF assms] length_entries [OF assms]
          lru_push_def)
  next
    case full: False
    show thesis
    proof (cases "victim H w (lru_entries c)")
      case none: None
      then show thesis
        using that [of "Inl LruCacheFull" c] assms full None
        by (simp add: lru_emplace_def recency_step_def entries_lookup [OF assms] length_entries [OF assms]
            evict_quiet [OF assms])
    next
      case (Some e)
      let ?d = "snd (lru_erase (fst e) c)"
      have "map_of (m_map ?d) k = None"
      proof -
        have "map_of (lru_entries c) k = None"
          by (simp add: entries_lookup [OF assms] None)
        then have "map_of (lru_entries ?d) k = None"
          by (auto simp: lru_erase_ok(3) [OF assms] without_def map_of_eq_None_iff)
        then show ?thesis
          by (simp add: entries_lookup [OF lru_erase_ok(2) [OF assms]])
      qed
      then show thesis
        using that [of "Inr True" "lru_push k v ?d"] push_ok [OF lru_erase_ok(2) [OF assms]] full None Some
          lru_erase_ok [OF assms, of "fst e"]
        by (simp add: lru_emplace_def recency_step_def entries_lookup [OF assms] length_entries [OF assms]
            evict_quiet [OF assms] lru_push_def)
    qed
  qed
qed

lemma step_refines:
  assumes "lru_ok c"
  obtains r c' where "lru_step H call (c, w) = Some (r, c', w)" and "lru_ok c'"
    and "recency_step (victim H w) call (m_capacity c, lru_entries c) = (r, m_capacity c', lru_entries c')"
proof (cases call)
  case (Get k)
  then show thesis
    using that [of "Found (fst (lru_get k c))" "snd (lru_get k c)"] lru_get_ok [OF assms, of k]
    by (simp add: lru_step_def recency_step_def split_def)
next
  case (Emplace k v replace)
  then show thesis
    using emplace_refines [OF assms, of k v replace w] that by (auto simp: lru_step_def)
next
  case (Erase k)
  then show thesis
    using that [of "Erased (fst (lru_erase k c))" "snd (lru_erase k c)"] lru_erase_ok [OF assms, of k]
    by (simp add: lru_step_def recency_step_def split_def)
next
  case (Extend n)
  then show thesis
    using that [of Done "lru_extend n c"] assms
    by (simp add: lru_step_def recency_step_def lru_extend_def lru_ok_def lru_entries_def max_def)
next
  case Clear
  have "evict_all H es w = w" for es
    by (induction es) (auto simp: quiet_evict)
  then show thesis
    using that [of Done "c\<lparr>m_list := [], m_map := []\<rparr>"] Clear
    by (simp add: lru_step_def recency_step_def lru_clear_def lru_ok_def lru_entries_def)
qed

lemma run_refines:
  assumes "lru_ok c"
  obtains rs c' where "lru_run H calls (c, w) = Some (rs, c', w)" and "lru_ok c'"
    and "recency_run (victim H w) calls (m_capacity c, lru_entries c) = (rs, m_capacity c', lru_entries c')"
proof -
  have "\<exists>rs c'. lru_run H calls (c, w) = Some (rs, c', w) \<and> lru_ok c' \<and>
    recency_run (victim H w) calls (m_capacity c, lru_entries c) = (rs, m_capacity c', lru_entries c')"
    using assms
  proof (induction calls arbitrary: c)
    case (Cons call calls)
    obtain r d where step: "lru_step H call (c, w) = Some (r, d, w)" and "lru_ok d"
      and abstract: "recency_step (victim H w) call (m_capacity c, lru_entries c) = (r, m_capacity d, lru_entries d)"
      by (rule step_refines [OF Cons.prems])
    from Cons.IH [OF \<open>lru_ok d\<close>] show ?case
      by (auto simp: step abstract)
  qed simp
  then show thesis
    using that by blast
qed

end

section \<open>The plain cache\<close>

lemma victim_base:
  "victim base_hooks w = oldest"
proof (rule ext)
  fix es
  show "victim base_hooks w es = oldest es"
    by (cases es rule: rev_cases) (simp_all add: victim_def oldest_def base_hooks_def)
qed

interpretation plain: quiet_hooks base_hooks
  by unfold_locales (simp_all add: base_hooks_def)

lemma new_cache:
  "lru_ok (lru_new n)" "lru_entries (lru_new n) = []" "m_capacity (lru_new n) = n"
  by (simp_all add: lru_new_def lru_ok_def lru_entries_def)

lemma without_key:
  assumes "distinct (map fst es)" and "map_of es k = Some v"
  shows "Suc (length (without k es)) = length es"
  using assms
proof (induction es)
  case (Cons e es)
  show ?case
  proof (cases "fst e = k")
    case True
    then have "without k es = es"
      using Cons.prems(1) by (simp add: without_other)
    with True show ?thesis
      by (simp add: without_def)
  next
    case False
    with Cons show ?thesis
      by (cases e) (simp add: without_def)
  qed
qed simp

lemma length_without:
  "length (without k es) \<le> length es"
  by (simp add: without_def)

lemma distinct_without:
  "distinct (map fst es) \<Longrightarrow> distinct (map fst (without k es))"
  by (simp add: without_def distinct_map_filter)

lemma touch_shape:
  assumes "distinct (map fst es)"
  shows "length (touch k es) = length es" and "distinct (map fst (touch k es))"
proof -
  have "k \<notin> fst ` set (without k es)"
    by (auto simp: without_def)
  then show "length (touch k es) = length es" and "distinct (map fst (touch k es))"
    using assms by (auto simp: touch_def without_key distinct_without split: option.split)
qed

text \<open>A list of entries never outgrows its capacity.\<close>

lemma recency_bounded:
  assumes "distinct (map fst es)" and "length es \<le> cap"
    and pick: "\<And>e. pick es = Some e \<Longrightarrow> e \<in> set es"
    and "recency_step pick call (cap, es) = (r, cap', es')"
  shows "distinct (map fst es') \<and> length es' \<le> cap'"
proof (cases call)
  case (Emplace k v replace)
  have keys: "map fst (map (\<lambda>e. if fst e = k then (k, v) else e) es) = map fst es"
    by (induction es) auto
  show ?thesis
  proof (cases "map_of es k = None \<and> \<not> length es < cap")
    case True
    show ?thesis
    proof (cases "pick es")
      case None
      with True show ?thesis
        using assms Emplace by (auto simp: recency_step_def)
    next
      case (Some e)
      then have "map_of es (fst e) = Some (snd e)"
        using pick assms(1) by (simp add: map_of_eq_Some_iff)
      then have "Suc (length (without (fst e) es)) = length es"
        using without_key [OF assms(1)] by simp
      moreover have "k \<notin> fst ` set (without (fst e) es)"
        using True by (auto simp: without_def map_of_eq_None_iff)
      ultimately show ?thesis
        using True Some assms Emplace distinct_without [OF assms(1), of "fst e"]
        by (auto simp: recency_step_def)
    qed
  next
    case False
    then consider "map_of es k = None" and "length es < cap" | "map_of es k \<noteq> None"
      by fastforce
    then show ?thesis
    proof cases
      case 1
      then show ?thesis
        using assms Emplace by (auto simp: recency_step_def map_of_eq_None_iff)
    next
      case 2
      then have "cap' = cap" and "map fst es' = map fst es"
        using assms(4) Emplace keys by (auto simp: recency_step_def simp del: map_map)
      then show ?thesis
        using assms(1,2) by (metis length_map)
    qed
  qed
qed (use assms touch_shape [OF assms(1)] length_without distinct_without [OF assms(1)] in
    \<open>auto simp: recency_step_def intro: order_trans [OF length_without]\<close>)

lemma recency_run_bounded:
  assumes "distinct (map fst es)" and "length es \<le> cap"
    and "\<And>es e. pick es = Some e \<Longrightarrow> e \<in> set es"
    and "recency_run pick calls (cap, es) = (rs, cap', es')"
  shows "length es' \<le> cap'"
  using assms(1,2,4)
proof (induction calls arbitrary: cap es rs)
  case (Cons call calls)
  from Cons.prems(3) obtain r cap1 es1 rs1
    where "recency_step pick call (cap, es) = (r, cap1, es1)"
      and "recency_run pick calls (cap1, es1) = (rs1, cap', es')" and "rs = r # rs1"
    by (auto split: prod.splits)
  then show ?case
    using Cons.IH [of es1 cap1] recency_bounded [OF Cons.prems(1,2) assms(3)] by blast
qed simp

text \<open>Insertions of new keys push the older entries out of the list.\<close>

lemma recency_insertion:
  assumes "length es \<le> cap" and "0 < cap" and "distinct (map fst ((k, v) # es))"
  shows "recency_step oldest (Emplace k v False) (cap, es) = (Placed (Inr True), cap, take cap ((k, v) # es))"
proof -
  have new: "map_of es k = None"
    using assms(3) by (simp add: map_of_eq_None_iff)
  show ?thesis
  proof (cases "length es < cap")
    case True
    then show ?thesis
      using new by (simp add: recency_step_def)
  next
    case False
    then have "length es = cap" "es \<noteq> []"
      using assms(1,2) by auto
    moreover from this have "without (fst (last es)) es = butlast es"
      using without_last assms(3) by auto
    ultimately show ?thesis
      using new assms(2) by (cases cap) (auto simp: recency_step_def oldest_def butlast_conv_take)
  qed
qed

lemma recency_insertions:
  assumes "length es \<le> cap" and "0 < cap" and "distinct (map fst (kvs @ es))"
  shows "recency_run oldest (map (\<lambda>(k, v). Emplace k v False) kvs) (cap, es) =
    (replicate (length kvs) (Placed (Inr True)), cap, take cap (rev kvs @ es))"
  using assms
proof (induction kvs arbitrary: es)
  case (Cons kv kvs)
  obtain k v where kv: "kv = (k, v)"
    by (cases kv)
  let ?es = "take cap ((k, v) # es)"
  have "distinct (map fst ?es)"
    unfolding take_map [symmetric] using Cons.prems(3) by (intro distinct_take) (simp add: kv)
  moreover have "fst ` set ?es \<subseteq> insert k (fst ` set es)"
    using set_take_subset [of cap "(k, v) # es"] by force
  ultimately have "distinct (map fst (kvs @ ?es))"
    using Cons.prems(3) unfolding map_append distinct_append by (simp add: kv) blast
  moreover have "take cap (rev kvs @ ?es) = take cap (rev kvs @ (k, v) # es)"
    by (simp add: min_def)
  ultimately show ?case
    using Cons.IH [of ?es] Cons.prems by (simp add: kv recency_insertion)
qed simp

text \<open>C4: The cache with the default hooks behaves, under every sequence of calls, like the list of its
  entries in order of use: a lookup moves the entry to the front, an insertion into a full cache
  drops the last entry, an insertion of a present key leaves the order alone. Every call returns, the
  iterators stay consistent and the size never exceeds the capacity.\<close>

theorem lru_refines_recency:
  "\<exists>(rs :: ('v, 'e) lru_outcome list) c. lru_run base_hooks calls (lru_new n, w) = Some (rs, c, w) \<and> lru_ok c \<and>
    recency_run oldest calls (n, []) = (rs, m_capacity c, lru_entries c) \<and>
    lru_size c \<le> m_capacity c"
proof -
  obtain rs :: "('v, 'e) lru_outcome list" and c where run: "lru_run base_hooks calls (lru_new n, w) = Some (rs, c, w)" "lru_ok c"
    and abstract: "recency_run oldest calls (n, []) = (rs, m_capacity c, lru_entries c)"
    by (rule plain.run_refines [OF new_cache(1), of calls n w]) (simp_all add: new_cache victim_base)
  have "length (lru_entries c) \<le> m_capacity c"
    by (rule recency_run_bounded [OF _ _ _ abstract]) (simp_all add: oldest_def split: if_splits, metis last_in_set)
  then show ?thesis
    using run abstract length_entries [OF run(2)] by (auto simp: lru_size_def)
qed

lemma map_of_recent:
  assumes "k \<notin> fst ` set xs"
  shows "map_of (take n (rev xs @ (k, v) # ys)) k = (if length xs < n then Some v else None)"
proof (cases "length xs < n")
  case True
  then obtain m where m: "n - length xs = Suc m"
    by (metis Suc_diff_Suc)
  moreover have "map_of (rev xs) k = None"
    using assms by (simp add: map_of_eq_None_iff)
  ultimately show ?thesis
    using True by (simp add: map_add_def)
next
  case False
  then have "k \<notin> fst ` set (take n (rev xs))"
    using assms set_take_subset [of n "rev xs"] by auto
  then show ?thesis
    using False by (simp add: map_of_eq_None_iff)
qed

text \<open>C32: A value just used survives the insertion of fewer new keys than the capacity, and is gone
  once as many new keys as the capacity have been inserted.\<close>

theorem lru_working_set:
  fixes c :: "('k::zero, 'v) lru_cache"
  assumes "lru_ok c" and "lru_size c \<le> m_capacity c" and "map_of (lru_entries c) k = Some v"
    and "distinct (map fst kvs)" and "\<forall>x \<in> set kvs. \<not> lru_contains (fst x) c"
  shows "\<exists>c'. lru_run base_hooks (Get k # map (\<lambda>(x, y). Emplace x y False) kvs) (c, w) =
      Some (Found (Some v) # replicate (length kvs) (Placed (Inr True) :: ('v, 'e) lru_outcome), c', w) \<and>
    fst (lru_get k c') = (if length kvs < m_capacity c then Some v else None)"
proof -
  let ?es = "lru_entries c"
  let ?after = "take (m_capacity c) (rev kvs @ touch k ?es)"
  have keys: "distinct (map fst ?es)"
    using distinct_keys [OF assms(1)] by simp
  have touched: "touch k ?es = (k, v) # without k ?es"
    using assms(3) by (simp add: touch_def)
  have size: "length (touch k ?es) \<le> m_capacity c" "0 < m_capacity c"
    using assms(2) touch_shape(1) [OF keys, of k] length_entries [OF assms(1)] touched
    by (simp_all add: lru_size_def)
  have new: "fst ` set kvs \<inter> fst ` set ?es = {}"
  proof -
    have "fst x \<notin> fst ` set ?es" if "x \<in> set kvs" for x
      using assms(5) that
      by (simp add: entries_lookup [OF assms(1)] lru_contains_def del: not_None_eq flip: map_of_eq_None_iff)
    then show ?thesis
      by blast
  qed
  have present: "k \<in> fst ` set ?es"
    using map_of_SomeD [OF assms(3)] by force
  have "fst ` set (touch k ?es) \<subseteq> fst ` set ?es"
    unfolding touched without_def using present by auto
  then have "distinct (map fst (kvs @ touch k ?es))"
    using new assms(4) touch_shape(2) [OF keys, of k] unfolding map_append distinct_append set_map by blast
  note insertions = recency_insertions [OF size this]
  obtain rs :: "('v, 'e) lru_outcome list" and c' where run: "lru_run base_hooks (Get k # map (\<lambda>(x, y). Emplace x y False) kvs) (c, w) = Some (rs, c', w)"
    and ok: "lru_ok c'"
    and "recency_run oldest (Get k # map (\<lambda>(x, y). Emplace x y False) kvs) (m_capacity c, ?es) =
      (rs, m_capacity c', lru_entries c')"
    by (rule plain.run_refines [OF assms(1), of "Get k # map (\<lambda>(x, y). Emplace x y False) kvs" w])
      (simp add: victim_base)
  then have rs: "rs = Found (Some v) # replicate (length kvs) (Placed (Inr True))"
    and after: "lru_entries c' = ?after"
    by (auto simp: recency_step_def assms(3) insertions)
  have "k \<notin> fst ` set kvs"
    using new present by blast
  then have "map_of ?after k = (if length kvs < m_capacity c then Some v else None)"
    unfolding touched by (rule map_of_recent)
  then show ?thesis
    using run lru_get_ok(1) [OF ok, of k] by (simp add: rs after)
qed

definition sample_cache :: "(nat, nat) lru_cache" where
  "sample_cache = lru_push 2 20 (lru_push 1 10 (lru_new 2))"

theorem lru_working_set_witness:
  "(\<exists>c. lru_run base_hooks [Get 1, Emplace 3 30 False] (sample_cache, ()) =
      Some ([Found (Some 10), Placed (Inr True) :: (nat, unit) lru_outcome], c, ()) \<and>
    fst (lru_get 1 c) = Some 10) \<and>
   (\<exists>c. lru_run base_hooks [Get 1, Emplace 3 30 False, Emplace 4 40 False] (sample_cache, ()) =
      Some ([Found (Some 10), Placed (Inr True), Placed (Inr True) :: (nat, unit) lru_outcome], c, ()) \<and>
    fst (lru_get 1 c) = None)"
proof -
  have sample: "lru_ok sample_cache" "lru_size sample_cache \<le> m_capacity sample_cache"
    "map_of (lru_entries sample_cache) 1 = Some 10" "m_capacity sample_cache = 2"
    "\<not> lru_contains 3 sample_cache" "\<not> lru_contains 4 sample_cache"
    by (auto simp: sample_cache_def lru_push_def lru_new_def lru_ok_def lru_size_def lru_entries_def lru_contains_def)
  show ?thesis
    using lru_working_set [OF sample(1-3), of "[(3, 30)]" "()"]
      lru_working_set [OF sample(1-3), of "[(3, 30), (4, 40)]" "()"] sample
    by (simp add: numeral_2_eq_2)
qed

end
