(* ===== verification/FileIO.thy ===== *)
theory FileIO
  imports Prelude
begin

text \<open>
  Exact reads and writes on file descriptors (\<open>common/io/FileIO.c\<close>) and the plain file of the storage
  layer (\<open>NormalFile.cpp\<close>), which turn the partial transfers of the system calls into transfers of a
  whole buffer.

  The operating system is a state: the bytes of the file, the position of the descriptor, \<open>errno\<close>, and
  the answers that the successive system calls will get. An answer interrupts the call, refuses it
  with an error or grants up to a number of bytes, as POSIX allows. The loops retry interrupted calls,
  so they may run forever; they are partial functions, and that they return is a theorem.

  The loops compare the bytes transferred with a size that they decrease at the same time, so a short
  transfer of at least half of the remaining bytes ends them early, without an error.
\<close>

section \<open>System calls\<close>

datatype sys_answer = Interrupted | Refused nat | Granted nat

record os =
  os_bytes :: bytes
  os_pos :: nat
  os_errno :: nat
  os_calls :: nat
  os_answers :: "nat \<Rightarrow> sys_answer"

definition EINTR :: nat where "EINTR = 4"
definition EINVAL :: nat where "EINVAL = 22"

text \<open>Writing data into a file; a gap after its end is filled with zeros.\<close>

definition write_at :: "bytes \<Rightarrow> nat \<Rightarrow> bytes \<Rightarrow> bytes" where
  "write_at file_bytes off data = (if data = [] then file_bytes
    else splice (file_bytes @ replicate (off - length file_bytes) 0) off data)"

definition sys_fail :: "nat \<Rightarrow> os \<Rightarrow> 'a option \<times> os" where
  "sys_fail e s = (None, s\<lparr>os_errno := e\<rparr>)"

text \<open>The next answer of the system to a call at an offset; the arguments of a granted call are the
  number of bytes and the state.\<close>

definition sys_call :: "int \<Rightarrow> (nat \<Rightarrow> os \<Rightarrow> 'a option \<times> os) \<Rightarrow> os \<Rightarrow> 'a option \<times> os" where
  "sys_call offset f s = (let s' = s\<lparr>os_calls := Suc (os_calls s)\<rparr> in
    if offset < 0 then sys_fail EINVAL s'
    else case os_answers s (os_calls s) of
        Interrupted \<Rightarrow> sys_fail EINTR s'
      | Refused e \<Rightarrow> sys_fail e s'
      | Granted m \<Rightarrow> f m s')"

definition sys_pread :: "nat \<Rightarrow> int \<Rightarrow> os \<Rightarrow> bytes option \<times> os" where
  "sys_pread sz offset = sys_call offset (\<lambda>m s. (Some (slice (os_bytes s) (nat offset) (min m sz)), s))"

definition sys_read :: "nat \<Rightarrow> os \<Rightarrow> bytes option \<times> os" where
  "sys_read sz s = sys_call 0 (\<lambda>m s. let data = slice (os_bytes s) (os_pos s) (min m sz) in
    (Some data, s\<lparr>os_pos := os_pos s + length data\<rparr>)) s"

definition sys_pwrite :: "bytes \<Rightarrow> int \<Rightarrow> os \<Rightarrow> nat option \<times> os" where
  "sys_pwrite buffer offset = sys_call offset (\<lambda>m s. let data = take m buffer in
    (Some (length data), s\<lparr>os_bytes := write_at (os_bytes s) (nat offset) data\<rparr>))"

definition sys_write :: "bytes \<Rightarrow> os \<Rightarrow> nat option \<times> os" where
  "sys_write buffer s = sys_call 0 (\<lambda>m s. let data = take m buffer in
    (Some (length data), s\<lparr>os_bytes := write_at (os_bytes s) (os_pos s) data, os_pos := os_pos s + length data\<rparr>)) s"

section \<open>Exact transfers\<close>

text \<open>The loops of the source: \<open>count\<close> is the number of bytes transferred, \<open>sz\<close> the variable that the
  loop condition compares it with. The buffers of the reading functions grow by what was read; the
  writing functions carry the rest of their buffer, whose length is \<open>sz\<close>.\<close>

partial_function (option) readExact_loop :: "bool \<Rightarrow> nat \<Rightarrow> nat \<Rightarrow> bytes \<Rightarrow> os \<Rightarrow> (nat \<times> bytes \<times> os) option" where
  "readExact_loop ignoreSignal count sz buffer s =
    (if count < sz then
       (case sys_read sz s of
          (None, s') \<Rightarrow>
            if os_errno s' = EINTR \<and> ignoreSignal then readExact_loop ignoreSignal count sz buffer s'
            else Some (count, buffer, s')
        | (Some data, s') \<Rightarrow>
            if data = [] then Some (count, buffer, s'\<lparr>os_errno := 0\<rparr>)
            else readExact_loop ignoreSignal (count + length data) (sz - length data) (buffer @ data) s')
     else Some (count, buffer, s))"

definition readExact :: "nat \<Rightarrow> bool \<Rightarrow> os \<Rightarrow> (nat \<times> bytes \<times> os) option" where
  "readExact sz ignoreSignal s = readExact_loop ignoreSignal 0 sz [] s"

partial_function (option) preadExact_loop :: "bool \<Rightarrow> nat \<Rightarrow> nat \<Rightarrow> int \<Rightarrow> bytes \<Rightarrow> os \<Rightarrow> (nat \<times> bytes \<times> os) option" where
  "preadExact_loop ignoreSignal count sz offset buffer s =
    (if count < sz then
       (case sys_pread sz offset s of
          (None, s') \<Rightarrow>
            if os_errno s' = EINTR \<and> ignoreSignal then preadExact_loop ignoreSignal count sz offset buffer s'
            else Some (count, buffer, s')
        | (Some data, s') \<Rightarrow>
            if data = [] then Some (count, buffer, s'\<lparr>os_errno := 0\<rparr>)
            else preadExact_loop ignoreSignal (count + length data) (sz - length data)
              (offset + int (length data)) (buffer @ data) s')
     else Some (count, buffer, s))"

definition preadExact :: "nat \<Rightarrow> int \<Rightarrow> bool \<Rightarrow> os \<Rightarrow> (nat \<times> bytes \<times> os) option" where
  "preadExact sz offset ignoreSignal s = preadExact_loop ignoreSignal 0 sz offset [] s"

partial_function (option) writeExact_loop :: "bool \<Rightarrow> nat \<Rightarrow> bytes \<Rightarrow> os \<Rightarrow> (nat \<times> os) option" where
  "writeExact_loop ignoreSignal count buffer s =
    (if count < length buffer then
       (case sys_write buffer s of
          (None, s') \<Rightarrow>
            if os_errno s' = EINTR \<and> ignoreSignal then writeExact_loop ignoreSignal count buffer s'
            else Some (count, s')
        | (Some n, s') \<Rightarrow> writeExact_loop ignoreSignal (count + n) (drop n buffer) s')
     else Some (count, s))"

definition writeExact :: "bytes \<Rightarrow> bool \<Rightarrow> os \<Rightarrow> (nat \<times> os) option" where
  "writeExact buffer ignoreSignal s = writeExact_loop ignoreSignal 0 buffer s"

partial_function (option) pwriteExact_loop :: "bool \<Rightarrow> nat \<Rightarrow> bytes \<Rightarrow> int \<Rightarrow> os \<Rightarrow> (nat \<times> os) option" where
  "pwriteExact_loop ignoreSignal count buffer offset s =
    (if count < length buffer then
       (case sys_pwrite buffer offset s of
          (None, s') \<Rightarrow>
            if os_errno s' = EINTR \<and> ignoreSignal then pwriteExact_loop ignoreSignal count buffer offset s'
            else Some (count, s')
        | (Some n, s') \<Rightarrow>
            pwriteExact_loop ignoreSignal (count + n) (drop n buffer) (offset + int n) s')
     else Some (count, s))"

definition pwriteExact :: "bytes \<Rightarrow> int \<Rightarrow> bool \<Rightarrow> os \<Rightarrow> (nat \<times> os) option" where
  "pwriteExact buffer offset ignoreSignal s = pwriteExact_loop ignoreSignal 0 buffer offset s"

section \<open>Plain files\<close>

text \<open>\<open>NormalFile\<close>: the last error is kept when fewer bytes were transferred.\<close>

record NormalFile =
  nf_os :: os
  nf_lastError :: nat

definition NormalFile_read :: "nat \<Rightarrow> int \<Rightarrow> NormalFile \<Rightarrow> (nat \<times> bytes \<times> NormalFile) option" where
  "NormalFile_read sz offset F = (case preadExact sz offset True (nf_os F) of
      None \<Rightarrow> None
    | Some (res, buffer, s) \<Rightarrow>
        Some (res, buffer, if res \<noteq> sz then F\<lparr>nf_os := s, nf_lastError := os_errno s\<rparr> else F\<lparr>nf_os := s\<rparr>))"

definition NormalFile_write :: "bytes \<Rightarrow> int \<Rightarrow> NormalFile \<Rightarrow> (nat \<times> NormalFile) option" where
  "NormalFile_write buffer offset F = (case pwriteExact buffer offset True (nf_os F) of
      None \<Rightarrow> None
    | Some (res, s) \<Rightarrow>
        Some (res, if res \<noteq> length buffer then F\<lparr>nf_os := s, nf_lastError := os_errno s\<rparr> else F\<lparr>nf_os := s\<rparr>))"

section \<open>Bytes of a file\<close>

lemma write_at_append:
  "write_at (write_at bs off xs) (off + length xs) ys = write_at bs off (xs @ ys)"
  by (auto simp: write_at_def splice_def min_def add_ac)

lemma length_write_at:
  "length (write_at bs off data) = (if data = [] then length bs else max (length bs) (off + length data))"
  by (auto simp: write_at_def splice_def)

lemma slice_write_at:
  "slice (write_at bs off data) off (length data) = data"
  by (auto simp: write_at_def splice_def slice_def min_def)

lemma slice_append_slice:
  "slice bs off n @ slice bs (off + length (slice bs off n)) m = slice bs off (length (slice bs off n) + m)"
proof -
  let ?k = "length (slice bs off n)"
  have "slice bs off n = take ?k (drop off bs)"
    by (simp add: slice_def min_def)
  then show ?thesis
    using take_add [of ?k m "drop off bs"] by (simp add: slice_def add.commute)
qed

section \<open>What is transferred\<close>

text \<open>The outcomes of a positioned system call.\<close>

definition interrupts :: "sys_answer \<Rightarrow> bool" where
  "interrupts a \<longleftrightarrow> a = Interrupted \<or> a = Refused EINTR"

lemma sys_call_cases [consumes 1, case_names refused granted]:
  assumes "sys_call offset f s = r"
  obtains e where "r = (None, s\<lparr>os_calls := Suc (os_calls s), os_errno := e\<rparr>)"
      and "e = EINTR \<Longrightarrow> interrupts (os_answers s (os_calls s))"
  | m where "0 \<le> offset" and "os_answers s (os_calls s) = Granted m"
      and "r = f m (s\<lparr>os_calls := Suc (os_calls s)\<rparr>)"
  using assms
  by (cases "offset < 0"; cases "os_answers s (os_calls s)")
    (auto simp: sys_call_def sys_fail_def Let_def interrupts_def EINTR_def EINVAL_def split: if_splits)

lemma pwrite_loop_effect:
  assumes "pwriteExact_loop ign count buffer offset s = Some r"
  shows "count \<le> fst r \<and> fst r \<le> count + length buffer \<and>
    os_bytes (snd r) = write_at (os_bytes s) (nat offset) (take (fst r - count) buffer)"
  using assms
proof (induction rule: pwriteExact_loop.raw_induct [rotated, consumes 1, case_names step])
  case (step loop ign count buffer offset s r)
  show ?case
  proof (cases "count < length buffer")
    case False
    then show ?thesis
      using step.hyps by (auto simp: write_at_def)
  next
    case True
    obtain q t where call: "sys_pwrite buffer offset s = (q, t)"
      by (cases "sys_pwrite buffer offset s")
    from call [unfolded sys_pwrite_def] show ?thesis
    proof (cases rule: sys_call_cases)
      case (refused e)
      then show ?thesis
        using step.hyps True call step.IH [of ign count buffer offset t r]
        by (auto simp: write_at_def split: if_splits)
    next
      case (granted m)
      let ?k = "length (take m buffer)"
      have q: "q = Some ?k" and t: "os_bytes t = write_at (os_bytes s) (nat offset) (take m buffer)"
        using granted(3) by (auto simp: Let_def)
      have "loop ign (count + ?k) (drop ?k buffer) (offset + int ?k) t = Some r"
        using step.hyps True call q by simp
      from step.IH [OF this] have "count + ?k \<le> fst r" "fst r \<le> count + length buffer"
        and "os_bytes (snd r) = write_at (os_bytes t) (nat offset + ?k) (take (fst r - (count + ?k)) (drop ?k buffer))"
        using granted(1) by (auto simp: nat_add_distrib)
      moreover from this have "take m buffer @ take (fst r - (count + ?k)) (drop ?k buffer) = take (fst r - count) buffer"
        using take_add [of ?k "fst r - (count + ?k)" buffer] by (simp add: min_def split: if_splits)
      ultimately show ?thesis
        using write_at_append [of "os_bytes s" "nat offset" "take m buffer"] by (simp add: t)
    qed
  qed
qed

lemma pread_loop_effect:
  assumes "preadExact_loop ign count sz offset buffer s = Some r" and "0 \<le> offset"
  shows "count \<le> fst r \<and> fst r \<le> count + sz \<and> os_bytes (snd (snd r)) = os_bytes s \<and>
    fst (snd r) = buffer @ slice (os_bytes s) (nat offset) (fst r - count) \<and>
    length (fst (snd r)) = length buffer + (fst r - count)"
  using assms
proof (induction rule: preadExact_loop.raw_induct [rotated, consumes 1, case_names step])
  case (step loop ign count sz offset buffer s r)
  show ?case
  proof (cases "count < sz")
    case False
    then show ?thesis
      using step.hyps by (auto simp: slice_def)
  next
    case True
    obtain q t where call: "sys_pread sz offset s = (q, t)"
      by (cases "sys_pread sz offset s")
    from call [unfolded sys_pread_def] show ?thesis
    proof (cases rule: sys_call_cases)
      case (refused e)
      then show ?thesis
        using step.hyps True call step.IH [of ign count sz offset buffer t r] step.prems
        by (auto simp: slice_def split: if_splits)
    next
      case (granted m)
      let ?data = "slice (os_bytes s) (nat offset) (min m sz)"
      have q: "q = Some ?data" and t: "os_bytes t = os_bytes s"
        using granted(3) by auto
      show ?thesis
      proof (cases "?data = []")
        case True
        then show ?thesis
          using step.hyps \<open>count < sz\<close> call q t by (auto simp: slice_def)
      next
        case False
        have k: "length ?data \<le> sz"
          by (simp add: slice_def)
        have "loop ign (count + length ?data) (sz - length ?data) (offset + int (length ?data)) (buffer @ ?data) t = Some r"
          using step.hyps \<open>count < sz\<close> call q False by simp
        from step.IH [OF this] step.prems
        have "count + length ?data \<le> fst r" "fst r \<le> count + length ?data + (sz - length ?data)"
          and "os_bytes (snd (snd r)) = os_bytes s"
          and "fst (snd r) = buffer @ ?data @ slice (os_bytes s) (nat offset + length ?data) (fst r - (count + length ?data))"
          and "length (fst (snd r)) = length buffer + length ?data + (fst r - (count + length ?data))"
          by (auto simp: t nat_add_distrib)
        moreover from this(1) have "length ?data + (fst r - (count + length ?data)) = fst r - count"
          by simp
        ultimately show ?thesis
          using k slice_append_slice [of "os_bytes s" "nat offset" "min m sz" "fst r - (count + length ?data)"] by simp
      qed
    qed
  qed
qed

section \<open>Returning\<close>

text \<open>The system does not interrupt every call from some point on.\<close>

definition fair :: "(nat \<Rightarrow> sys_answer) \<Rightarrow> bool" where
  "fair answers \<longleftrightarrow> (\<forall>t. \<exists>d. \<not> interrupts (answers (t + d)))"

lemma pwrite_loop_step:
  assumes "count < length buffer"
  obtains (again) e where "pwriteExact_loop ign count buffer offset s =
      pwriteExact_loop ign count buffer offset (s\<lparr>os_calls := Suc (os_calls s), os_errno := e\<rparr>)"
      and "interrupts (os_answers s (os_calls s))"
  | (stop) r where "pwriteExact_loop ign count buffer offset s = Some r"
  | (more) m t where "os_answers s (os_calls s) = Granted m" and "os_answers t = os_answers s"
      and "pwriteExact_loop ign count buffer offset s =
        pwriteExact_loop ign (count + length (take m buffer)) (drop (length (take m buffer)) buffer)
          (offset + int (length (take m buffer))) t"
proof -
  obtain q t where call: "sys_pwrite buffer offset s = (q, t)"
    by (cases "sys_pwrite buffer offset s")
  from call [unfolded sys_pwrite_def] show thesis
  proof (cases rule: sys_call_cases)
    case (refused e)
    show thesis
    proof (cases "e = EINTR \<and> ign")
      case True
      then show thesis
        using again [of e] refused call assms by (simp add: pwriteExact_loop.simps [of _ _ _ _ s])
    next
      case False
      then show thesis
        using stop refused(1) call assms by (auto simp: pwriteExact_loop.simps [of _ _ _ _ s])
    qed
  next
    case (granted m)
    then show thesis
      using more [of m t] call assms by (simp add: pwriteExact_loop.simps [of _ _ _ _ s] Let_def)
  qed
qed

lemma pwrite_loop_returns:
  assumes "fair (os_answers s)" and "\<forall>t. os_answers s t \<noteq> Granted 0"
  shows "\<exists>r. pwriteExact_loop ign count buffer offset s = Some r"
  using assms
proof (induction "length buffer" arbitrary: count buffer offset s rule: less_induct)
  case less
  from less.prems(1) obtain d where "\<not> interrupts (os_answers s (os_calls s + d))"
    by (auto simp: fair_def)
  then show ?case
    using less
  proof (induction d arbitrary: s)
    case 0
    show ?case
    proof (cases "count < length buffer")
      case True
      then show ?thesis
      proof (cases rule: pwrite_loop_step [of count buffer ign offset s])
        case (more m t)
        have shorter: "length (drop (length (take m buffer)) buffer) < length buffer"
          using True more(1) "0.prems"(4) by (cases m) (auto simp: min_def)
        show ?thesis
          using "0.prems"(2) [OF shorter] "0.prems"(3,4) more by simp
      qed (use 0 in auto)
    qed (simp add: pwriteExact_loop.simps)
  next
    case (Suc d)
    show ?case
    proof (cases "count < length buffer")
      case True
      then show ?thesis
      proof (cases rule: pwrite_loop_step [of count buffer ign offset s])
        case (again e)
        then show ?thesis
          using Suc.IH [of "s\<lparr>os_calls := Suc (os_calls s), os_errno := e\<rparr>"] Suc.prems by simp
      next
        case (more m t)
        have shorter: "length (drop (length (take m buffer)) buffer) < length buffer"
          using True more(1) Suc.prems(4) by (cases m) (auto simp: min_def)
        show ?thesis
          using Suc.prems(2) [OF shorter] Suc.prems(3,4) more by simp
      qed auto
    qed (simp add: pwriteExact_loop.simps)
  qed
qed

lemma pwrite_loop_whole:
  assumes "\<forall>i < d. interrupts (os_answers s (os_calls s + i))"
    and "os_answers s (os_calls s + d) = Granted m" and "length buffer \<le> m" and "0 \<le> offset"
  shows "\<exists>t. pwriteExact_loop True 0 buffer offset s = Some (length buffer, t)"
  using assms(1,2)
proof (induction d arbitrary: s)
  case 0
  then show ?case
    using assms(3,4)
    by (simp add: pwriteExact_loop.simps [of _ 0] pwriteExact_loop.simps [of _ "length buffer"]
        sys_pwrite_def sys_call_def)
next
  case (Suc d)
  let ?s = "s\<lparr>os_calls := Suc (os_calls s), os_errno := EINTR\<rparr>"
  have "interrupts (os_answers s (os_calls s))"
    using Suc.prems(1) by force
  then have "sys_pwrite buffer offset s = (None, ?s)"
    using assms(4) by (auto simp: sys_pwrite_def sys_call_def sys_fail_def interrupts_def Let_def)
  moreover have "\<forall>i < d. interrupts (os_answers ?s (os_calls ?s + i))"
    using Suc.prems(1) by auto
  ultimately show ?case
    using Suc.IH [of ?s] Suc.prems(2) by (auto simp: pwriteExact_loop.simps [of _ 0 _ _ s] pwriteExact_loop.simps [of _ 0 "[]"])
qed

section \<open>Properties\<close>

text \<open>C20: Whatever the system answers, a write that returns has stored exactly the announced number of
  bytes of the buffer at the offset and nothing else, and a read that returns delivers exactly the
  announced number of bytes of the file from the offset on.\<close>

theorem normal_file_transfers:
  assumes "NormalFile_write buffer woff F = Some (n, F1)"
    and "NormalFile_read sz roff F = Some (k, data, F2)" and "0 \<le> roff"
  shows "n \<le> length buffer \<and> os_bytes (nf_os F1) = write_at (os_bytes (nf_os F)) (nat woff) (take n buffer) \<and>
    k \<le> sz \<and> length data = k \<and> data = slice (os_bytes (nf_os F)) (nat roff) k \<and>
    os_bytes (nf_os F2) = os_bytes (nf_os F)"
proof -
  from assms(1) obtain s1 where "pwriteExact_loop True 0 buffer woff (nf_os F) = Some (n, s1)"
    and F1: "os_bytes (nf_os F1) = os_bytes s1"
    by (auto simp: NormalFile_write_def pwriteExact_def split: option.splits if_splits)
  moreover from assms(2) obtain s2 where "preadExact_loop True 0 sz roff [] (nf_os F) = Some (k, data, s2)"
    and F2: "os_bytes (nf_os F2) = os_bytes s2"
    by (auto simp: NormalFile_read_def preadExact_def split: option.splits if_splits)
  ultimately show ?thesis
    using pwrite_loop_effect pread_loop_effect [OF _ assms(3)] by (fastforce simp: F1 F2)
qed

definition sample_file :: NormalFile where
  "sample_file = \<lparr>nf_os = \<lparr>os_bytes = [1, 2, 3, 4], os_pos = 0, os_errno = 0, os_calls = 0,
    os_answers = (\<lambda>t. if t = 0 then Interrupted else Granted 1)\<rparr>, nf_lastError = 0\<rparr>"

theorem normal_file_transfers_witness:
  "\<exists>n F1 k data F2. NormalFile_write [9, 9] 1 sample_file = Some (n, F1) \<and>
    NormalFile_read 2 2 sample_file = Some (k, data, F2) \<and> n = 1 \<and> k = 1 \<and>
    os_bytes (nf_os F1) = [1, 9, 3, 4] \<and> data = [3]"
proof -
  let ?s = "\<lparr>os_bytes = [1, 2, 3, 4], os_pos = 0, os_errno = EINTR, os_calls = 2,
    os_answers = (\<lambda>t. if t = 0 then Interrupted else Granted 1)\<rparr>"
  obtain F1 where w: "NormalFile_write [9, 9] 1 sample_file = Some (1, F1)"
    by (simp add: NormalFile_write_def pwriteExact_def sample_file_def pwriteExact_loop.simps
        sys_pwrite_def sys_call_def sys_fail_def)
  obtain data F2 where r: "NormalFile_read 2 2 sample_file = Some (1, data, F2)"
    by (simp add: NormalFile_read_def preadExact_def sample_file_def preadExact_loop.simps
        sys_pread_def sys_call_def sys_fail_def slice_def)
  show ?thesis
    using normal_file_transfers [OF w r] w r
    by (simp add: sample_file_def write_at_def splice_def slice_def)
qed



text \<open>C37: When a call transfers at least half of the buffer but not all of it, the loop of the exact
  write ends: the caller gets a short count although no call has failed.\<close>

theorem short_transfer_stops:
  assumes "os_answers (nf_os F) (os_calls (nf_os F)) = Granted m" and "0 \<le> offset"
    and "m < length buffer" and "length buffer \<le> 2 * m"
  shows "\<exists>F'. NormalFile_write buffer offset F = Some (m, F') \<and> nf_lastError F' = os_errno (nf_os F)"
  using assms
  by (auto simp: NormalFile_write_def pwriteExact_def pwriteExact_loop.simps [of _ 0]
      pwriteExact_loop.simps [of _ m] sys_pwrite_def sys_call_def min_def Let_def)

theorem short_transfer_stops_witness:
  "let F = sample_file\<lparr>nf_os := (nf_os sample_file)\<lparr>os_calls := 1\<rparr>\<rparr> in
    \<exists>F'. NormalFile_write [9, 9] 0 F = Some (1, F') \<and> nf_lastError F' = 0"
  using short_transfer_stops [of "sample_file\<lparr>nf_os := (nf_os sample_file)\<lparr>os_calls := 1\<rparr>\<rparr>" 1 0 "[9, 9]"]
  by (simp add: sample_file_def)

end
