(* ===== verification/EngineCaches.thy ===== *)
theory EngineCaches
  imports LruCache FileIO
begin

text \<open>
  The caches of the storage engine: which entries they let go, and what they do before.

  The caches of data blocks, column sets and column definitions keep every object that someone else
  still holds. The cache of B+ tree nodes keeps modified nodes; when all of them are modified it
  writes them to the index file and tries again. The index file is used through an interface, which
  the plain file implements.
\<close>

section \<open>Caches of shared objects\<close>

text \<open>The state of the program is the reference count of every object.\<close>

type_synonym ('p, 'e) shared_cache = "(uint64, 'p, 'p \<Rightarrow> nat, 'e) lru_hooks"

definition ColumnDataBlockCache_can_evict :: "('p \<Rightarrow> nat) \<Rightarrow> uint64 \<Rightarrow> 'p \<Rightarrow> bool" where
  "ColumnDataBlockCache_can_evict use_count key v \<longleftrightarrow> use_count v = 1"

definition ColumnDataBlockCache_on_evict :: "uint64 \<Rightarrow> 'p \<Rightarrow> bool \<Rightarrow> ('p \<Rightarrow> nat) \<Rightarrow> ('e + unit) \<times> ('p \<Rightarrow> nat)" where
  "ColumnDataBlockCache_on_evict key v clearingCache use_count = (Inr (), use_count)"

definition ColumnDataBlockCache :: "('p, 'e) shared_cache" where
  "ColumnDataBlockCache = base_hooks\<lparr>can_evict := ColumnDataBlockCache_can_evict,
    on_evict := ColumnDataBlockCache_on_evict\<rparr>"

definition ColumnSetCache_can_evict :: "('p \<Rightarrow> nat) \<Rightarrow> uint64 \<Rightarrow> 'p \<Rightarrow> bool" where
  "ColumnSetCache_can_evict use_count key v \<longleftrightarrow> use_count v = 1"

definition ColumnSetCache :: "('p, 'e) shared_cache" where
  "ColumnSetCache = base_hooks\<lparr>can_evict := ColumnSetCache_can_evict\<rparr>"

definition ColumnDefinitionCache_can_evict :: "('p \<Rightarrow> nat) \<Rightarrow> uint64 \<Rightarrow> 'p \<Rightarrow> bool" where
  "ColumnDefinitionCache_can_evict use_count key v \<longleftrightarrow> use_count v = 1"

definition ColumnDefinitionCache :: "('p, 'e) shared_cache" where
  "ColumnDefinitionCache = base_hooks\<lparr>can_evict := ColumnDefinitionCache_can_evict\<rparr>"

section \<open>Cache of tree nodes\<close>

definition kNodeSize :: nat where "kNodeSize = 8 * 1024"
definition kNodeCacheCapacity :: nat where "kNodeCacheCapacity = 16"

text \<open>A node as far as the cache knows it. Nodes are shared objects; the state of the program maps
  their addresses to them and holds the index file.\<close>

record Node =
  nd_data :: bytes
  nd_modified :: bool

record 'f node_world =
  nw_nodes :: "nat \<Rightarrow> Node"
  nw_file :: 'f

datatype node_error = EvictModifiedNode | CannotWriteIndexFile

text \<open>The offset is an unsigned product converted to the signed \<open>off_t\<close>.\<close>

definition Node_getOffset :: "uint64 \<Rightarrow> int" where
  "Node_getOffset nodeId = sint (nodeId * of_nat kNodeSize)"

definition NodeCache_can_evict :: "'f node_world \<Rightarrow> uint64 \<Rightarrow> nat \<Rightarrow> bool" where
  "NodeCache_can_evict w key v \<longleftrightarrow> \<not> nd_modified (nw_nodes w v)"

definition NodeCache_on_evict :: "uint64 \<Rightarrow> nat \<Rightarrow> bool \<Rightarrow> 'f node_world \<Rightarrow> (node_error + unit) \<times> 'f node_world" where
  "NodeCache_on_evict key v clearingCache w =
    (if nd_modified (nw_nodes w v) then Inl EvictModifiedNode else Inr (), w)"

definition set_saved :: "nat \<Rightarrow> 'f node_world \<Rightarrow> 'f node_world" where
  "set_saved v w = w\<lparr>nw_nodes := (nw_nodes w)(v := (nw_nodes w v)\<lparr>nd_modified := False\<rparr>)\<rparr>"

text \<open>The loop of the cleanup over the entries of the map; it returns the number of saved nodes.\<close>

fun save_nodes :: "(bytes \<Rightarrow> int \<Rightarrow> 'f \<Rightarrow> (nat \<times> 'f) option) \<Rightarrow> (uint64 \<times> nat \<times> nat) list \<Rightarrow> nat \<Rightarrow>
    'f node_world \<Rightarrow> ((node_error + nat) \<times> 'f node_world) option" where
  "save_nodes wr [] savedCount w = Some (Inr savedCount, w)"
| "save_nodes wr ((k, v, it) # es) savedCount w =
    (if \<not> nd_modified (nw_nodes w v) then save_nodes wr es savedCount w
     else case wr (nd_data (nw_nodes w v)) (Node_getOffset k) (nw_file w) of
         None \<Rightarrow> None
       | Some (n, f) \<Rightarrow>
           let w' = w\<lparr>nw_file := f\<rparr> in
           if n \<noteq> kNodeSize then Some (Inl CannotWriteIndexFile, w')
           else save_nodes wr es (Suc savedCount) (set_saved v w'))"

definition NodeCache_on_last_chance_cleanup :: "(bytes \<Rightarrow> int \<Rightarrow> 'f \<Rightarrow> (nat \<times> 'f) option) \<Rightarrow>
    (uint64 \<times> nat \<times> nat) list \<Rightarrow> 'f node_world \<Rightarrow> ((node_error + bool) \<times> 'f node_world) option" where
  "NodeCache_on_last_chance_cleanup wr entries w =
    map_option (\<lambda>(r, w'). (map_sum id (\<lambda>n. 0 < n) r, w')) (save_nodes wr entries 0 w)"

definition NodeCache :: "(bytes \<Rightarrow> int \<Rightarrow> 'f \<Rightarrow> (nat \<times> 'f) option) \<Rightarrow>
    (uint64, nat, 'f node_world, node_error) lru_hooks" where
  "NodeCache wr = \<lparr>can_evict = NodeCache_can_evict, on_evict = NodeCache_on_evict,
    on_last_chance_cleanup = NodeCache_on_last_chance_cleanup wr\<rparr>"

text \<open>\<open>flush\<close> clears the flag of every modified node.\<close>

definition clear_flag :: "uint64 \<times> nat \<times> nat \<Rightarrow> 'f node_world \<Rightarrow> 'f node_world" where
  "clear_flag e w = (if nd_modified (nw_nodes w (fst (snd e))) then set_saved (fst (snd e)) w else w)"

definition NodeCache_flush :: "(uint64, nat) lru_cache \<Rightarrow> 'f node_world \<Rightarrow> 'f node_world" where
  "NodeCache_flush c w = fold clear_flag (m_map c) w"

section \<open>Objects in use stay\<close>

context quiet_hooks
begin

lemma victim_None:
  "victim H w es = None \<longleftrightarrow> (\<forall>e \<in> set es. \<not> can_evict H w (fst e) (snd e))"
  by (force simp: victim_def find_None_iff)

lemma victim_Some:
  assumes "victim H w es = Some e"
  shows "e \<in> set es" and "can_evict H w (fst e) (snd e)"
proof -
  obtain i where "i < length (rev es)" "e = rev es ! i" "can_evict H w (fst e) (snd e)"
    using assms unfolding victim_def find_Some_iff by (auto simp: split_def)
  then show "e \<in> set es" and "can_evict H w (fst e) (snd e)"
    using nth_mem [of i "rev es"] by simp_all
qed

lemma emplace_keeps:
  assumes "lru_ok c"
  obtains r c' where "lru_emplace H k v replace c w = Some (r, c', w)" and "lru_ok c'"
    and "\<forall>e \<in> set (lru_entries c). fst e \<noteq> k \<and> \<not> can_evict H w (fst e) (snd e) \<longrightarrow> e \<in> set (lru_entries c')"
    and "r = Inl LruCacheFull \<longleftrightarrow> map_of (lru_entries c) k = None \<and> m_capacity c \<le> lru_size c \<and>
      (\<forall>e \<in> set (lru_entries c). \<not> can_evict H w (fst e) (snd e))"
    and "r \<noteq> Inl LruCacheFull \<Longrightarrow> map_of (lru_entries c') k \<noteq> None"
proof -
  obtain r c' where run: "lru_emplace H k v replace c w = Some (r, c', w)" "lru_ok c'"
    and step: "recency_step (victim H w) (Emplace k v replace) (m_capacity c, lru_entries c) =
      (Placed r, m_capacity c', lru_entries c')"
    by (rule emplace_refines [OF assms])
  consider (present) "map_of (lru_entries c) k \<noteq> None" | (room) "map_of (lru_entries c) k = None" "length (lru_entries c) < m_capacity c"
    | (full) "map_of (lru_entries c) k = None" "m_capacity c \<le> length (lru_entries c)"
    by linarith
  then show thesis
  proof cases
    case present
    then have r: "r = Inr False" and es: "lru_entries c' =
        (if replace then map (\<lambda>e. if fst e = k then (k, v) else e) (lru_entries c) else lru_entries c)"
      using step by (auto simp: recency_step_def)
    have "map fst (map (\<lambda>e. if fst e = k then (k, v) else e) xs) = map fst xs" for xs
      by (induction xs) auto
    then have "map fst (lru_entries c') = map fst (lru_entries c)"
      using es by (simp del: map_map)
    then have "map_of (lru_entries c') k \<noteq> None"
      using present by (metis map_of_eq_None_iff set_map)
    then show thesis
      using that [OF run] present by (force simp: r es)
  next
    case room
    then have "r = Inr True" and "lru_entries c' = (k, v) # lru_entries c"
      using step by (auto simp: recency_step_def)
    then show thesis
      using that [OF run] room length_entries [OF assms] by (simp add: lru_size_def)
  next
    case full
    show thesis
    proof (cases "victim H w (lru_entries c)")
      case None
      then have "r = Inl LruCacheFull" and "lru_entries c' = lru_entries c"
        using step full by (auto simp: recency_step_def)
      then show thesis
        using that [OF run] full None length_entries [OF assms] victim_None by (simp add: lru_size_def)
    next
      case (Some e)
      then have r: "r = Inr True" and es: "lru_entries c' = (k, v) # without (fst e) (lru_entries c)"
        using step full by (auto simp: recency_step_def)
      have "x \<in> set (lru_entries c')" if "x \<in> set (lru_entries c)" "\<not> can_evict H w (fst x) (snd x)" for x
      proof -
        have "fst x \<noteq> fst e"
          using that victim_Some [OF Some] distinct_keys [OF assms]
          by (metis keys_of_entries distinct_map inj_onD)
        then show ?thesis
          using that(1) by (simp add: es without_def)
      qed
      then show thesis
        using that [OF run] victim_Some [OF Some] by (auto simp: r es)
    qed
  qed
qed

end

interpretation blocks: quiet_hooks ColumnDataBlockCache
  by unfold_locales (simp_all add: ColumnDataBlockCache_def base_hooks_def ColumnDataBlockCache_on_evict_def)

interpretation column_sets: quiet_hooks ColumnSetCache
  by unfold_locales (simp_all add: ColumnSetCache_def base_hooks_def)

interpretation column_definitions: quiet_hooks ColumnDefinitionCache
  by unfold_locales (simp_all add: ColumnDefinitionCache_def base_hooks_def)

lemma shared_can_evict:
  "can_evict ColumnDataBlockCache w k v \<longleftrightarrow> w v = 1"
  "can_evict ColumnSetCache w k v \<longleftrightarrow> w v = 1"
  "can_evict ColumnDefinitionCache w k v \<longleftrightarrow> w v = 1"
  by (simp_all add: ColumnDataBlockCache_def ColumnSetCache_def ColumnDefinitionCache_def
      ColumnDataBlockCache_can_evict_def ColumnSetCache_can_evict_def ColumnDefinitionCache_can_evict_def)

text \<open>C31: Inserting into a cache of shared objects returns, never drops an object that is in use
  elsewhere, and fails exactly when the key is new, the cache is full and every cached object is in
  use.\<close>

theorem shared_caches_keep_used:
  fixes H :: "('p, 'e) shared_cache"
  assumes "lru_ok c" and "H = ColumnDataBlockCache \<or> H = ColumnSetCache \<or> H = ColumnDefinitionCache"
  shows "\<exists>r c'. lru_emplace H k v replace c use_count = Some (r, c', use_count) \<and> lru_ok c' \<and>
    (\<forall>e \<in> set (lru_entries c). fst e \<noteq> k \<and> use_count (snd e) \<noteq> 1 \<longrightarrow> e \<in> set (lru_entries c')) \<and>
    (r = Inl LruCacheFull \<longleftrightarrow> map_of (lru_entries c) k = None \<and> m_capacity c \<le> lru_size c \<and>
      (\<forall>e \<in> set (lru_entries c). use_count (snd e) \<noteq> 1)) \<and>
    (r \<noteq> Inl LruCacheFull \<longrightarrow> map_of (lru_entries c') k \<noteq> None)"
proof -
  have "quiet_hooks H" and can: "can_evict H w x y \<longleftrightarrow> w y = 1" for w x y
    using assms(2) blocks.quiet_hooks_axioms column_sets.quiet_hooks_axioms column_definitions.quiet_hooks_axioms
    by (auto simp: shared_can_evict)
  show ?thesis
    by (rule quiet_hooks.emplace_keeps [OF \<open>quiet_hooks H\<close> assms(1), of k v replace use_count])
      (auto simp: can)
qed

definition sample_blocks :: "(uint64, nat) lru_cache" where
  "sample_blocks = lru_push 2 20 (lru_push 1 10 (lru_new 2))"

theorem shared_caches_keep_used_witness:
  "\<exists>r c'. lru_emplace (ColumnDataBlockCache :: (nat, unit) shared_cache) 3 30 False sample_blocks
      (\<lambda>v. if v = 10 then 2 else 1) = Some (r, c', \<lambda>v. if v = 10 then 2 else 1) \<and>
    (1, 10) \<in> set (lru_entries c') \<and> r \<noteq> Inl LruCacheFull"
proof -
  have sample: "lru_ok sample_blocks" "lru_entries sample_blocks = [(2, 20), (1, 10)]"
    by (auto simp: sample_blocks_def lru_push_def lru_new_def lru_ok_def lru_entries_def)
  show ?thesis
    using shared_caches_keep_used [OF sample(1), of "ColumnDataBlockCache :: (nat, unit) shared_cache" 3 30 False
        "\<lambda>v. if v = 10 then 2 else 1"]
    by (auto simp: sample(2))
qed

section \<open>Nodes are not lost\<close>

text \<open>Small node identifiers have their own places in the file.\<close>

lemma Node_getOffset_small:
  assumes "unat k < 2 ^ 50"
  shows "Node_getOffset k = int (unat k * kNodeSize)"
proof -
  have "unat k * kNodeSize < 2 ^ 63"
    using assms by (simp add: kNodeSize_def)
  then have "unat (k * of_nat kNodeSize) = unat k * kNodeSize"
    by (simp add: unat_word_ariths kNodeSize_def)
  then have u: "uint (k * of_nat kNodeSize) = int (unat k * kNodeSize)"
    unfolding uint_nat by simp
  have "int (unat k * kNodeSize) < 2 ^ 63"
    using assms by (simp add: kNodeSize_def del: of_nat_mult)
  moreover have "- (2 ^ 63) \<le> int (unat k * kNodeSize)"
    by (rule order_trans [of _ 0]) (simp_all del: of_nat_mult)
  ultimately show ?thesis
    unfolding Node_getOffset_def sint_uint u by (simp add: signed_take_bit_int_eq_self del: of_nat_mult)
qed

lemma slice_write_at_other:
  assumes "off + n \<le> length bs" and "off + n \<le> pos \<or> pos + length data \<le> off"
  shows "slice (write_at bs pos data) off n = slice bs off n"
proof (cases "off + n \<le> pos")
  case True
  have "take (off + n) (splice (bs @ replicate (pos - length bs) 0) pos data) = take (off + n) bs"
    using True assms(1) by (simp add: splice_def min_def)
  then show ?thesis
    by (metis write_at_def drop_take diff_add_inverse slice_def)
next
  case False
  then show ?thesis
    using assms by (auto simp: write_at_def slice_splice_after)
qed

lemma node_places:
  assumes "j \<noteq> k" and "unat j < 2 ^ 50" and "unat k < 2 ^ 50"
  shows "nat (Node_getOffset j) + kNodeSize \<le> nat (Node_getOffset k) \<or>
    nat (Node_getOffset k) + kNodeSize \<le> nat (Node_getOffset j)"
proof -
  have "unat j < unat k \<or> unat k < unat j"
    using assms(1) by (simp add: linorder_neq_iff word_unat_eq_iff)
  then have "Suc (unat j) * kNodeSize \<le> unat k * kNodeSize \<or> Suc (unat k) * kNodeSize \<le> unat j * kNodeSize"
    by (metis Suc_leI mult_le_mono1)
  moreover have "nat (Node_getOffset i) = unat i * kNodeSize" if "unat i < 2 ^ 50" for i
    unfolding Node_getOffset_small [OF that] by (rule nat_int)
  ultimately show ?thesis
    using assms(2,3) by (simp add: add.commute)
qed

lemma map_entries:
  assumes "lru_ok c"
  shows "(k, v) \<in> set (lru_entries c) \<longleftrightarrow> (\<exists>it. (k, v, it) \<in> set (m_map c))"
proof -
  have "(k, v) \<in> set (lru_entries c) \<longleftrightarrow> map_of (lru_entries c) k = Some v"
    using distinct_keys [OF assms] by (simp add: map_of_eq_Some_iff)
  moreover have "(k, v, it) \<in> set (m_map c) \<longleftrightarrow> map_of (m_map c) k = Some (v, it)" for it
    using assms by (simp add: map_of_eq_Some_iff lru_ok_def)
  ultimately show ?thesis
    by (auto simp: entries_lookup [OF assms])
qed

text \<open>A node is in the file; and the invariant of a list of cached nodes: distinct nodes of the right
  size, and every node that is not modified is in the file.\<close>

definition node_stored :: "bytes \<Rightarrow> uint64 \<Rightarrow> bytes \<Rightarrow> bool" where
  "node_stored bs k data \<longleftrightarrow> length data = kNodeSize \<and> slice bs (nat (Node_getOffset k)) kNodeSize = data"

definition nodes_synced :: "('f \<Rightarrow> bytes) \<Rightarrow> (uint64 \<times> nat) list \<Rightarrow> 'f node_world \<Rightarrow> bool" where
  "nodes_synced contents es w \<longleftrightarrow> distinct (map fst es) \<and> distinct (map snd es) \<and>
    (\<forall>(k, v) \<in> set es. unat k < 2 ^ 50 \<and> length (nd_data (nw_nodes w v)) = kNodeSize \<and>
      (\<not> nd_modified (nw_nodes w v) \<longrightarrow> node_stored (contents (nw_file w)) k (nd_data (nw_nodes w v))))"

lemma node_victim:
  assumes "lru_ok c" and "victim (NodeCache wr) w (lru_entries c) = Some e"
  shows "evict (NodeCache wr) c w = Some (Inr (), snd (lru_erase (fst e) c), w)"
    and "e \<in> set (lru_entries c)" and "\<not> nd_modified (nw_nodes w (snd e))"
proof -
  obtain i where "i < length (rev (lru_entries c))" "e = rev (lru_entries c) ! i"
    and free: "\<not> nd_modified (nw_nodes w (snd e))"
    using assms(2) unfolding victim_def find_Some_iff
    by (auto simp: split_def NodeCache_def NodeCache_can_evict_def)
  then show "e \<in> set (lru_entries c)" and "\<not> nd_modified (nw_nodes w (snd e))"
    using nth_mem [of i "rev (lru_entries c)"] by simp_all
  show "evict (NodeCache wr) c w = Some (Inr (), snd (lru_erase (fst e) c), w)"
    using free by (simp add: evict_round [OF assms(1)] assms(2) split_def)
      (simp add: NodeCache_def NodeCache_on_evict_def)
qed

lemma no_node_victim:
  "victim (NodeCache wr) w es = None \<longleftrightarrow> (\<forall>e \<in> set es. nd_modified (nw_nodes w (snd e)))"
  by (force simp: victim_def find_None_iff NodeCache_def NodeCache_can_evict_def)

text \<open>What the cache needs of the file: a write stores the bytes it announces, and a reliable file
  accepts a whole node.\<close>

locale index_file =
  fixes wr :: "bytes \<Rightarrow> int \<Rightarrow> 'f \<Rightarrow> (nat \<times> 'f) option"
    and contents :: "'f \<Rightarrow> bytes"
    and reliable :: "'f \<Rightarrow> bool"
  assumes write_stores: "wr data off f = Some (n, f') \<Longrightarrow>
      contents f' = write_at (contents f) (nat off) (take n data)"
    and write_reliable: "reliable f \<Longrightarrow> 0 \<le> off \<Longrightarrow> length data \<le> kNodeSize \<Longrightarrow>
      \<exists>f'. wr data off f = Some (length data, f') \<and> reliable f'"
begin

abbreviation stored :: "'f \<Rightarrow> uint64 \<Rightarrow> bytes \<Rightarrow> bool" where
  "stored f \<equiv> node_stored (contents f)"

abbreviation synced :: "(uint64 \<times> nat) list \<Rightarrow> 'f node_world \<Rightarrow> bool" where
  "synced \<equiv> nodes_synced contents"

lemma stored_other:
  assumes "wr data (Node_getOffset j) f = Some (n, f')" and "stored f k d" and "j \<noteq> k"
    and "unat j < 2 ^ 50" and "unat k < 2 ^ 50" and "length data = kNodeSize"
  shows "stored f' k d"
proof -
  have len: "nat (Node_getOffset k) + kNodeSize \<le> length (contents f)"
    using assms(2) by (auto simp: node_stored_def slice_def min_def kNodeSize_def split: if_splits)
  have "slice (contents f') (nat (Node_getOffset k)) kNodeSize = slice (contents f) (nat (Node_getOffset k)) kNodeSize"
    unfolding write_stores [OF assms(1)]
    using node_places [OF assms(3-5)] assms(6) by (intro slice_write_at_other [OF len]) (auto simp: min_def)
  then show ?thesis
    using assms(2) by (simp add: node_stored_def)
qed

lemma stored_new:
  assumes "wr data (Node_getOffset k) f = Some (kNodeSize, f')" and "length data = kNodeSize"
  shows "stored f' k data"
  using assms slice_write_at [of "contents f" "nat (Node_getOffset k)" data]
  by (simp add: node_stored_def write_stores [OF assms(1)])

text \<open>A write of a node keeps the invariant, and a whole write allows clearing its flag.\<close>

lemma synced_write:
  assumes "synced es w" and "(k, v) \<in> set es" and "nd_modified (nw_nodes w v)"
    and "wr (nd_data (nw_nodes w v)) (Node_getOffset k) (nw_file w) = Some (n, f)"
  shows "synced es (w\<lparr>nw_file := f\<rparr>)"
    and "n = kNodeSize \<Longrightarrow> synced es (set_saved v (w\<lparr>nw_file := f\<rparr>))"
proof -
  have node: "unat k < 2 ^ 50" "length (nd_data (nw_nodes w v)) = kNodeSize"
    using assms(1,2) by (auto simp: nodes_synced_def)
  have other: "stored f j (nd_data (nw_nodes w u))"
    if "(j, u) \<in> set es" "\<not> nd_modified (nw_nodes w u)" for j u
  proof (rule stored_other [OF assms(4) _ _ node(1) _ node(2)])
    show "stored (nw_file w) j (nd_data (nw_nodes w u))" and "unat j < 2 ^ 50"
      using assms(1) that by (auto simp: nodes_synced_def)
    have "u \<noteq> v"
      using that(2) assms(3) by blast
    then show "k \<noteq> j"
      using assms(1,2) that(1) by (auto simp: nodes_synced_def dest: eq_key_imp_eq_value)
  qed
  then show "synced es (w\<lparr>nw_file := f\<rparr>)"
    using assms(1) unfolding nodes_synced_def by fastforce
  show "synced es (set_saved v (w\<lparr>nw_file := f\<rparr>))" if "n = kNodeSize"
  proof -
    have "stored f k (nd_data (nw_nodes w v))"
      using stored_new assms(4) that node(2) by blast
    moreover have "j = k" if "(j, v) \<in> set es" for j
      using assms(1,2) that inj_onD [of snd "set es" "(j, v)" "(k, v)"] by (auto simp: nodes_synced_def distinct_map)
    ultimately show ?thesis
      using assms(1) other unfolding nodes_synced_def set_saved_def by fastforce
  qed
qed

text \<open>The cleanup keeps the invariant and all data; when it succeeds no node is modified any more.\<close>

lemma save_synced:
  assumes "save_nodes wr ms n w = Some (r, w')" and "synced es w"
    and "\<forall>(k, v, it) \<in> set ms. (k, v) \<in> set es"
  shows "synced es w'" and "nd_data (nw_nodes w' v) = nd_data (nw_nodes w v)"
    and "r = Inr m \<Longrightarrow> n \<le> m \<and> (m = n \<longrightarrow> (\<forall>(k, v, it) \<in> set ms. \<not> nd_modified (nw_nodes w v))) \<and>
      (\<forall>(k, v, it) \<in> set ms. \<not> nd_modified (nw_nodes w' v))"
    and "nd_modified (nw_nodes w' v) \<Longrightarrow> nd_modified (nw_nodes w v)"
proof -
  have "synced es w' \<and> (\<forall>v. nd_data (nw_nodes w' v) = nd_data (nw_nodes w v)) \<and>
    (\<forall>m. r = Inr m \<longrightarrow> n \<le> m \<and> (m = n \<longrightarrow> (\<forall>(k, v, it) \<in> set ms. \<not> nd_modified (nw_nodes w v))) \<and>
      (\<forall>(k, v, it) \<in> set ms. \<not> nd_modified (nw_nodes w' v))) \<and>
    (\<forall>v. nd_modified (nw_nodes w' v) \<longrightarrow> nd_modified (nw_nodes w v))"
    using assms
  proof (induction ms arbitrary: n w)
    case (Cons e ms)
    obtain k v it where e: "e = (k, v, it)"
      by (cases e)
    have ms: "\<forall>(k, v, it) \<in> set ms. (k, v) \<in> set es" and kv: "(k, v) \<in> set es"
      using Cons.prems(3) by (auto simp: e)
    show ?case
    proof (cases "nd_modified (nw_nodes w v)")
      case False
      then have "save_nodes wr ms n w = Some (r, w')"
        using Cons.prems(1) by (simp add: e)
      from Cons.IH [OF this Cons.prems(2) ms] show ?thesis
        using False by (auto simp: e)
    next
      case True
      then obtain l f where w: "wr (nd_data (nw_nodes w v)) (Node_getOffset k) (nw_file w) = Some (l, f)"
        using Cons.prems(1) by (auto simp: e split: option.splits)
      note written = synced_write [OF Cons.prems(2) kv True w]
      show ?thesis
      proof (cases "l = kNodeSize")
        case False
        then show ?thesis
          using Cons.prems(1) written(1) True w by (auto simp: e Let_def)
      next
        case whole: True
        let ?w = "set_saved v (w\<lparr>nw_file := f\<rparr>)"
        have saved: "nd_data (nw_nodes ?w u) = nd_data (nw_nodes w u)"
          "nd_modified (nw_nodes ?w u) \<longleftrightarrow> nd_modified (nw_nodes w u) \<and> u \<noteq> v" for u
          by (auto simp: set_saved_def)
        have "save_nodes wr ms (Suc n) ?w = Some (r, w')"
          using Cons.prems(1) True w whole by (simp add: e Let_def)
        from Cons.IH [OF this written(2) [OF whole] ms] show ?thesis
          unfolding saved by (auto simp: e)
      qed
    qed
  qed auto
  then show "synced es w'" and "nd_data (nw_nodes w' v) = nd_data (nw_nodes w v)"
    and "r = Inr m \<Longrightarrow> n \<le> m \<and> (m = n \<longrightarrow> (\<forall>(k, v, it) \<in> set ms. \<not> nd_modified (nw_nodes w v))) \<and>
      (\<forall>(k, v, it) \<in> set ms. \<not> nd_modified (nw_nodes w' v))"
    and "nd_modified (nw_nodes w' v) \<Longrightarrow> nd_modified (nw_nodes w v)"
    by blast+
qed

text \<open>What an operation of the cache guarantees: the invariant, unchanged data, and that a node leaves
  the cache only when it is in the file.\<close>

definition kept :: "(uint64, nat) lru_cache \<Rightarrow> 'f node_world \<Rightarrow> (uint64, nat) lru_cache \<Rightarrow> 'f node_world \<Rightarrow> bool" where
  "kept c w c' w' \<longleftrightarrow> lru_ok c' \<and> synced (lru_entries c') w' \<and> set (lru_entries c') \<subseteq> set (lru_entries c) \<and>
    (\<forall>v. nd_data (nw_nodes w' v) = nd_data (nw_nodes w v)) \<and>
    (\<forall>(k, v) \<in> set (lru_entries c). (k, v) \<in> set (lru_entries c') \<or> stored (nw_file w') k (nd_data (nw_nodes w v)))"

lemma kept_erase:
  assumes "lru_ok c" and "synced (lru_entries c) w" and "e \<in> set (lru_entries c)"
    and "\<not> nd_modified (nw_nodes w (snd e))"
  shows "kept c w (snd (lru_erase (fst e) c)) w"
proof -
  let ?es = "without (fst e) (lru_entries c)"
  have es: "lru_entries (snd (lru_erase (fst e) c)) = ?es"
    by (rule lru_erase_ok(3) [OF assms(1)])
  have subset: "set ?es \<subseteq> set (lru_entries c)"
    by (auto simp: without_def)
  moreover have "distinct (map fst ?es)" "distinct (map snd ?es)"
    using assms(2) by (auto simp: without_def nodes_synced_def distinct_map_filter)
  ultimately have "synced ?es w"
    using assms(2) unfolding nodes_synced_def by fast
  moreover have "x = e" if "x \<in> set (lru_entries c)" "x \<notin> set ?es" for x
    using that assms(2,3) inj_onD [of fst "set (lru_entries c)" x e]
    by (auto simp: without_def nodes_synced_def distinct_map simp del: keys_of_entries)
  moreover have "stored (nw_file w) (fst e) (nd_data (nw_nodes w (snd e)))"
    using assms(2-4) by (auto simp: nodes_synced_def)
  ultimately show ?thesis
    using subset lru_erase_ok(2) [OF assms(1)] unfolding kept_def es by fastforce
qed

lemma kept_save:
  assumes "lru_ok c" and "synced (lru_entries c) w" and "save_nodes wr (m_map c) n w = Some (r, w')"
  shows "kept c w c w'"
proof -
  have "\<forall>(k, v, it) \<in> set (m_map c). (k, v) \<in> set (lru_entries c)"
    using map_entries [OF assms(1)] by auto
  from save_synced [OF assms(3,2) this] show ?thesis
    using assms(1) by (auto simp: kept_def)
qed

lemma cleanup_complete:
  assumes "lru_ok c" and "synced (lru_entries c) w" and "save_nodes wr (m_map c) 0 w = Some (Inr n, w')" and "0 < n"
  obtains e where "victim (NodeCache wr) w' (lru_entries c) = Some e"
proof -
  have "\<forall>(k, v, it) \<in> set (m_map c). (k, v) \<in> set (lru_entries c)"
    using map_entries [OF assms(1)] by auto
  from save_synced(3) [OF assms(3,2) this]
  have "\<forall>(k, v, it) \<in> set (m_map c). \<not> nd_modified (nw_nodes w' v)"
    by blast
  moreover have "m_map c \<noteq> []"
    using assms(3,4) by auto
  ultimately obtain k v where "(k, v) \<in> set (lru_entries c)" "\<not> nd_modified (nw_nodes w' v)"
    using map_entries [OF assms(1)] by (cases "m_map c") auto
  then have "victim (NodeCache wr) w' (lru_entries c) \<noteq> None"
    unfolding no_node_victim by fastforce
  then show thesis
    using that by blast
qed

lemma evict_unsaved:
  assumes "lru_ok c" and "victim (NodeCache wr) w (lru_entries c) = None"
  shows "evict (NodeCache wr) c w = (case save_nodes wr (m_map c) 0 w of
      None \<Rightarrow> None
    | Some (Inl e, w') \<Rightarrow> Some (Inl (HookError e), c, w')
    | Some (Inr n, w') \<Rightarrow> if 0 < n then evict (NodeCache wr) c w' else Some (Inl LruCacheFull, c, w'))"
proof -
  have "on_last_chance_cleanup (NodeCache wr) = NodeCache_on_last_chance_cleanup wr"
    by (simp add: NodeCache_def)
  then show ?thesis
    by (subst evict_round [OF assms(1)])
      (simp add: assms(2) NodeCache_on_last_chance_cleanup_def split: option.split sum.split)
qed

lemma evict_kept:
  assumes "lru_ok c" and "synced (lru_entries c) w" and "evict (NodeCache wr) c w = Some (r, c', w')"
  shows "kept c w c' w'"
proof (cases "victim (NodeCache wr) w (lru_entries c)")
  case (Some e)
  then show ?thesis
    using node_victim [OF assms(1) Some] kept_erase [OF assms(1,2)] assms(3) by auto
next
  case None
  then obtain q t where save: "save_nodes wr (m_map c) 0 w = Some (q, t)"
    using assms(3) by (auto simp: evict_unsaved [OF assms(1) None] split: option.splits)
  have kept: "kept c w c t"
    by (rule kept_save [OF assms(1,2) save])
  show ?thesis
  proof (cases "\<exists>n. q = Inr n \<and> 0 < n")
    case False
    then show ?thesis
      using assms(3) kept by (auto simp: evict_unsaved [OF assms(1) None] save split: sum.splits)
  next
    case True
    then obtain n where n: "q = Inr n" "0 < n"
      by blast
    obtain e where e: "victim (NodeCache wr) t (lru_entries c) = Some e"
      using cleanup_complete [OF assms(1,2)] save n by blast
    have "kept c t (snd (lru_erase (fst e) c)) t"
      using kept node_victim [OF assms(1) e] by (intro kept_erase assms(1)) (auto simp: kept_def)
    moreover have "c' = snd (lru_erase (fst e) c)" "w' = t"
      using assms(3) node_victim(1) [OF assms(1) e] by (simp_all add: evict_unsaved [OF assms(1) None] save n)
    ultimately show ?thesis
      using kept by (auto simp: kept_def)
  qed
qed

text \<open>With a reliable file the cleanup saves every node.\<close>

lemma save_reliable:
  assumes "reliable (nw_file w)" and "\<forall>(k, v, it) \<in> set ms. unat k < 2 ^ 50 \<and> length (nd_data (nw_nodes w v)) = kNodeSize"
  shows "\<exists>m w'. save_nodes wr ms n w = Some (Inr m, w')"
  using assms
proof (induction ms arbitrary: n w)
  case (Cons e ms)
  obtain k v it where e: "e = (k, v, it)"
    by (cases e)
  show ?case
  proof (cases "nd_modified (nw_nodes w v)")
    case True
    have node: "0 \<le> Node_getOffset k" "length (nd_data (nw_nodes w v)) = kNodeSize"
      using Cons.prems(2) by (auto simp: e Node_getOffset_small)
    then obtain f where f: "wr (nd_data (nw_nodes w v)) (Node_getOffset k) (nw_file w) = Some (kNodeSize, f)" "reliable f"
      using write_reliable [OF Cons.prems(1), of "Node_getOffset k" "nd_data (nw_nodes w v)"] by auto
    have "\<exists>m w'. save_nodes wr ms (Suc n) (set_saved v (w\<lparr>nw_file := f\<rparr>)) = Some (Inr m, w')"
      using Cons.prems(2) f(2) by (intro Cons.IH) (auto simp: e set_saved_def)
    then show ?thesis
      using True f(1) by (simp add: e Let_def)
  qed (use Cons in \<open>auto simp: e\<close>)
qed simp

lemma evict_reliable:
  assumes "lru_ok c" and "synced (lru_entries c) w" and "lru_entries c \<noteq> []" and "reliable (nw_file w)"
  shows "\<exists>k w'. evict (NodeCache wr) c w = Some (Inr (), snd (lru_erase k c), w') \<and> k \<in> fst ` set (lru_entries c)"
proof (cases "victim (NodeCache wr) w (lru_entries c)")
  case (Some e)
  then show ?thesis
    using node_victim [OF assms(1) Some] by auto
next
  case None
  have "\<forall>(k, v, it) \<in> set (m_map c). unat k < 2 ^ 50 \<and> length (nd_data (nw_nodes w v)) = kNodeSize"
    using assms(2) map_entries [OF assms(1)] by (fastforce simp: nodes_synced_def)
  from save_reliable [OF assms(4) this] obtain n w' where save: "save_nodes wr (m_map c) 0 w = Some (Inr n, w')"
    by blast
  have "n \<noteq> 0"
  proof
    assume "n = 0"
    have "\<forall>(k, v, it) \<in> set (m_map c). (k, v) \<in> set (lru_entries c)"
      using map_entries [OF assms(1)] by auto
    from save_synced(3) [OF save assms(2) this] \<open>n = 0\<close>
    have "\<forall>(k, v, it) \<in> set (m_map c). \<not> nd_modified (nw_nodes w v)"
      by blast
    then show False
      using None assms(3) map_entries [OF assms(1)] unfolding no_node_victim by (cases "lru_entries c") fastforce+
  qed
  then obtain e where e: "victim (NodeCache wr) w' (lru_entries c) = Some e"
    using cleanup_complete [OF assms(1,2) save] by blast
  show ?thesis
    using node_victim(1,2) [OF assms(1) e] \<open>n \<noteq> 0\<close> by (auto simp: evict_unsaved [OF assms(1) None] save)
qed

lemma new_in_kept:
  assumes "kept c w c' w'" and "lru_ok c" and "map_of (lru_entries c) k = None"
  shows "map_of (m_map c') k = None"
proof -
  have "map_of (lru_entries c') k = None"
    using assms(1,3) by (auto simp: kept_def map_of_eq_None_iff)
  then show ?thesis
    using assms(1) by (simp add: kept_def entries_lookup)
qed

lemma emplace_kept:
  assumes "lru_ok c" and "synced (lru_entries c) w"
    and "lru_emplace (NodeCache wr) k v replace c w = Some (r, c', w')"
  shows "lru_ok c' \<and> (\<forall>u. nd_data (nw_nodes w' u) = nd_data (nw_nodes w u)) \<and>
    (\<forall>(x, u) \<in> set (lru_entries c). x \<noteq> k \<longrightarrow>
      (x, u) \<in> set (lru_entries c') \<or> stored (nw_file w') x (nd_data (nw_nodes w u)))"
proof (cases "map_of (m_map c) k")
  case (Some p)
  then obtain u n where found: "map_of (m_map c) k = Some (u, n)"
    by (cases p) simp
  then have "w' = w" and c': "c' = (if replace then c\<lparr>m_map := AList.update k (v, n) (m_map c)\<rparr> else c)"
    using assms(3) by (auto simp: lru_emplace_def)
  then show ?thesis
    using assms(1) assign_ok [OF assms(1) found] by force
next
  case None
  have new: "map_of (lru_entries c) k = None"
    by (simp add: entries_lookup [OF assms(1)] None)
  have "\<exists>d. kept c w d w' \<and> (c' = d \<or> c' = lru_push k v d)"
  proof (cases "m_capacity c \<le> length (m_map c)")
    case True
    then obtain q d where "evict (NodeCache wr) c w = Some (q, d, w')" and "c' = d \<or> c' = lru_push k v d"
      using assms(3) None by (auto simp: lru_emplace_def split: option.splits sum.splits)
    then show ?thesis
      using evict_kept [OF assms(1,2)] by blast
  next
    case False
    then have "w' = w" "c' = lru_push k v c"
      using assms(3) None by (auto simp: lru_emplace_def)
    then show ?thesis
      using assms(1,2) by (intro exI [of _ c]) (auto simp: kept_def)
  qed
  then obtain d where kept: "kept c w d w'" and c': "c' = d \<or> c' = lru_push k v d"
    by blast
  have "lru_ok d"
    using kept by (simp add: kept_def)
  from push_ok [OF this new_in_kept [OF kept assms(1) new], of v] show ?thesis
    using c' kept \<open>lru_ok d\<close> by (auto simp: kept_def)
qed

lemma emplace_reliable:
  assumes "lru_ok c" and "synced (lru_entries c) w" and "reliable (nw_file w)"
    and "map_of (lru_entries c) k = None" and "0 < m_capacity c"
  shows "\<exists>c' w'. lru_emplace (NodeCache wr) k v replace c w = Some (Inr True, c', w') \<and>
    map_of (lru_entries c') k = Some v"
proof -
  have new: "map_of (m_map c) k = None"
    using assms(4) by (simp add: entries_lookup [OF assms(1)])
  show ?thesis
  proof (cases "m_capacity c \<le> length (m_map c)")
    case True
    then have "lru_entries c \<noteq> []"
      using assms(5) length_entries [OF assms(1)] by auto
    from evict_reliable [OF assms(1,2) this assms(3)] obtain j w'
      where evict: "evict (NodeCache wr) c w = Some (Inr (), snd (lru_erase j c), w')"
      by blast
    then have kept: "kept c w (snd (lru_erase j c)) w'"
      by (rule evict_kept [OF assms(1,2)])
    from push_ok(2) [OF lru_erase_ok(2) [OF assms(1)] new_in_kept [OF kept assms(1,4)]] show ?thesis
      using True evict new by (simp add: lru_emplace_def)
  next
    case False
    then show ?thesis
      using new push_ok(2) [OF assms(1) new] by (simp add: lru_emplace_def)
  qed
qed

end

interpretation plain_file: index_file NormalFile_write "\<lambda>F. os_bytes (nf_os F)"
  "\<lambda>F. \<forall>t. \<exists>m \<ge> kNodeSize. os_answers (nf_os F) t = Granted m"
proof unfold_locales
  fix data off F n F'
  assume "NormalFile_write data off F = Some (n, F')"
  then show "os_bytes (nf_os F') = write_at (os_bytes (nf_os F)) (nat off) (take n data)"
    using pwrite_loop_effect [of True 0 data off "nf_os F"]
    by (auto simp: NormalFile_write_def pwriteExact_def split: option.splits)
next
  fix F :: NormalFile and off :: int and data :: bytes
  assume granted: "\<forall>t. \<exists>m \<ge> kNodeSize. os_answers (nf_os F) t = Granted m" and "0 \<le> off" "length data \<le> kNodeSize"
  obtain m where m: "os_answers (nf_os F) (os_calls (nf_os F)) = Granted m" "kNodeSize \<le> m"
    using granted by blast
  show "\<exists>F'. NormalFile_write data off F = Some (length data, F') \<and>
      (\<forall>t. \<exists>m \<ge> kNodeSize. os_answers (nf_os F') t = Granted m)"
    using granted \<open>0 \<le> off\<close> \<open>length data \<le> kNodeSize\<close> m
    by (auto simp: NormalFile_write_def pwriteExact_def pwriteExact_loop.simps [of _ 0]
        pwriteExact_loop.simps [of _ "length data"] sys_pwrite_def sys_call_def min_def Let_def)
qed


text \<open>C19: While the file accepts whole nodes, a new node can always be inserted: a cache full of
  modified nodes saves them and evicts one of them.\<close>

theorem node_cache_emplace_succeeds:
  assumes "lru_ok c" and "nodes_synced (\<lambda>F. os_bytes (nf_os F)) (lru_entries c) w"
    and "\<forall>t. \<exists>m \<ge> kNodeSize. os_answers (nf_os (nw_file w)) t = Granted m"
    and "map_of (lru_entries c) k = None" and "0 < m_capacity c"
  shows "\<exists>c' w'. lru_emplace (NodeCache NormalFile_write) k v replace c w = Some (Inr True, c', w') \<and>
    map_of (lru_entries c') k = Some v"
  by (rule plain_file.emplace_reliable [OF assms])

lemma clear_flag:
  "nw_file (clear_flag e w) = nw_file w"
  "nd_modified (nw_nodes (clear_flag e w) u) \<longleftrightarrow> nd_modified (nw_nodes w u) \<and> u \<noteq> fst (snd e)"
  by (auto simp: clear_flag_def set_saved_def)

lemma clear_flags:
  "nw_file (fold clear_flag es w) = nw_file w"
  "nd_modified (nw_nodes (fold clear_flag es w) u) \<longleftrightarrow> nd_modified (nw_nodes w u) \<and> (\<forall>e \<in> set es. u \<noteq> fst (snd e))"
  by (induction es arbitrary: w) (auto simp: clear_flag)

lemma flush_effect:
  "nw_file (NodeCache_flush c w) = nw_file w"
  "(k, v, it) \<in> set (m_map c) \<Longrightarrow> \<not> nd_modified (nw_nodes (NodeCache_flush c w) v)"
  by (force simp: NodeCache_flush_def clear_flags)+

text \<open>C39: After a flush the next insertion into a full cache drops the node used least recently even
  when it was modified, and nothing has been written to the file.\<close>

theorem node_cache_flush_loses:
  assumes "lru_ok c" and "lru_entries c \<noteq> []" and "m_capacity c \<le> lru_size c" and "map_of (lru_entries c) k = None"
  shows "\<exists>c'. lru_emplace (NodeCache wr) k v replace c (NodeCache_flush c w) = Some (Inr True, c', NodeCache_flush c w) \<and>
    lru_entries c' = (k, v) # butlast (lru_entries c) \<and> nw_file (NodeCache_flush c w) = nw_file w"
proof -
  let ?w = "NodeCache_flush c w" and ?e = "last (lru_entries c)"
  have new: "map_of (m_map c) k = None"
    using assms(4) by (simp add: entries_lookup [OF assms(1)])
  have "\<not> nd_modified (nw_nodes ?w (snd x))" if "x \<in> set (lru_entries c)" for x
    using that map_entries [OF assms(1), of "fst x" "snd x"] flush_effect(2) by fastforce
  then have "victim (NodeCache wr) ?w (lru_entries c) = Some ?e"
    using assms(2) by (cases "lru_entries c" rule: rev_cases)
      (auto simp: victim_def NodeCache_def NodeCache_can_evict_def split_def)
  note evict = node_victim(1) [OF assms(1) this]
  let ?d = "snd (lru_erase (fst ?e) c)"
  have es: "lru_entries ?d = butlast (lru_entries c)"
    using lru_erase_ok(3) [OF assms(1)] without_last [OF assms(2)] distinct_keys [OF assms(1)] by simp
  then have "map_of (lru_entries ?d) k = None"
    using assms(4) in_set_butlastD by (fastforce simp: map_of_eq_None_iff)
  then have "map_of (m_map ?d) k = None"
    by (simp add: entries_lookup [OF lru_erase_ok(2) [OF assms(1)]])
  then show ?thesis
    using push_ok(2) [OF lru_erase_ok(2) [OF assms(1)], of "fst ?e" k v] es evict new assms(3) flush_effect(1)
    by (simp add: lru_emplace_def lru_size_def)
qed

text \<open>A full cache with one modified node.\<close>

definition sample_nodes :: "(uint64, nat) lru_cache" where
  "sample_nodes = lru_push 1 7 (lru_new 1)"

definition sample_world :: "NormalFile node_world" where
  "sample_world = \<lparr>nw_nodes = \<lambda>_. \<lparr>nd_data = replicate kNodeSize 5, nd_modified = True\<rparr>,
    nw_file = sample_file\<lparr>nf_os := (nf_os sample_file)\<lparr>os_answers := \<lambda>_. Granted kNodeSize\<rparr>\<rparr>\<rparr>"

lemma sample_nodes:
  "lru_ok sample_nodes" "lru_entries sample_nodes = [(1, 7)]" "m_capacity sample_nodes = 1" "lru_size sample_nodes = 1"
  by (auto simp: sample_nodes_def lru_push_def lru_new_def lru_ok_def lru_entries_def lru_size_def)

lemma sample_synced:
  "nodes_synced (\<lambda>F. os_bytes (nf_os F)) (lru_entries sample_nodes) sample_world"
  "\<forall>t. \<exists>m \<ge> kNodeSize. os_answers (nf_os (nw_file sample_world)) t = Granted m"
  by (simp_all add: sample_nodes nodes_synced_def sample_world_def)


theorem node_cache_emplace_succeeds_witness:
  "\<exists>c' w'. lru_emplace (NodeCache NormalFile_write) 2 8 False sample_nodes sample_world = Some (Inr True, c', w') \<and>
    map_of (lru_entries c') 2 = Some 8"
  using node_cache_emplace_succeeds [OF sample_nodes(1) sample_synced, of 2 8 False] by (simp add: sample_nodes)

theorem node_cache_flush_loses_witness:
  "\<exists>c'. lru_emplace (NodeCache NormalFile_write) 2 8 False sample_nodes (NodeCache_flush sample_nodes sample_world) =
      Some (Inr True, c', NodeCache_flush sample_nodes sample_world) \<and>
    lru_entries c' = [(2, 8)] \<and> nw_file (NodeCache_flush sample_nodes sample_world) = nw_file sample_world"
  using node_cache_flush_loses [OF sample_nodes(1), of 2 NormalFile_write 8 False sample_world]
  by (simp add: sample_nodes)

end
