(* ===== verification/Streams.thy ===== *)
theory Streams
  imports VarInt
begin

text \<open>
  Byte streams of the common library (\<open>common/io\<close>): streams over memory, the buffering output stream,
  and the chunked streams that carry requests and large objects over a connection.

  A chunked stream is a sequence of chunks, each preceded by its size as a variable-length number, up
  to a chunk of size zero. The underlying streams are used through their interface, a record of
  functions; a result of -1 is an error, and a stream whose pointer to the underlying stream has been
  reset is detached.
\<close>

section \<open>Interfaces\<close>

record 'o OutputStream =
  out_write :: "bytes \<Rightarrow> 'o \<Rightarrow> int \<times> 'o"
  out_isValid :: "'o \<Rightarrow> bool"

record 'i InputStream =
  in_read :: "nat \<Rightarrow> 'i \<Rightarrow> int \<times> bytes \<times> 'i"
  in_skip :: "nat \<Rightarrow> 'i \<Rightarrow> int \<times> 'i"
  in_isValid :: "'i \<Rightarrow> bool"

section \<open>Streams over memory\<close>

text \<open>A stream over memory has the bytes already written, or the bytes from the current pointer on; a
  closed stream has no pointer.\<close>

record MemoryOutputStream =
  mo_written :: bytes
  mo_open :: bool
  mo_remaining :: nat

definition MemoryOutputStream_new :: "nat \<Rightarrow> MemoryOutputStream" where
  "MemoryOutputStream_new sz = \<lparr>mo_written = [], mo_open = True, mo_remaining = sz\<rparr>"

definition MemoryOutputStream_isValid :: "MemoryOutputStream \<Rightarrow> bool" where
  "MemoryOutputStream_isValid s = mo_open s"

definition MemoryOutputStream_close :: "MemoryOutputStream \<Rightarrow> MemoryOutputStream" where
  "MemoryOutputStream_close s = s\<lparr>mo_open := False, mo_remaining := 0\<rparr>"

definition MemoryOutputStream_write :: "bytes \<Rightarrow> MemoryOutputStream \<Rightarrow> int \<times> MemoryOutputStream" where
  "MemoryOutputStream_write buffer s =
    (if MemoryOutputStream_isValid s then
       if buffer = [] then (0, s)
       else
         let n = min (length buffer) (mo_remaining s) in
         if n > 0 then
           (int n, s\<lparr>mo_written := mo_written s @ take n buffer, mo_remaining := mo_remaining s - n\<rparr>)
         else (-1, MemoryOutputStream_close s)
     else (-1, s))"

definition MemoryOutputStream_ops :: "MemoryOutputStream OutputStream" where
  "MemoryOutputStream_ops = \<lparr>out_write = MemoryOutputStream_write, out_isValid = MemoryOutputStream_isValid\<rparr>"

record MemoryInputStream =
  mi_current :: bytes
  mi_open :: bool
  mi_remaining :: nat

definition MemoryInputStream_new :: "bytes \<Rightarrow> MemoryInputStream" where
  "MemoryInputStream_new buffer = \<lparr>mi_current = buffer, mi_open = True, mi_remaining = length buffer\<rparr>"

definition MemoryInputStream_isValid :: "MemoryInputStream \<Rightarrow> bool" where
  "MemoryInputStream_isValid s = mi_open s"

definition MemoryInputStream_close :: "MemoryInputStream \<Rightarrow> MemoryInputStream" where
  "MemoryInputStream_close s = s\<lparr>mi_open := False, mi_remaining := 0\<rparr>"

definition MemoryInputStream_read :: "nat \<Rightarrow> MemoryInputStream \<Rightarrow> int \<times> bytes \<times> MemoryInputStream" where
  "MemoryInputStream_read sz s =
    (if MemoryInputStream_isValid s then
       let n = min sz (mi_remaining s) in
       (int n, take n (mi_current s),
        if n > 0 then s\<lparr>mi_current := drop n (mi_current s), mi_remaining := mi_remaining s - n\<rparr> else s)
     else (-1, [], s))"

definition MemoryInputStream_skip :: "nat \<Rightarrow> MemoryInputStream \<Rightarrow> int \<times> MemoryInputStream" where
  "MemoryInputStream_skip sz s =
    (if MemoryInputStream_isValid s then
       let n = min sz (mi_remaining s) in (int n, s\<lparr>mi_remaining := mi_remaining s - n\<rparr>)
     else (-1, s))"

definition MemoryInputStream_ops :: "MemoryInputStream InputStream" where
  "MemoryInputStream_ops = \<lparr>in_read = MemoryInputStream_read, in_skip = MemoryInputStream_skip,
    in_isValid = MemoryInputStream_isValid\<rparr>"

text \<open>The growing stream: the buffer, the offset of the current pointer in it and the number of bytes
  that remain, a \<open>size_t\<close>. A copy past the end of the buffer is undefined behaviour, the result
  None.\<close>

record DynamicMemoryOutputStream =
  dm_buffer :: bytes
  dm_growStep :: nat
  dm_current :: nat
  dm_open :: bool
  dm_remaining :: uint64

definition DynamicMemoryOutputStream_new :: "nat \<Rightarrow> nat \<Rightarrow> DynamicMemoryOutputStream" where
  "DynamicMemoryOutputStream_new initialSize growStep = \<lparr>dm_buffer = replicate initialSize 0, dm_growStep = growStep,
    dm_current = 0, dm_open = True, dm_remaining = of_nat initialSize\<rparr>"

text \<open>\<open>buffer::resize\<close> keeps the common prefix.\<close>

definition buffer_resize :: "nat \<Rightarrow> bytes \<Rightarrow> bytes" where
  "buffer_resize n buffer = take n buffer @ replicate (n - length buffer) 0"

definition dm_grow :: "nat \<Rightarrow> DynamicMemoryOutputStream \<Rightarrow> DynamicMemoryOutputStream" where
  "dm_grow sz s =
    (if sz > unat (dm_remaining s) \<and> dm_growStep s > 0 then
       let n = sz - unat (dm_remaining s);
           r = n mod dm_growStep s;
           n = (if r > 0 then n + (dm_growStep s - r) else n);
           buffer = buffer_resize n (dm_buffer s)
       in s\<lparr>dm_buffer := buffer, dm_remaining := of_nat (length buffer) - of_nat (dm_current s)\<rparr>
     else s)"

definition DynamicMemoryOutputStream_write :: "bytes \<Rightarrow> DynamicMemoryOutputStream \<Rightarrow>
    (int \<times> DynamicMemoryOutputStream) option" where
  "DynamicMemoryOutputStream_write buffer s =
    (if dm_open s then
       if buffer = [] then Some (0, s)
       else
         let s = dm_grow (length buffer) s;
             n = min (length buffer) (unat (dm_remaining s))
         in if n > 0 then
              if dm_current s + n \<le> length (dm_buffer s) then
                Some (int n, s\<lparr>dm_buffer := splice (dm_buffer s) (dm_current s) (take n buffer),
                  dm_current := dm_current s + n, dm_remaining := dm_remaining s - of_nat n\<rparr>)
              else None
            else Some (-1, s\<lparr>dm_open := False, dm_remaining := 0\<rparr>)
     else Some (-1, s))"

section \<open>Buffered output\<close>

record 'o BufferedOutputStream =
  bo_out :: 'o
  bo_attached :: bool
  bo_buffer :: bytes
  bo_dataSize :: nat

type_synonym 'o on_flush = "nat \<Rightarrow> 'o BufferedOutputStream \<Rightarrow> int \<times> 'o BufferedOutputStream"

definition BufferedOutputStream_new :: "nat \<Rightarrow> 'o \<Rightarrow> 'o BufferedOutputStream" where
  "BufferedOutputStream_new bufferSize out = \<lparr>bo_out = out, bo_attached = True,
    bo_buffer = replicate bufferSize 0, bo_dataSize = 0\<rparr>"

definition OutputStreamWrapperStream_isValid :: "'o OutputStream \<Rightarrow> 'o BufferedOutputStream \<Rightarrow> bool" where
  "OutputStreamWrapperStream_isValid ops s \<longleftrightarrow> bo_attached s \<and> out_isValid ops (bo_out s)"

definition writeChunkSize :: "'o OutputStream \<Rightarrow> uint32 \<Rightarrow> 'o BufferedOutputStream \<Rightarrow> int \<times> 'o BufferedOutputStream" where
  "writeChunkSize ops chunkSize s =
    (if \<not> OutputStreamWrapperStream_isValid ops s then (-1, s)
     else let buffer = encodeVarUInt32 chunkSize in
       case out_write ops buffer (bo_out s) of (n, out) \<Rightarrow>
         if n \<noteq> int (length buffer) then (-1, s\<lparr>bo_out := out, bo_attached := False\<rparr>)
         else (0, s\<lparr>bo_out := out\<rparr>))"

definition BufferedOutputStream_onFlush :: "'o on_flush" where
  "BufferedOutputStream_onFlush dataSize s = (0, s)"

definition bo_flush :: "'o on_flush \<Rightarrow> 'o OutputStream \<Rightarrow> 'o BufferedOutputStream \<Rightarrow> int \<times> 'o BufferedOutputStream" where
  "bo_flush onFlush ops s =
    (if \<not> OutputStreamWrapperStream_isValid ops s then (-1, s)
     else if bo_dataSize s = 0 then (0, s)
     else case onFlush (bo_dataSize s) s of (r, s) \<Rightarrow>
       if r < 0 then (-1, s)
       else case out_write ops (take (bo_dataSize s) (bo_buffer s)) (bo_out s) of (n, out) \<Rightarrow>
         let s = s\<lparr>bo_out := out\<rparr> in
         (n, if n \<ge> 0 then
               if nat n = bo_dataSize s then s\<lparr>bo_dataSize := 0\<rparr>
               else let newDataSize = length (bo_buffer s) - nat n in
                 s\<lparr>bo_buffer := splice (bo_buffer s) 0 (slice (bo_buffer s) (nat n) newDataSize),
                   bo_dataSize := newDataSize\<rparr>
             else s))"

text \<open>The loop that writes full buffers directly. The result tells whether it ended normally and which
  bytes remain; a stream that accepts no bytes makes it run forever.\<close>

partial_function (option) bo_write_loop :: "'o on_flush \<Rightarrow> 'o OutputStream \<Rightarrow> bytes \<Rightarrow> 'o BufferedOutputStream \<Rightarrow>
    (bool \<times> bytes \<times> 'o BufferedOutputStream) option" where
  "bo_write_loop onFlush ops buffer s =
    (if length buffer > length (bo_buffer s) then
       (case onFlush (length (bo_buffer s)) s of (r, s) \<Rightarrow>
          if r < 0 then Some (False, buffer, s)
          else case out_write ops (take (length (bo_buffer s)) buffer) (bo_out s) of (n, out) \<Rightarrow>
            if n < 0 then Some (False, buffer, s\<lparr>bo_out := out\<rparr>)
            else bo_write_loop onFlush ops (drop (nat n) buffer) (s\<lparr>bo_out := out\<rparr>))
     else Some (True, buffer, s))"

definition bo_write :: "'o on_flush \<Rightarrow> 'o OutputStream \<Rightarrow> bytes \<Rightarrow> 'o BufferedOutputStream \<Rightarrow>
    (int \<times> 'o BufferedOutputStream) option" where
  "bo_write onFlush ops buffer s =
    (if \<not> OutputStreamWrapperStream_isValid ops s then Some (-1, s)
     else
       let freeBufferSize = length (bo_buffer s) - bo_dataSize s;
           n = min freeBufferSize (length buffer);
           filled = s\<lparr>bo_buffer := splice (bo_buffer s) (bo_dataSize s) (take n buffer),
                      bo_dataSize := bo_dataSize s + n\<rparr>;
           s = (if freeBufferSize > 0 then filled else s);
           rest = (if freeBufferSize > 0 then drop n buffer else buffer)
       in
       if freeBufferSize > 0 \<and> rest = [] then Some (int (length buffer), s)
       else case bo_flush onFlush ops s of (r, s) \<Rightarrow>
         if r < 0 then Some (int (length buffer) - int (length rest), s)
         else case bo_write_loop onFlush ops rest s of
             None \<Rightarrow> None
           | Some (False, rest, s) \<Rightarrow> Some (int (length buffer) - int (length rest), s)
           | Some (True, rest, s) \<Rightarrow>
               Some (int (length buffer),
                 if rest \<noteq> [] then s\<lparr>bo_buffer := splice (bo_buffer s) 0 rest, bo_dataSize := length rest\<rparr> else s))"

definition BufferedOutputStream_close :: "'o on_flush \<Rightarrow> 'o OutputStream \<Rightarrow> 'o BufferedOutputStream \<Rightarrow>
    int \<times> 'o BufferedOutputStream" where
  "BufferedOutputStream_close onFlush ops s =
    (if bo_attached s then case bo_flush onFlush ops s of (r, s) \<Rightarrow> (r, s\<lparr>bo_attached := False\<rparr>)
     else (-1, s))"

section \<open>Chunked output\<close>

definition kMinMaxChunkSize :: nat where "kMinMaxChunkSize = 1"
definition kMaxMaxChunkSize :: nat where "kMaxMaxChunkSize = 1024 * 1024 * 1024"

definition validateMaxChunkSize :: "nat \<Rightarrow> nat option" where
  "validateMaxChunkSize maxChunkSize =
    (if maxChunkSize \<ge> kMinMaxChunkSize \<and> maxChunkSize \<le> kMaxMaxChunkSize then Some maxChunkSize else None)"

definition BufferedChunkedOutputStream_new :: "nat \<Rightarrow> 'o \<Rightarrow> 'o BufferedOutputStream option" where
  "BufferedChunkedOutputStream_new maxChunkSize out =
    map_option (\<lambda>n. BufferedOutputStream_new n out) (validateMaxChunkSize maxChunkSize)"

definition BufferedChunkedOutputStream_onFlush :: "'o OutputStream \<Rightarrow> 'o on_flush" where
  "BufferedChunkedOutputStream_onFlush ops dataSize s = writeChunkSize ops (of_nat dataSize) s"

definition BufferedChunkedOutputStream_close :: "'o OutputStream \<Rightarrow> 'o BufferedOutputStream \<Rightarrow>
    int \<times> 'o BufferedOutputStream" where
  "BufferedChunkedOutputStream_close ops s =
    (if bo_attached s then
       case bo_flush (BufferedChunkedOutputStream_onFlush ops) ops s of (written, t) \<Rightarrow>
         (case if written mod 2 ^ 64 = int (bo_dataSize s) then writeChunkSize ops 0 t else (-1, t) of
            (res, t) \<Rightarrow> (res, t\<lparr>bo_attached := False\<rparr>))
     else (-1, s))"

section \<open>Chunked input\<close>

record 'i ChunkedInputStream =
  ci_in :: 'i
  ci_attached :: bool
  ci_chunkSize :: nat
  ci_pos :: nat
  ci_hasChunkSize :: bool
  ci_eof :: bool
  ci_stop :: bool

definition ChunkedInputStream_new :: "'i \<Rightarrow> 'i ChunkedInputStream" where
  "ChunkedInputStream_new i = \<lparr>ci_in = i, ci_attached = True, ci_chunkSize = 0, ci_pos = 0,
    ci_hasChunkSize = False, ci_eof = False, ci_stop = False\<rparr>"

definition InputStreamWrapperStream_isValid :: "'i InputStream \<Rightarrow> 'i ChunkedInputStream \<Rightarrow> bool" where
  "InputStreamWrapperStream_isValid ops s \<longleftrightarrow> ci_attached s \<and> in_isValid ops (ci_in s)"

definition getRemainingBytesInChunk :: "'i ChunkedInputStream \<Rightarrow> nat" where
  "getRemainingBytesInChunk s = (if ci_hasChunkSize s then ci_chunkSize s - ci_pos s else 0)"

definition setStopReadingAfterCurrentChunkFinished :: "'i ChunkedInputStream \<Rightarrow> 'i ChunkedInputStream" where
  "setStopReadingAfterCurrentChunkFinished s = s\<lparr>ci_stop := True\<rparr>"

definition ci_detach :: "'i ChunkedInputStream \<Rightarrow> 'i ChunkedInputStream" where
  "ci_detach s = s\<lparr>ci_attached := False\<rparr>"

definition ci_set_chunk :: "nat \<Rightarrow> bool \<Rightarrow> 'i ChunkedInputStream \<Rightarrow> 'i ChunkedInputStream" where
  "ci_set_chunk n eof s = s\<lparr>ci_chunkSize := n, ci_pos := 0, ci_hasChunkSize := True, ci_eof := eof\<rparr>"

text \<open>The bytes of a chunk size, one at a time: \<open>n\<close> is the number of bytes that may still be read,
  \<open>buffer\<close> what has been read. The outcome is a final result or the collected bytes.\<close>

fun chunk_size_bytes :: "'i InputStream \<Rightarrow> nat \<Rightarrow> bytes \<Rightarrow> 'i ChunkedInputStream \<Rightarrow> (int + bytes) \<times> 'i ChunkedInputStream" where
  "chunk_size_bytes ops 0 buffer s = (Inr buffer, s)"
| "chunk_size_bytes ops (Suc n) buffer s = (case in_read ops 1 (ci_in s) of (k, data, i) \<Rightarrow>
    let s = s\<lparr>ci_in := i\<rparr> in
    if k < 0 then (Inl (-1), ci_detach s)
    else if k = 0 then
      if buffer \<noteq> [] then (Inl (-1), ci_detach s) else (Inl 0, ci_set_chunk 0 True s)
    else if hd data AND 0x80 = 0 then (Inr (buffer @ [hd data]), s)
    else chunk_size_bytes ops n (buffer @ [hd data]) s)"

definition readChunkSize :: "'i InputStream \<Rightarrow> 'i ChunkedInputStream \<Rightarrow> int \<times> 'i ChunkedInputStream" where
  "readChunkSize ops s =
    (if ci_stop s then (1, ci_set_chunk 0 True s)
     else case chunk_size_bytes ops kMaxSerializedInt32Size [] s of
         (Inl r, s) \<Rightarrow> (r, s)
       | (Inr buffer, s) \<Rightarrow>
           if length buffer = kMaxSerializedInt32Size then (-1, ci_detach s)
           else (case decodeVarUInt32 buffer of
               DecOk _ chunkSize \<Rightarrow> (1, ci_set_chunk (unat chunkSize) (chunkSize = 0) s)
             | _ \<Rightarrow> (-1, ci_detach s)))"

text \<open>The reading loop. The underlying stream returns at most the number of bytes it is asked for.\<close>

function ci_read_loop :: "'i InputStream \<Rightarrow> nat \<Rightarrow> bytes \<Rightarrow> 'i ChunkedInputStream \<Rightarrow>
    (int + unit) \<times> bytes \<times> 'i ChunkedInputStream" where
  "ci_read_loop ops remaining buffer s =
    (if remaining = 0 then (Inr (), buffer, s)
     else
       let bytesToRead = min remaining (getRemainingBytesInChunk s) in
       if bytesToRead = 0 then (Inr (), buffer, s)
       else case in_read ops bytesToRead (ci_in s) of (n, data, i) \<Rightarrow>
         let s = s\<lparr>ci_in := i\<rparr> in
         if n < 1 then (Inl (-1), buffer, ci_detach s)
         else
           let s = s\<lparr>ci_pos := ci_pos s + nat n\<rparr> in
           if ci_pos s = ci_chunkSize s then (Inr (), buffer @ data, s\<lparr>ci_hasChunkSize := False\<rparr>)
           else ci_read_loop ops (remaining - nat n) (buffer @ data) s)"
  by pat_completeness auto
termination
  by (relation "measure (\<lambda>(ops, remaining, buffer, s). remaining)") auto

declare ci_read_loop.simps [simp del]

definition ChunkedInputStream_read :: "'i InputStream \<Rightarrow> nat \<Rightarrow> 'i ChunkedInputStream \<Rightarrow>
    int \<times> bytes \<times> 'i ChunkedInputStream" where
  "ChunkedInputStream_read ops sz s =
    (if \<not> InputStreamWrapperStream_isValid ops s then (-1, [], s)
     else case (if ci_hasChunkSize s then (1, s) else readChunkSize ops s) of (res, s) \<Rightarrow>
       if res < 1 then (res, [], if res < 0 then ci_detach s else s)
       else if ci_eof s then (-1, [], s)
       else case ci_read_loop ops sz [] s of
           (Inl r, buffer, s) \<Rightarrow> (r, buffer, s)
         | (Inr _, buffer, s) \<Rightarrow> (int (length buffer), buffer, s))"

function ci_skip_loop :: "'i InputStream \<Rightarrow> nat \<Rightarrow> 'i ChunkedInputStream \<Rightarrow> (int + nat) \<times> 'i ChunkedInputStream" where
  "ci_skip_loop ops remaining s =
    (if remaining = 0 then (Inr remaining, s)
     else
       let bytesToSkip = min remaining (getRemainingBytesInChunk s) in
       if bytesToSkip = 0 then (Inr remaining, s)
       else case in_skip ops bytesToSkip (ci_in s) of (n, i) \<Rightarrow>
         let s = s\<lparr>ci_in := i\<rparr> in
         if n < 1 then (Inl (-1), ci_detach s)
         else
           let s = s\<lparr>ci_pos := ci_pos s + nat n\<rparr> in
           if ci_pos s = ci_chunkSize s then
             (case readChunkSize ops s of (res, s) \<Rightarrow>
                if res < 1 then (Inl res, if res < 0 then ci_detach s else s)
                else ci_skip_loop ops (remaining - nat n) s)
           else ci_skip_loop ops (remaining - nat n) s)"
  by pat_completeness auto
termination
  by (relation "measure (\<lambda>(ops, remaining, s). remaining)") auto

declare ci_skip_loop.simps [simp del]

definition ChunkedInputStream_skip :: "'i InputStream \<Rightarrow> nat \<Rightarrow> 'i ChunkedInputStream \<Rightarrow> int \<times> 'i ChunkedInputStream" where
  "ChunkedInputStream_skip ops sz s =
    (if \<not> InputStreamWrapperStream_isValid ops s then (-1, s)
     else case (if ci_hasChunkSize s then (1, s) else readChunkSize ops s) of (res, s) \<Rightarrow>
       if res < 1 then (res, if res < 0 then ci_detach s else s)
       else if ci_eof s then (-1, s)
       else case ci_skip_loop ops sz s of
           (Inl r, s) \<Rightarrow> (r, s)
         | (Inr remaining, s) \<Rightarrow> (int sz - int remaining, s))"

text \<open>\<open>readChunkedString\<close>: every piece is appended as a C string, so it ends at a zero byte.\<close>

definition kReadBufferSize :: nat where "kReadBufferSize = 4096"

partial_function (option) read_string_loop :: "'i InputStream \<Rightarrow> bytes \<Rightarrow> 'i ChunkedInputStream \<Rightarrow> (bytes \<times> 'i ChunkedInputStream) option" where
  "read_string_loop ops str s =
    (if ci_eof s then Some (str, s)
     else case ChunkedInputStream_read ops (kReadBufferSize - 1) s of (n, buffer, s) \<Rightarrow>
       if n < 1 then Some (str, s)
       else read_string_loop ops (str @ takeWhile (\<lambda>b. b \<noteq> 0) buffer) s)"

definition readChunkedString :: "'i InputStream \<Rightarrow> 'i \<Rightarrow> (bytes \<times> 'i) option" where
  "readChunkedString ops i = map_option (\<lambda>(str, s). (str, ci_in s)) (read_string_loop ops [] (ChunkedInputStream_new i))"

section \<open>Writing chunks\<close>

text \<open>The format of a chunked stream.\<close>

definition chunk_bytes :: "bytes \<Rightarrow> bytes" where
  "chunk_bytes c = encodeVarUInt32 (of_nat (length c)) @ c"

definition chunks_bytes :: "bytes list \<Rightarrow> bytes" where
  "chunks_bytes cs = concat (map chunk_bytes cs)"

lemma chunks_bytes_simps [simp]:
  "chunks_bytes [] = []" "chunks_bytes (c # cs) = chunk_bytes c @ chunks_bytes cs"
  "chunks_bytes (cs @ ds) = chunks_bytes cs @ chunks_bytes ds"
  by (simp_all add: chunks_bytes_def)

lemma chunk_header_length:
  "length (encodeVarUInt32 v) \<le> 5"
  using getVarUIntSize_max(2) [of v] by (simp add: kMaxSerializedInt32Size_def)

text \<open>What the writer needs of the stream below: while there is room, data are appended as a whole.\<close>

locale byte_sink =
  fixes ops :: "'o OutputStream"
    and content :: "'o \<Rightarrow> bytes"
    and room :: "'o \<Rightarrow> nat"
  assumes sink_write: "out_isValid ops out \<Longrightarrow> length data \<le> room out \<Longrightarrow>
    \<exists>out'. out_write ops data out = (int (length data), out') \<and> out_isValid ops out' \<and>
      content out' = content out @ data \<and> room out' = room out - length data"
begin

abbreviation onFlush :: "'o on_flush" where
  "onFlush \<equiv> BufferedChunkedOutputStream_onFlush ops"

text \<open>The invariant of a chunked writer: the chunks written so far, the bytes that wait in the buffer,
  and room for them and for a reserve.\<close>

definition writer :: "nat \<Rightarrow> bytes \<Rightarrow> bytes list \<Rightarrow> bytes \<Rightarrow> nat \<Rightarrow> 'o BufferedOutputStream \<Rightarrow> bool" where
  "writer m start cs p reserve s \<longleftrightarrow> bo_attached s \<and> out_isValid ops (bo_out s) \<and>
    0 < m \<and> m \<le> kMaxMaxChunkSize \<and> length (bo_buffer s) = m \<and> bo_dataSize s = length p \<and> length p \<le> m \<and>
    take (length p) (bo_buffer s) = p \<and> content (bo_out s) = start @ chunks_bytes cs \<and>
    (\<forall>c \<in> set cs. c \<noteq> [] \<and> length c \<le> m) \<and> 6 * length p + reserve \<le> room (bo_out s)"

lemma write_header:
  assumes "bo_attached s" and "out_isValid ops (bo_out s)" and "length (encodeVarUInt32 v) \<le> room (bo_out s)"
  obtains out where "writeChunkSize ops v s = (0, s\<lparr>bo_out := out\<rparr>)" and "out_isValid ops out"
    and "content out = content (bo_out s) @ encodeVarUInt32 v"
    and "room out = room (bo_out s) - length (encodeVarUInt32 v)"
  using sink_write [OF assms(2,3)] assms(1,2) that
  by (auto simp: writeChunkSize_def OutputStreamWrapperStream_isValid_def Let_def)

text \<open>A whole chunk goes out.\<close>

lemma write_chunk:
  assumes "bo_attached s" and "out_isValid ops (bo_out s)" and "c \<noteq> []" and "length c \<le> kMaxMaxChunkSize"
    and "6 * length c + reserve \<le> room (bo_out s)"
  obtains out out' where "onFlush (length c) s = (0, s\<lparr>bo_out := out\<rparr>)"
    and "out_write ops c out = (int (length c), out')" and "out_isValid ops out'"
    and "content out' = content (bo_out s) @ chunk_bytes c" and "reserve \<le> room out'"
proof -
  let ?h = "encodeVarUInt32 (of_nat (length c))"
  have size: "length ?h + length c \<le> 6 * length c"
    using chunk_header_length [of "of_nat (length c)"] assms(3) by (cases c) auto
  have "length ?h \<le> room (bo_out s)"
    using size assms(5) by linarith
  then obtain out where out: "writeChunkSize ops (of_nat (length c)) s = (0, s\<lparr>bo_out := out\<rparr>)"
    "out_isValid ops out" "content out = content (bo_out s) @ ?h" "room out = room (bo_out s) - length ?h"
    by (rule write_header [OF assms(1,2)])
  have "length c \<le> room out"
    using out(4) size assms(5) by linarith
  from sink_write [OF out(2) this] obtain out' where "out_write ops c out = (int (length c), out')"
    "out_isValid ops out'" "content out' = content out @ c" "room out' = room out - length c"
    by blast
  then show thesis
    using that [of out out'] out size assms(5)
    by (simp add: BufferedChunkedOutputStream_onFlush_def chunk_bytes_def del: length_encodeVarUInt)
qed

lemma flush_writer:
  assumes "writer m start cs p reserve s"
  obtains s' where "bo_flush onFlush ops s = (int (length p), s')"
    and "writer m start (if p = [] then cs else cs @ [p]) [] reserve s'"
proof (cases "p = []")
  case True
  then show thesis
    using assms that [of s] by (simp add: writer_def bo_flush_def OutputStreamWrapperStream_isValid_def)
next
  case False
  have s: "bo_attached s" "out_isValid ops (bo_out s)" "length p \<le> kMaxMaxChunkSize"
    "6 * length p + reserve \<le> room (bo_out s)" "take (length p) (bo_buffer s) = p" "bo_dataSize s = length p"
    using assms by (auto simp: writer_def)
  obtain out out' where "onFlush (length p) s = (0, s\<lparr>bo_out := out\<rparr>)" "out_write ops p out = (int (length p), out')"
    "out_isValid ops out'" "content out' = content (bo_out s) @ chunk_bytes p" "reserve \<le> room out'"
    by (rule write_chunk [OF s(1,2) False s(3,4)])
  then show thesis
    using assms that [of "s\<lparr>bo_out := out', bo_dataSize := 0\<rparr>"] False s
    by (auto simp: writer_def bo_flush_def OutputStreamWrapperStream_isValid_def Let_def)
qed

lemma loop_writer:
  assumes "writer m start cs [] (6 * length data + reserve) s"
  obtains cs' rest s' where "bo_write_loop onFlush ops data s = Some (True, rest, s')" and "concat cs' @ rest = data"
    and "length rest \<le> m" and "writer m start (cs @ cs') [] (6 * length rest + reserve) s'"
proof -
  have "\<exists>cs' rest s'. bo_write_loop onFlush ops data s = Some (True, rest, s') \<and> concat cs' @ rest = data \<and>
      length rest \<le> m \<and> writer m start (cs @ cs') [] (6 * length rest + reserve) s'"
    using assms
  proof (induction "length data" arbitrary: data cs s rule: less_induct)
    case less
    have m: "length (bo_buffer s) = m" "0 < m" "m \<le> kMaxMaxChunkSize"
      using less.prems by (auto simp: writer_def)
    show ?case
    proof (cases "m < length data")
      case False
      then show ?thesis
        using less.prems m
        by (intro exI [of _ "[]"] exI [of _ data] exI [of _ s]) (auto simp: bo_write_loop.simps)
    next
      case True
      let ?c = "take m data" and ?reserve = "6 * length (drop m data) + reserve"
      have c: "?c \<noteq> []" "length ?c = m"
        using True m(2) by auto
      have "6 * length ?c + ?reserve \<le> room (bo_out s)" and s: "bo_attached s" "out_isValid ops (bo_out s)"
        using less.prems True by (auto simp: writer_def)
      then obtain out out' where "onFlush (length ?c) s = (0, s\<lparr>bo_out := out\<rparr>)"
        "out_write ops ?c out = (int (length ?c), out')" "out_isValid ops out'"
        "content out' = content (bo_out s) @ chunk_bytes ?c" "?reserve \<le> room out'"
        using write_chunk [OF s c(1)] c(2) m(3) by metis
      moreover from this have "writer m start (cs @ [?c]) [] ?reserve (s\<lparr>bo_out := out'\<rparr>)"
        using less.prems c by (auto simp: writer_def)
      moreover have "length (drop m data) < length data"
        using True m(2) by simp
      ultimately obtain cs' rest s' where
        "bo_write_loop onFlush ops (drop m data) (s\<lparr>bo_out := out'\<rparr>) = Some (True, rest, s')"
        "concat cs' @ rest = drop m data" "length rest \<le> m"
        "writer m start ((cs @ [?c]) @ cs') [] (6 * length rest + reserve) s'"
        using less.hyps by blast
      then show ?thesis
        using True m(1) c(2) \<open>onFlush (length ?c) s = _\<close> \<open>out_write ops ?c out = _\<close>
        by (intro exI [of _ "?c # cs'"] exI [of _ rest] exI [of _ s'])
          (simp add: bo_write_loop.simps [of _ _ data s])
    qed
  qed
  then show thesis
    using that by blast
qed

lemma fill_writer:
  assumes "writer m start cs p (6 * length q + reserve) s" and "length p + length q \<le> m"
  shows "writer m start cs (p @ q) reserve
    (s\<lparr>bo_buffer := splice (bo_buffer s) (bo_dataSize s) q, bo_dataSize := bo_dataSize s + length q\<rparr>)"
  using assms by (auto simp: writer_def splice_def)

lemma write_writer:
  assumes "writer m start cs p (6 * length data + reserve) s"
  obtains cs' p' s' where "bo_write onFlush ops data s = Some (int (length data), s')"
    and "concat cs' @ p' = concat cs @ p @ data" and "writer m start cs' p' reserve s'"
proof -
  have s: "OutputStreamWrapperStream_isValid ops s" "length (bo_buffer s) = m" "bo_dataSize s = length p" "length p \<le> m"
    using assms by (auto simp: writer_def OutputStreamWrapperStream_isValid_def)
  let ?n = "min (m - length p) (length data)"
  let ?filled = "s\<lparr>bo_buffer := splice (bo_buffer s) (bo_dataSize s) (take ?n data), bo_dataSize := bo_dataSize s + ?n\<rparr>"
  let ?t = "if m - length p > 0 then ?filled else s"
  let ?rest = "if m - length p > 0 then drop ?n data else data"
  have "length (take ?n data) + length (drop ?n data) = length data"
    by (metis append_take_drop_id length_append)
  then have "6 * length (take ?n data) + (6 * length (drop ?n data) + reserve) = 6 * length data + reserve"
    by linarith
  then have "writer m start cs p (6 * length (take ?n data) + (6 * length (drop ?n data) + reserve)) s"
    using assms by (simp only:)
  then have "writer m start cs (p @ take ?n data) (6 * length (drop ?n data) + reserve) ?filled"
    using fill_writer [of m start cs p "take ?n data" _ s] s(4) by simp
  then have t: "writer m start cs (p @ take ?n data) (6 * length ?rest + reserve) ?t"
    using assms s(4) by (auto simp: writer_def)
  have rest: "p @ take ?n data @ ?rest = p @ data"
    using s(4) by auto
  show thesis
  proof (cases "m - length p > 0 \<and> ?rest = []")
    case True
    then have "length p < m" "length data \<le> m - length p"
      by (auto split: if_splits)
    then have "bo_write onFlush ops data s = Some (int (length data), ?t)"
      using s by (simp add: bo_write_def Let_def)
    moreover have "writer m start cs (p @ data) reserve ?t"
      using t True by (simp add: min_def split: if_splits)
    ultimately show thesis
      using that by blast
  next
    case False
    let ?p = "p @ take ?n data"
    obtain u where flush: "bo_flush onFlush ops ?t = (int (length ?p), u)"
      and "writer m start (if ?p = [] then cs else cs @ [?p]) [] (6 * length ?rest + reserve) u"
      by (rule flush_writer [OF t])
    from this(2) obtain ds r v where loop: "bo_write_loop onFlush ops ?rest u = Some (True, r, v)"
      and "concat ds @ r = ?rest" and "length r \<le> m"
      and v: "writer m start ((if ?p = [] then cs else cs @ [?p]) @ ds) [] (6 * length r + reserve) v"
      by (rule loop_writer)
    let ?v = "if r \<noteq> [] then v\<lparr>bo_buffer := splice (bo_buffer v) 0 r, bo_dataSize := length r\<rparr> else v"
    have "bo_write onFlush ops data s = Some (int (length data), ?v)"
      using s False flush loop by (simp add: bo_write_def Let_def split: if_splits)
    moreover have "writer m start ((if ?p = [] then cs else cs @ [?p]) @ ds) r reserve ?v"
    proof (cases "r = []")
      case True
      then show ?thesis
        using v by simp
    next
      case False
      have "bo_dataSize v = 0"
        using v unfolding writer_def by simp
      then show ?thesis
        using fill_writer [OF v] \<open>length r \<le> m\<close> False by simp
    qed
    moreover have "concat ((if ?p = [] then cs else cs @ [?p]) @ ds) @ r = concat cs @ p @ data"
      using \<open>concat ds @ r = ?rest\<close> rest by (auto split: if_splits)
    ultimately show thesis
      using that by blast
  qed
qed

text \<open>Closing writes the pending bytes and the final chunk of size zero.\<close>

lemma close_writer:
  assumes "writer m start cs p (Suc reserve) s"
  obtains s' cs' where "BufferedChunkedOutputStream_close ops s = (0, s')" and "concat cs' = concat cs @ p"
    and "content (bo_out s') = start @ chunks_bytes cs' @ [0]" and "\<forall>c \<in> set cs'. c \<noteq> [] \<and> length c \<le> m"
proof -
  define cs' where "cs' = (if p = [] then cs else cs @ [p])"
  obtain t where flush: "bo_flush onFlush ops s = (int (length p), t)" and t: "writer m start cs' [] (Suc reserve) t"
    unfolding cs'_def by (rule flush_writer [OF assms])
  have zero: "encodeVarUInt32 0 = [0]"
    by (subst encodeVarUInt32.simps) simp
  have "bo_attached t" "out_isValid ops (bo_out t)" "length (encodeVarUInt32 0) \<le> room (bo_out t)"
    using t by (auto simp: writer_def zero simp del: length_encodeVarUInt)
  then obtain out where "writeChunkSize ops 0 t = (0, t\<lparr>bo_out := out\<rparr>)"
    and out: "content out = content (bo_out t) @ [0]"
    by (rule write_header) (simp add: zero)
  moreover have "bo_attached s" "bo_dataSize s = length p" "length p < 2 ^ 64"
    using assms by (auto simp: writer_def kMaxMaxChunkSize_def)
  moreover from this(3) have "int (length p) mod 2 ^ 64 = int (length p)"
    by (intro mod_pos_pos_trivial) simp_all
  ultimately have "BufferedChunkedOutputStream_close ops s = (0, t\<lparr>bo_out := out, bo_attached := False\<rparr>)"
    unfolding BufferedChunkedOutputStream_close_def flush by simp
  moreover have "content (bo_out t) = start @ chunks_bytes cs'" "\<forall>c \<in> set cs'. c \<noteq> [] \<and> length c \<le> m"
    using t unfolding writer_def by blast+
  moreover have "concat cs' = concat cs @ p"
    by (simp add: cs'_def)
  ultimately show thesis
    using that [of "t\<lparr>bo_out := out, bo_attached := False\<rparr>" cs'] out by simp
qed

end

section \<open>Reading chunks\<close>

text \<open>What the reader needs of the stream below: a read returns at least one byte and at most as many
  as asked for, until the bytes are used up.\<close>

locale byte_source =
  fixes ops :: "'i InputStream"
    and rest :: "'i \<Rightarrow> bytes"
    and good :: "'i \<Rightarrow> bool"
  assumes good_valid: "good i \<Longrightarrow> in_isValid ops i"
    and source_read: "good i \<Longrightarrow> 0 < n \<Longrightarrow> rest i \<noteq> [] \<Longrightarrow>
    \<exists>k i'. in_read ops n i = (int k, take k (rest i), i') \<and> 1 \<le> k \<and> k \<le> n \<and> k \<le> length (rest i) \<and>
      rest i' = drop k (rest i) \<and> good i'"
begin

lemma read_byte:
  assumes "good i" and "rest i = b # bs"
  obtains i' where "in_read ops 1 i = (1, [b], i')" and "rest i' = bs" and "good i'"
proof -
  obtain k i' where "in_read ops 1 i = (int k, take k (rest i), i')" "1 \<le> k" "k \<le> 1"
    "rest i' = drop k (rest i)" "good i'"
    using source_read [OF assms(1), of 1] assms(2) by auto
  moreover from this have "k = 1"
    by simp
  ultimately show thesis
    using that assms(2) by simp
qed

lemma read_size_bytes:
  assumes "good (ci_in s)" and "rest (ci_in s) = ds @ d # bs" and "\<forall>b \<in> set ds. vi_cont b"
    and "\<not> vi_cont d" and "length ds < n"
  obtains i where "chunk_size_bytes ops n buffer s = (Inr (buffer @ ds @ [d]), s\<lparr>ci_in := i\<rparr>)"
    and "rest i = bs" and "good i"
proof -
  have "\<exists>i. chunk_size_bytes ops n buffer s = (Inr (buffer @ ds @ [d]), s\<lparr>ci_in := i\<rparr>) \<and>
      rest i = bs \<and> good i"
    using assms
  proof (induction ds arbitrary: n buffer s)
    case Nil
    then obtain m where n: "n = Suc m"
      by (cases n) auto
    obtain i where "in_read ops 1 (ci_in s) = (1, [d], i)" "rest i = bs" "good i"
      using read_byte [OF Nil.prems(1)] Nil.prems(2) by auto
    then show ?case
      using Nil.prems(4) by (auto simp: n and_80_iff)
  next
    case (Cons e ds)
    then obtain m where n: "n = Suc m"
      by (cases n) auto
    obtain i where i: "in_read ops 1 (ci_in s) = (1, [e], i)" "rest i = ds @ d # bs" "good i"
      using read_byte [OF Cons.prems(1)] Cons.prems(2) by auto
    have "vi_cont e"
      using Cons.prems(3) by simp
    then show ?case
      using Cons.IH [of "s\<lparr>ci_in := i\<rparr>" m "buffer @ [e]"] Cons.prems i by (auto simp: n and_80_iff)
  qed
  then show thesis
    using that by blast
qed

lemma read_chunk_size:
  assumes "good (ci_in s)" and "\<not> ci_stop s" and "rest (ci_in s) = encodeVarUInt32 v @ bs" and "unat v < 2 ^ 28"
  obtains i where "readChunkSize ops s = (1, ci_set_chunk (unat v) (v = 0) (s\<lparr>ci_in := i\<rparr>))"
    and "rest i = bs" and "good i"
proof -
  obtain ds d where enc: "encodeVarUInt32 v = ds @ [d]" "\<forall>b \<in> set ds. vi_cont b" "\<not> vi_cont d"
    using vi_encode_shape [of "unat v"] by (auto simp: encodeVarUInt32_vi)
  have "length (encodeVarUInt32 v) \<le> 4"
    unfolding encodeVarUInt32_vi using vi_encode_length_le [of "unat v" 4] assms(4) by simp
  then have "length ds < 4"
    by (simp add: enc(1) del: length_encodeVarUInt)
  then obtain i where i: "chunk_size_bytes ops kMaxSerializedInt32Size [] s = (Inr (encodeVarUInt32 v), s\<lparr>ci_in := i\<rparr>)"
    "rest i = bs" "good i"
    using read_size_bytes [of s ds d bs kMaxSerializedInt32Size "[]"] assms(1,3) enc
    by (auto simp: kMaxSerializedInt32Size_def)
  have "decodeVarUInt32 (encodeVarUInt32 v) = DecOk (getVarUInt32Size v) v"
    using decodeVarUInt32_encode [of v "[]"] by simp
  moreover have "length (encodeVarUInt32 v) \<noteq> kMaxSerializedInt32Size"
    using \<open>length (encodeVarUInt32 v) \<le> 4\<close> by (simp add: kMaxSerializedInt32Size_def)
  ultimately show thesis
    using that [of i] i assms(2) unfolding readChunkSize_def by simp
qed

text \<open>Reading within a chunk delivers as many of its bytes as asked for.\<close>

lemma read_loop_chunk:
  assumes "good (ci_in s)" and "rest (ci_in s) = c @ bs" and "ci_hasChunkSize s"
    and "ci_chunkSize s = ci_pos s + length c" and "c \<noteq> []" and "0 < n"
  obtains s' where "ci_read_loop ops n buffer s = (Inr (), buffer @ take n c, s')" and "good (ci_in s')"
    and "rest (ci_in s') = drop n c @ bs" and "ci_attached s' = ci_attached s" and "ci_eof s' = ci_eof s"
    and "ci_stop s' = ci_stop s" and "ci_hasChunkSize s' = (n < length c)" and "ci_chunkSize s' = ci_chunkSize s"
    and "ci_pos s' = ci_pos s + min n (length c)"
proof -
  have "\<exists>s'. ci_read_loop ops n buffer s = (Inr (), buffer @ take n c, s') \<and> good (ci_in s') \<and>
      rest (ci_in s') = drop n c @ bs \<and> ci_attached s' = ci_attached s \<and> ci_eof s' = ci_eof s \<and>
      ci_stop s' = ci_stop s \<and> ci_hasChunkSize s' = (n < length c) \<and> ci_chunkSize s' = ci_chunkSize s \<and>
      ci_pos s' = ci_pos s + min n (length c)"
    using assms
  proof (induction n arbitrary: buffer s c rule: less_induct)
    case (less n)
    let ?m = "min n (length c)"
    have m: "0 < ?m" "?m = min n (getRemainingBytesInChunk s)"
      using less.prems by (auto simp: getRemainingBytesInChunk_def)
    obtain k i where read: "in_read ops ?m (ci_in s) = (int k, take k (c @ bs), i)" "1 \<le> k" "k \<le> ?m"
      and i: "rest i = drop k (c @ bs)" "good i"
      using source_read [OF less.prems(1) m(1)] less.prems(5) unfolding less.prems(2) by auto
    let ?s = "s\<lparr>ci_in := i, ci_pos := ci_pos s + k\<rparr>"
    have step: "ci_read_loop ops n buffer s = (if k = length c then (Inr (), buffer @ take k c, ?s\<lparr>ci_hasChunkSize := False\<rparr>)
        else ci_read_loop ops (n - k) (buffer @ take k c) ?s)"
      using less.prems(4,6) read m by (subst ci_read_loop.simps) (auto simp: Let_def)
    show ?case
    proof (cases "k = length c")
      case True
      then show ?thesis
        using step i read(3) by auto
    next
      case False
      then have k: "k < length c" "drop k c \<noteq> []"
        using read(3) by auto
      show ?thesis
      proof (cases "n = k")
        case True
        then show ?thesis
          using step False k i less.prems by (auto simp: ci_read_loop.simps [of _ 0])
      next
        case more: False
        then have "n - k < n" "0 < n - k"
          using read by auto
        from less.IH [OF this(1) _ _ _ _ k(2) this(2), of ?s "buffer @ take k c"] obtain s'
          where "ci_read_loop ops (n - k) (buffer @ take k c) ?s = (Inr (), (buffer @ take k c) @ take (n - k) (drop k c), s')"
            "good (ci_in s')" "rest (ci_in s') = drop (n - k) (drop k c) @ bs" "ci_attached s' = ci_attached s"
            "ci_eof s' = ci_eof s" "ci_stop s' = ci_stop s" "ci_hasChunkSize s' = (n - k < length c - k)"
            "ci_chunkSize s' = ci_chunkSize s" "ci_pos s' = ci_pos s + k + min (n - k) (length c - k)"
          using i k less.prems by auto
        moreover have "take k c @ take (n - k) (drop k c) = take n c"
          using read(3) take_add [of k "n - k" c] by simp
        moreover have "drop (n - k) (drop k c) = drop n c" "(n - k < length c - k) = (n < length c)"
          "ci_pos s + k + min (n - k) (length c - k) = ci_pos s + min n (length c)"
          using read(3) k(1) by auto
        ultimately have "ci_read_loop ops n buffer s = (Inr (), buffer @ take n c, s') \<and> good (ci_in s') \<and>
            rest (ci_in s') = drop n c @ bs \<and> ci_attached s' = ci_attached s \<and> ci_eof s' = ci_eof s \<and>
            ci_stop s' = ci_stop s \<and> ci_hasChunkSize s' = (n < length c) \<and> ci_chunkSize s' = ci_chunkSize s \<and>
            ci_pos s' = ci_pos s + min n (length c)"
          using step False by (simp del: take_append drop_append)
        then show ?thesis
          by blast
      qed
    qed
  qed
  then show thesis
    using that by blast
qed

text \<open>The invariant of a chunked reader: the rest of the current chunk, the following chunks, and what
  comes after the final chunk.\<close>

definition reader :: "bytes \<Rightarrow> bytes list \<Rightarrow> bytes \<Rightarrow> 'i ChunkedInputStream \<Rightarrow> bool" where
  "reader c cs bs s \<longleftrightarrow> ci_attached s \<and> good (ci_in s) \<and> \<not> ci_stop s \<and> \<not> ci_eof s \<and>
    ci_hasChunkSize s = (c \<noteq> []) \<and> (c \<noteq> [] \<longrightarrow> ci_chunkSize s = ci_pos s + length c) \<and>
    rest (ci_in s) = c @ chunks_bytes cs @ [0] @ bs \<and> (\<forall>d \<in> set cs. d \<noteq> [] \<and> length d < 2 ^ 28)"

lemma reader_chunk:
  assumes "reader c cs bs s" and "c \<noteq> []" and "0 < n"
  obtains s' where "ChunkedInputStream_read ops n s = (int (length (take n c)), take n c, s')" and "reader (drop n c) cs bs s'"
proof -
  have s: "good (ci_in s)" "rest (ci_in s) = c @ chunks_bytes cs @ [0] @ bs" "ci_hasChunkSize s"
    "ci_chunkSize s = ci_pos s + length c" "ci_attached s" "\<not> ci_eof s" "\<not> ci_stop s"
    using assms(1,2) by (simp_all add: reader_def)
  from s(1-4) assms(2,3) obtain s' where loop: "ci_read_loop ops n [] s = (Inr (), [] @ take n c, s')"
    and s': "good (ci_in s')" "rest (ci_in s') = drop n c @ chunks_bytes cs @ [0] @ bs"
      "ci_attached s' = ci_attached s" "ci_eof s' = ci_eof s" "ci_stop s' = ci_stop s"
      "ci_hasChunkSize s' = (n < length c)" "ci_chunkSize s' = ci_chunkSize s" "ci_pos s' = ci_pos s + min n (length c)"
    by (rule read_loop_chunk)
  have "ChunkedInputStream_read ops n s = (int (length (take n c)), take n c, s')"
    unfolding ChunkedInputStream_read_def InputStreamWrapperStream_isValid_def using s loop by (simp add: good_valid)
  moreover have "reader (drop n c) cs bs s'"
    using s s' assms(1) by (auto simp: reader_def min_def)
  ultimately show thesis
    using that by blast
qed

lemma reader_next:
  assumes "reader [] (d # cs) bs s"
  obtains s1 where "readChunkSize ops s = (1, s1)" and "reader d cs bs s1"
proof -
  have d: "d \<noteq> []" "length d < 2 ^ 28"
    using assms by (auto simp: reader_def)
  then have unat: "unat (of_nat (length d) :: uint32) = length d"
    by (simp add: unat_of_nat)
  have "good (ci_in s)" "\<not> ci_stop s"
    "rest (ci_in s) = encodeVarUInt32 (of_nat (length d)) @ d @ chunks_bytes cs @ [0] @ bs"
    using assms by (simp_all add: reader_def chunk_bytes_def)
  moreover have "unat (of_nat (length d) :: uint32) < 2 ^ 28"
    using d(2) unat by simp
  ultimately obtain i where "readChunkSize ops s =
      (1, ci_set_chunk (unat (of_nat (length d) :: uint32)) ((of_nat (length d) :: uint32) = 0) (s\<lparr>ci_in := i\<rparr>))"
    and "rest i = d @ chunks_bytes cs @ [0] @ bs" "good i"
    by (rule read_chunk_size)
  moreover have "(of_nat (length d) :: uint32) \<noteq> 0"
    using d(1) unat by (metis length_0_conv unat_0)
  ultimately show thesis
    using that assms d by (simp add: unat reader_def ci_set_chunk_def)
qed

lemma reader_end:
  assumes "reader [] [] bs s"
  obtains s1 where "ChunkedInputStream_read ops n s = (-1, [], s1)" and "ci_eof s1" and "rest (ci_in s1) = bs"
proof -
  have zero: "encodeVarUInt32 0 = [0]"
    by (subst encodeVarUInt32.simps) simp
  have s: "good (ci_in s)" "\<not> ci_stop s" "rest (ci_in s) = encodeVarUInt32 0 @ bs"
    and s': "ci_attached s" "\<not> ci_hasChunkSize s"
    using assms by (simp_all add: reader_def zero)
  have "unat (0 :: uint32) < 2 ^ 28"
    by simp
  from read_chunk_size [OF s this] obtain i where "readChunkSize ops s = (1, ci_set_chunk (unat (0 :: uint32)) True (s\<lparr>ci_in := i\<rparr>))"
    and "rest i = bs"
    by auto
  then show thesis
    using that s s' by (simp add: ChunkedInputStream_read_def InputStreamWrapperStream_isValid_def ci_set_chunk_def good_valid)
qed

lemma reader_read:
  assumes "reader c cs bs s" and "c @ concat cs \<noteq> []" and "0 < n"
  obtains data c' cs' s' where "ChunkedInputStream_read ops n s = (int (length data), data, s')" and "data \<noteq> []"
    and "data @ c' @ concat cs' = c @ concat cs" and "reader c' cs' bs s'"
proof (cases "c = []")
  case False
  from reader_chunk [OF assms(1) False assms(3)] show thesis
    using that [of "take n c" _ "drop n c" cs] False assms(3) by (metis append_assoc append_take_drop_id take_eq_Nil not_gr0)
next
  case True
  then obtain d ds where cs: "cs = d # ds"
    using assms(2) by (cases cs) auto
  obtain s1 where size: "readChunkSize ops s = (1, s1)" and s1: "reader d ds bs s1"
    using reader_next assms(1) unfolding True cs by blast
  have d: "d \<noteq> []"
    using assms(1) by (auto simp: reader_def cs)
  obtain s2 where read: "ChunkedInputStream_read ops n s1 = (int (length (take n d)), take n d, s2)" and "reader (drop n d) ds bs s2"
    by (rule reader_chunk [OF s1 d assms(3)])
  moreover have "ChunkedInputStream_read ops n s = ChunkedInputStream_read ops n s1"
    using assms(1) s1 size d True
    by (simp add: ChunkedInputStream_read_def InputStreamWrapperStream_isValid_def reader_def good_valid)
  ultimately show thesis
    using that [of "take n d" s2 "drop n d" ds] d assms(3) by (simp add: True cs)
qed

lemma read_string:
  assumes "reader c cs bs s" and "0 \<notin> set (c @ concat cs)"
  shows "\<exists>s'. read_string_loop ops str s = Some (str @ c @ concat cs, s') \<and> rest (ci_in s') = bs"
  using assms
proof (induction "length (c @ concat cs)" arbitrary: c cs str s rule: less_induct)
  case less
  have eof: "\<not> ci_eof s"
    using less.prems(1) by (simp add: reader_def)
  show ?case
  proof (cases "c @ concat cs = []")
    case True
    moreover from this have "cs = []"
      using less.prems(1) by (cases cs) (auto simp: reader_def)
    ultimately obtain s1 where "ChunkedInputStream_read ops (kReadBufferSize - 1) s = (-1, [], s1)" "rest (ci_in s1) = bs"
      using reader_end less.prems(1) by blast
    then show ?thesis
      using True eof by (simp add: read_string_loop.simps [of _ _ s])
  next
    case False
    obtain data c' cs' s1 where read: "ChunkedInputStream_read ops (kReadBufferSize - 1) s = (int (length data), data, s1)"
      and data: "data \<noteq> []" "data @ c' @ concat cs' = c @ concat cs" and s1: "reader c' cs' bs s1"
      by (rule reader_read [OF less.prems(1) False, of "kReadBufferSize - 1"]) (simp_all add: kReadBufferSize_def)
    have set: "set data \<union> set (c' @ concat cs') = set (c @ concat cs)"
      using data(2) by (metis set_append)
    have nonzero: "0 \<notin> set (c' @ concat cs')"
      using set less.prems(2) by blast
    have whole: "takeWhile (\<lambda>b. b \<noteq> 0) data = data"
      using set less.prems(2) by (auto simp: takeWhile_eq_all_conv)
    have "length (c' @ concat cs') < length (c @ concat cs)"
      using data by (metis add_less_same_cancel2 length_append length_greater_0_conv less_add_same_cancel2)
    from less.hyps [OF this s1 nonzero, of "str @ data"] show ?thesis
      using read eof data by (simp add: read_string_loop.simps [of _ _ s] whole)
  qed
qed

end

section \<open>Streams over memory below the chunked streams\<close>

interpretation memory_sink: byte_sink MemoryOutputStream_ops mo_written mo_remaining
  by unfold_locales
    (auto simp: MemoryOutputStream_ops_def MemoryOutputStream_write_def MemoryOutputStream_isValid_def Let_def min_def)

interpretation memory_source: byte_source MemoryInputStream_ops mi_current
  "\<lambda>s. mi_open s \<and> mi_remaining s = length (mi_current s)"
proof unfold_locales
  fix i :: MemoryInputStream and n :: nat
  assume "mi_open i \<and> mi_remaining i = length (mi_current i)" and "0 < n" and "mi_current i \<noteq> []"
  then show "\<exists>k i'. in_read MemoryInputStream_ops n i = (int k, take k (mi_current i), i') \<and> 1 \<le> k \<and> k \<le> n \<and>
      k \<le> length (mi_current i) \<and> mi_current i' = drop k (mi_current i) \<and>
      mi_open i' \<and> mi_remaining i' = length (mi_current i')"
    by (intro exI [of _ "min n (length (mi_current i))"])
      (auto simp: MemoryInputStream_ops_def MemoryInputStream_read_def MemoryInputStream_isValid_def Let_def Suc_le_eq)
qed (simp add: MemoryInputStream_ops_def MemoryInputStream_isValid_def)

text \<open>A sender writes pieces of data through a chunked stream and closes it.\<close>

fun write_all :: "'o OutputStream \<Rightarrow> bytes list \<Rightarrow> 'o BufferedOutputStream \<Rightarrow> 'o BufferedOutputStream option" where
  "write_all ops [] s = Some s"
| "write_all ops (d # ds) s = (case bo_write (BufferedChunkedOutputStream_onFlush ops) ops d s of
      None \<Rightarrow> None
    | Some (_, s') \<Rightarrow> write_all ops ds s')"

definition send_chunked :: "'o OutputStream \<Rightarrow> nat \<Rightarrow> bytes list \<Rightarrow> 'o \<Rightarrow> (int \<times> 'o BufferedOutputStream) option" where
  "send_chunked ops m ds out = (case BufferedChunkedOutputStream_new m out of
      None \<Rightarrow> None
    | Some s \<Rightarrow> map_option (BufferedChunkedOutputStream_close ops) (write_all ops ds s))"

context byte_sink
begin

lemma write_all_writer:
  assumes "writer m start cs p (6 * length (concat ds) + reserve) s"
  shows "\<exists>cs' p' s'. write_all ops ds s = Some s' \<and> concat cs' @ p' = concat cs @ p @ concat ds \<and>
    writer m start cs' p' reserve s'"
  using assms
proof (induction ds arbitrary: cs p s)
  case (Cons d ds)
  have "writer m start cs p (6 * length d + (6 * length (concat ds) + reserve)) s"
    using Cons.prems by (simp add: algebra_simps)
  then obtain cs1 p1 s1 where "bo_write onFlush ops d s = Some (int (length d), s1)"
    and "concat cs1 @ p1 = concat cs @ p @ d" and s1: "writer m start cs1 p1 (6 * length (concat ds) + reserve) s1"
    by (rule write_writer)
  moreover from Cons.IH [OF s1] obtain cs' p' s' where "write_all ops ds s1 = Some s'"
    "concat cs' @ p' = concat cs1 @ p1 @ concat ds" "writer m start cs' p' reserve s'"
    by blast
  ultimately show ?case
    by (intro exI [of _ cs'] exI [of _ p'] exI [of _ s']) (simp flip: append_assoc)
qed auto

end



section \<open>Defects of the streams\<close>

text \<open>Skipping in a memory stream does not move the pointer: the bytes that should have been skipped
  are delivered by the next read, and the last ones are never delivered.\<close>

theorem memory_skip_keeps_pointer:
  assumes "k \<le> length bs"
  shows "\<exists>s. MemoryInputStream_skip k (MemoryInputStream_new bs) = (int k, s) \<and>
    fst (snd (MemoryInputStream_read (length bs) s)) = take (length bs - k) bs"
  using assms
  by (simp add: MemoryInputStream_skip_def MemoryInputStream_new_def MemoryInputStream_isValid_def
      MemoryInputStream_read_def Let_def min_def)

text \<open>The growing stream does not grow: the buffer is resized to the missing amount instead of by it. A
  full stream refuses the data when the result has the size of the buffer, and writes outside of the
  buffer when it is smaller.\<close>

theorem dynamic_stream_does_not_grow:
  assumes "dm_open s" and "dm_current s = length (dm_buffer s)" and "dm_remaining s = 0"
    and "buffer \<noteq> []" and "length buffer \<le> dm_growStep s" and "length (dm_buffer s) < 2 ^ 63"
    and "dm_growStep s \<le> length (dm_buffer s)"
  shows "(if dm_growStep s = length (dm_buffer s) then \<exists>s'. DynamicMemoryOutputStream_write buffer s = Some (-1, s')
    else DynamicMemoryOutputStream_write buffer s = None)"
proof -
  let ?g = "dm_growStep s" and ?b = "dm_buffer s"
  have pos: "0 < ?g"
    using assms(4,5) by (cases buffer) auto
  have grown: "dm_grow (length buffer) s =
      s\<lparr>dm_buffer := take ?g ?b, dm_remaining := of_nat ?g - of_nat (length ?b)\<rparr>"
  proof (cases "length buffer = ?g")
    case True
    then show ?thesis
      using assms pos by (simp add: dm_grow_def Let_def buffer_resize_def min_absorb2)
  next
    case False
    then show ?thesis
      using assms pos by (simp add: dm_grow_def Let_def buffer_resize_def min_absorb2)
  qed
  show ?thesis
  proof (cases "?g = length ?b")
    case True
    then show ?thesis
      using assms grown by (simp add: DynamicMemoryOutputStream_write_def)
  next
    case False
    have "unat (of_nat ?g - of_nat (length ?b) :: 64 word) \<noteq> 0"
    proof
      assume "unat (of_nat ?g - of_nat (length ?b) :: 64 word) = 0"
      then have "(of_nat ?g :: 64 word) = of_nat (length ?b)"
        by (simp add: unat_eq_0)
      then have "unat (of_nat ?g :: 64 word) = unat (of_nat (length ?b) :: 64 word)"
        by simp
      then show False
        using False assms(6,7) by (simp add: unat_of_nat)
    qed
    then show ?thesis
      using False assms grown by (simp add: DynamicMemoryOutputStream_write_def Let_def)
  qed
qed

text \<open>A chunked string is cut at a zero byte: the reader appends the buffer as a C string.\<close>

declare read_string_loop.simps [code]

lemma chunked_string_cut_at_zero:
  "map_option fst (readChunkedString MemoryInputStream_ops (MemoryInputStream_new (chunk_bytes [65, 0, 66] @ [0]))) = Some [65]"
  by code_simp

end
