(* ===== verification/Registry.thy ===== *)
theory Registry
  imports Records
begin

text \<open>
  The records that the metadata of an instance are kept and transferred in (\<open>iomgr/lib/dbengine/reg/\<close>): one
  structure per kind of object, each with \<open>getSerializedSize\<close>, \<open>serializeUnchecked\<close> and \<open>deserialize\<close>. What a
  structure writes starts with the UUID of its class and a class version. The three methods of a class
  form a \<open>registry_class\<close>; enumerations are kept as the 32-bit numbers they are stored as, since no
  \<open>deserialize\<close> checks them. Every failure is the same exception, \<open>DeserializationError\<close>: the result None.

  A registry is a container with a unique index by identifier, and in some classes further unique
  indices. It is a set of records here. The order in which its hashed indices enumerate the records is
  a matter of the container library, an argument of the classes that contain registries.
\<close>

section \<open>Fields\<close>

definition p_string :: "bytes decoder" where
  "p_string buffer = ok_of_sum (deserializeObject_string buffer)"

definition p_binary_value :: "bytes decoder" where
  "p_binary_value buffer = ok_of_sum (deserializeObject_binary buffer)"

abbreviation optional_string_size :: "bytes option \<Rightarrow> nat" where
  "optional_string_size \<equiv> getSerializedSize_optional getSerializedSize_string"

abbreviation optional_string_bytes :: "bytes option \<Rightarrow> bytes" where
  "optional_string_bytes \<equiv> serializeUnchecked_optional serializeUnchecked_string"

definition p_optional_string :: "bytes option decoder" where
  "p_optional_string buffer = ok_of_sum (deserializeObject_optional deserializeObject_string buffer)"

abbreviation optional_int64_size :: "uint64 option \<Rightarrow> nat" where
  "optional_int64_size \<equiv> getSerializedSize_optional getVarInt64Size"

abbreviation optional_int64_bytes :: "uint64 option \<Rightarrow> bytes" where
  "optional_int64_bytes \<equiv> serializeUnchecked_optional encodeVarInt64"

text \<open>The member is empty before it is read.\<close>

definition p_optional_int64 :: "uint64 option decoder" where
  "p_optional_int64 buffer = map_option (\<lambda>(x, n). (x, unat n))
    (ok_of_sum (deserializeObject_optional_fundamental decodeVarInt64 None buffer))"

definition flag_bytes :: "bool \<Rightarrow> bytes" where
  "flag_bytes b = [if b then 1 else 0]"

definition p_flag :: "bool decoder" where
  "p_flag = p_bind p_byte (\<lambda>b. p_return (b \<noteq> 0))"

definition kUuidLength :: nat where "kUuidLength = 16"

definition p_uuid :: "bytes decoder" where
  "p_uuid buffer = (if length buffer < kUuidLength then None else Some (take kUuidLength buffer, kUuidLength))"

section \<open>Classes\<close>

record 'r registry_class =
  s_classUuid :: bytes
  rc_getSerializedSize :: "uint32 \<Rightarrow> 'r \<Rightarrow> nat"
  rc_serializeUnchecked :: "uint32 \<Rightarrow> 'r \<Rightarrow> bytes"
  rc_deserialize :: "'r decoder"

text \<open>How every \<open>deserialize\<close> begins: the UUID must be that of the class, the version must not be newer than
  the class.\<close>

definition class_header :: "bytes \<Rightarrow> uint32 \<Rightarrow> uint32 decoder" where
  "class_header classUuid kClassVersion =
    p_bind p_uuid (\<lambda>u. if u \<noteq> classUuid then (\<lambda>_. None)
      else p_bind p_var32 (\<lambda>classVersion. if classVersion > kClassVersion then (\<lambda>_. None) else p_return classVersion))"

definition registry_class :: "bytes \<Rightarrow> uint32 \<Rightarrow> (uint32 \<Rightarrow> 'r \<Rightarrow> nat) \<Rightarrow> (uint32 \<Rightarrow> 'r \<Rightarrow> bytes) \<Rightarrow>
    (uint32 \<Rightarrow> 'r decoder) \<Rightarrow> 'r registry_class" where
  "registry_class classUuid kClassVersion sz ser des = \<lparr>s_classUuid = classUuid,
    rc_getSerializedSize = (\<lambda>version r. kUuidLength + getVarUInt32Size version + sz version r),
    rc_serializeUnchecked = (\<lambda>version r. classUuid @ encodeVarUInt32 version @ ser version r),
    rc_deserialize = p_bind (class_header classUuid kClassVersion) des\<rparr>"

text \<open>Insertion into a registry has no effect when a record in it has the same value of a unique key.\<close>

definition registry_insert :: "('r \<Rightarrow> 'r \<Rightarrow> bool) \<Rightarrow> 'r \<Rightarrow> 'r set \<Rightarrow> 'r set" where
  "registry_insert conflict r R = (if \<exists>x \<in> R. conflict x r then R else insert r R)"

definition registry_of :: "('r \<Rightarrow> 'r \<Rightarrow> bool) \<Rightarrow> 'r list \<Rightarrow> 'r set" where
  "registry_of conflict rs = fold (registry_insert conflict) rs {}"

definition same :: "('r \<Rightarrow> 'k) \<Rightarrow> 'r \<Rightarrow> 'r \<Rightarrow> bool" where
  "same key x y \<longleftrightarrow> key x = key y"

definition p_records :: "('r \<Rightarrow> 'r \<Rightarrow> bool) \<Rightarrow> 'r registry_class \<Rightarrow> 'r set decoder" where
  "p_records conflict C = p_bind p_var32 (\<lambda>count. p_bind (des_seq (rc_deserialize C) (unat count)) (\<lambda>rs.
    p_return (registry_of conflict rs)))"

section \<open>The records\<close>

record CipherKeyRecord =
  ck_id :: uint64
  ck_cipherId :: bytes
  ck_key :: bytes

definition CipherKeyRecord_class :: "CipherKeyRecord registry_class" where
  "CipherKeyRecord_class = registry_class
    [0xDF, 0xFB, 0x2D, 0x5A, 0xA7, 0x81, 0x42, 0x8B, 0xBD, 0xB5, 0x54, 0x63, 0x3E, 0x3A, 0xB8, 0xDD] 0
    (\<lambda>version r. getVarUInt64Size (ck_id r) + getSerializedSize_string (ck_cipherId r) +
      getSerializedSize_binary (ck_key r))
    (\<lambda>version r. encodeVarUInt64 (ck_id r) @ serializeUnchecked_string (ck_cipherId r) @
      serializeUnchecked_binary (ck_key r))
    (\<lambda>version. p_bind p_var64 (\<lambda>id. p_bind p_string (\<lambda>cipherId. p_bind p_binary_value
      (\<lambda>key. p_return \<lparr>ck_id = id, ck_cipherId = cipherId, ck_key = key\<rparr>))))"

record ColumnDefinitionConstraintRecord =
  cdc_id :: uint64
  cdc_columnDefinitionId :: uint64
  cdc_constraintId :: uint64

definition ColumnDefinitionConstraintRecord_class :: "ColumnDefinitionConstraintRecord registry_class" where
  "ColumnDefinitionConstraintRecord_class = registry_class
    [0x0A, 0xE9, 0x92, 0x1A, 0x63, 0x7F, 0x41, 0x46, 0x80, 0xF3, 0x52, 0x15, 0xF4, 0xB9, 0xD3, 0x25] 0
    (\<lambda>version r. getVarUInt64Size (cdc_id r) + getVarUInt64Size (cdc_columnDefinitionId r) +
      getVarUInt64Size (cdc_constraintId r))
    (\<lambda>version r. encodeVarUInt64 (cdc_id r) @ encodeVarUInt64 (cdc_columnDefinitionId r) @
      encodeVarUInt64 (cdc_constraintId r))
    (\<lambda>version. p_bind p_var64 (\<lambda>id. p_bind p_var64 (\<lambda>columnDefinitionId. p_bind p_var64
      (\<lambda>constraintId. p_return \<lparr>cdc_id = id, cdc_columnDefinitionId = columnDefinitionId,
      cdc_constraintId = constraintId\<rparr>))))"

record ColumnDefinitionRecord =
  cd_id :: uint64
  cd_columnId :: uint64
  cd_constraints :: "ColumnDefinitionConstraintRecord set"

definition ColumnDefinitionRecord_class :: "(ColumnDefinitionConstraintRecord set \<Rightarrow> ColumnDefinitionConstraintRecord list) \<Rightarrow> ColumnDefinitionRecord registry_class" where
  "ColumnDefinitionRecord_class byId = registry_class
    [0x4F, 0x3B, 0x6D, 0x57, 0xCB, 0xCD, 0x4D, 0xF0, 0x8E, 0xFD, 0x59, 0x10, 0xC5, 0x39, 0x2A, 0xDE] 0
    (\<lambda>version r. getVarUInt64Size (cd_id r) + getVarUInt64Size (cd_columnId r) + getVarUInt32Size
      (of_nat (card (cd_constraints r))) + sum_list (map (rc_getSerializedSize
      ColumnDefinitionConstraintRecord_class 0) (byId (cd_constraints r))))
    (\<lambda>version r. encodeVarUInt64 (cd_id r) @ encodeVarUInt64 (cd_columnId r) @ encodeVarUInt32 (of_nat
      (card (cd_constraints r))) @ concat (map (rc_serializeUnchecked ColumnDefinitionConstraintRecord_class 0)
      (byId (cd_constraints r))))
    (\<lambda>version. p_bind p_var64 (\<lambda>id. p_bind p_var64 (\<lambda>columnId. p_bind (p_records (same cdc_id) ColumnDefinitionConstraintRecord_class) (\<lambda>constraints. p_return \<lparr>cd_id = id, cd_columnId = columnId, cd_constraints = constraints\<rparr>))))"

record ColumnRecord =
  co_id :: uint64
  co_name :: bytes
  co_dataType :: uint32
  co_tableId :: uint32
  co_state :: uint32
  co_dataBlockDataAreaSize :: uint32
  co_description :: "bytes option"

definition ColumnRecord_class :: "ColumnRecord registry_class" where
  "ColumnRecord_class = registry_class
    [0xFD, 0xE8, 0xEE, 0x48, 0x95, 0x05, 0x4C, 0xFA, 0xBE, 0xF5, 0xC7, 0x22, 0x54, 0xCC, 0x12, 0x3D] 0
    (\<lambda>version r. getVarUInt64Size (co_id r) + getSerializedSize_string (co_name r) + getVarUInt32Size
      (co_dataType r) + getVarUInt32Size (co_tableId r) + getVarUInt32Size (co_state r) + getVarUInt32Size
      (co_dataBlockDataAreaSize r) + optional_string_size (co_description r))
    (\<lambda>version r. encodeVarUInt64 (co_id r) @ serializeUnchecked_string (co_name r) @ encodeVarUInt32
      (co_dataType r) @ encodeVarUInt32 (co_tableId r) @ encodeVarUInt32 (co_state r) @ encodeVarUInt32
      (co_dataBlockDataAreaSize r) @ optional_string_bytes (co_description r))
    (\<lambda>version. p_bind p_var64 (\<lambda>id. p_bind p_string (\<lambda>name. p_bind p_var32
      (\<lambda>dataType. p_bind p_var32 (\<lambda>tableId. p_bind p_var32 (\<lambda>state. p_bind p_var32
      (\<lambda>dataBlockDataAreaSize. p_bind p_optional_string (\<lambda>description. p_return \<lparr>co_id =
      id, co_name = name, co_dataType = dataType, co_tableId = tableId, co_state = state,
      co_dataBlockDataAreaSize = dataBlockDataAreaSize, co_description = description\<rparr>))))))))"

record ColumnSetColumnRecord =
  csc_id :: uint64
  csc_columnSetId :: uint64
  csc_columnDefinitionId :: uint64
  csc_columnId :: uint64

definition ColumnSetColumnRecord_class :: "ColumnSetColumnRecord registry_class" where
  "ColumnSetColumnRecord_class = registry_class
    [0x8B, 0x96, 0x66, 0x4C, 0xFB, 0xBF, 0x49, 0xB1, 0xAF, 0xC7, 0x52, 0xAC, 0x95, 0x3E, 0xFC, 0x4C] 0
    (\<lambda>version r. getVarUInt64Size (csc_id r) + getVarUInt64Size (csc_columnSetId r) + getVarUInt64Size
      (csc_columnDefinitionId r) + getVarUInt64Size (csc_columnId r))
    (\<lambda>version r. encodeVarUInt64 (csc_id r) @ encodeVarUInt64 (csc_columnSetId r) @ encodeVarUInt64
      (csc_columnDefinitionId r) @ encodeVarUInt64 (csc_columnId r))
    (\<lambda>version. p_bind p_var64 (\<lambda>id. p_bind p_var64 (\<lambda>columnSetId. p_bind p_var64
      (\<lambda>columnDefinitionId. p_bind p_var64 (\<lambda>columnId. p_return \<lparr>csc_id = id,
      csc_columnSetId = columnSetId, csc_columnDefinitionId = columnDefinitionId, csc_columnId =
      columnId\<rparr>)))))"

record ColumnSetRecord =
  cs_id :: uint64
  cs_tableId :: uint32
  cs_columns :: "ColumnSetColumnRecord set"

definition ColumnSetRecord_class :: "(ColumnSetColumnRecord set \<Rightarrow> ColumnSetColumnRecord list) \<Rightarrow> ColumnSetRecord registry_class" where
  "ColumnSetRecord_class byColumnDefinitionId = registry_class
    [0x1B, 0x61, 0xE9, 0xC0, 0xED, 0x46, 0x42, 0x94, 0xA1, 0xEC, 0xC5, 0x55, 0xEC, 0x00, 0xD0, 0xF0] 0
    (\<lambda>version r. getVarUInt64Size (cs_id r) + getVarUInt32Size (cs_tableId r) + getVarUInt32Size (of_nat
      (card (cs_columns r))) + sum_list (map (rc_getSerializedSize ColumnSetColumnRecord_class 0)
      (byColumnDefinitionId (cs_columns r))))
    (\<lambda>version r. encodeVarUInt64 (cs_id r) @ encodeVarUInt32 (cs_tableId r) @ encodeVarUInt32 (of_nat
      (card (cs_columns r))) @ concat (map (rc_serializeUnchecked ColumnSetColumnRecord_class 0)
      (byColumnDefinitionId (cs_columns r))))
    (\<lambda>version. p_bind p_var64 (\<lambda>id. p_bind p_var32 (\<lambda>tableId. p_bind (p_records (same csc_id) ColumnSetColumnRecord_class) (\<lambda>columns. p_return \<lparr>cs_id = id, cs_tableId = tableId, cs_columns = columns\<rparr>))))"

record ConstraintRecord =
  ct_id :: uint64
  ct_name :: bytes
  ct_state :: uint32
  ct_tableId :: uint32
  ct_columnId :: uint64
  ct_constraintDefinitionId :: uint64
  ct_description :: "bytes option"

definition ConstraintRecord_class :: "ConstraintRecord registry_class" where
  "ConstraintRecord_class = registry_class
    [0x88, 0xF0, 0x4E, 0x4B, 0xB6, 0xBB, 0x41, 0x01, 0xB5, 0x2F, 0x34, 0x0A, 0xAC, 0x00, 0x53, 0xD1] 0
    (\<lambda>version r. getVarUInt64Size (ct_id r) + getSerializedSize_string (ct_name r) + getVarUInt32Size
      (ct_state r) + getVarUInt32Size (ct_tableId r) + getVarUInt64Size (ct_columnId r) + getVarUInt64Size
      (ct_constraintDefinitionId r) + optional_string_size (ct_description r))
    (\<lambda>version r. encodeVarUInt64 (ct_id r) @ serializeUnchecked_string (ct_name r) @ encodeVarUInt32
      (ct_state r) @ encodeVarUInt32 (ct_tableId r) @ encodeVarUInt64 (ct_columnId r) @ encodeVarUInt64
      (ct_constraintDefinitionId r) @ optional_string_bytes (ct_description r))
    (\<lambda>version. p_bind p_var64 (\<lambda>id. p_bind p_string (\<lambda>name. p_bind p_var32
      (\<lambda>state. p_bind p_var32 (\<lambda>tableId. p_bind p_var64 (\<lambda>columnId. p_bind p_var64
      (\<lambda>constraintDefinitionId. p_bind p_optional_string (\<lambda>description. p_return \<lparr>ct_id =
      id, ct_name = name, ct_state = state, ct_tableId = tableId, ct_columnId = columnId,
      ct_constraintDefinitionId = constraintDefinitionId, ct_description = description\<rparr>))))))))"

record DatabaseRecord =
  db_id :: uint32
  db_uuid :: bytes
  db_name :: bytes
  db_cipherId :: bytes
  db_description :: "bytes option"
  db_maxTableCount :: uint32

definition DatabaseRecord_class :: "DatabaseRecord registry_class" where
  "DatabaseRecord_class = registry_class
    [0x34, 0x62, 0x31, 0x47, 0x92, 0x11, 0x46, 0xDD, 0xA5, 0xCC, 0x83, 0xF8, 0x8C, 0x00, 0x14, 0x76] 0
    (\<lambda>version r. getVarUInt32Size (db_id r) + 16 + getSerializedSize_string (db_name r) +
      getSerializedSize_string (db_cipherId r) + optional_string_size (db_description r) + getVarUInt32Size
      (db_maxTableCount r))
    (\<lambda>version r. encodeVarUInt32 (db_id r) @ db_uuid r @ serializeUnchecked_string (db_name r) @
      serializeUnchecked_string (db_cipherId r) @ optional_string_bytes (db_description r) @ encodeVarUInt32
      (db_maxTableCount r))
    (\<lambda>version. p_bind p_var32 (\<lambda>id. p_bind p_uuid (\<lambda>uuid. p_bind p_string
      (\<lambda>name. p_bind p_string (\<lambda>cipherId. p_bind p_optional_string (\<lambda>description. p_bind
      p_var32 (\<lambda>maxTableCount. p_return \<lparr>db_id = id, db_uuid = uuid, db_name = name, db_cipherId
      = cipherId, db_description = description, db_maxTableCount = maxTableCount\<rparr>)))))))"

record IndexColumnRecord =
  ic_id :: uint64
  ic_indexId :: uint64
  ic_columnDefinitionId :: uint64
  ic_sortDescending :: bool

definition IndexColumnRecord_class :: "IndexColumnRecord registry_class" where
  "IndexColumnRecord_class = registry_class
    [0xB5, 0xBD, 0xD7, 0xF5, 0x0E, 0x28, 0x42, 0xD1, 0x9B, 0xD9, 0xA1, 0xEC, 0xA3, 0x90, 0x79, 0xD5] 0
    (\<lambda>version r. getVarUInt64Size (ic_id r) + getVarUInt64Size (ic_indexId r) + getVarUInt64Size
      (ic_columnDefinitionId r) + 1)
    (\<lambda>version r. encodeVarUInt64 (ic_id r) @ encodeVarUInt64 (ic_indexId r) @ encodeVarUInt64
      (ic_columnDefinitionId r) @ flag_bytes (ic_sortDescending r))
    (\<lambda>version. p_bind p_var64 (\<lambda>id. p_bind p_var64 (\<lambda>indexId. p_bind p_var64
      (\<lambda>columnDefinitionId. p_bind p_flag (\<lambda>sortDescending. p_return \<lparr>ic_id = id,
      ic_indexId = indexId, ic_columnDefinitionId = columnDefinitionId, ic_sortDescending =
      sortDescending\<rparr>)))))"

record IndexRecord =
  ix_id :: uint64
  ix_type :: uint32
  ix_tableId :: uint32
  ix_unique :: bool
  ix_name :: bytes
  ix_columns :: "IndexColumnRecord set"
  ix_dataFileSize :: uint32
  ix_description :: "bytes option"

definition IndexRecord_class :: "(IndexColumnRecord set \<Rightarrow> IndexColumnRecord list) \<Rightarrow> IndexRecord registry_class" where
  "IndexRecord_class byId = registry_class
    [0xF6, 0xC8, 0x07, 0xEE, 0xF2, 0x4A, 0x43, 0x98, 0xAE, 0x44, 0xD1, 0x89, 0x03, 0x6C, 0x78, 0x42] 0
    (\<lambda>version r. getVarUInt64Size (ix_id r) + getVarUInt32Size (ix_type r) + getVarUInt32Size
      (ix_tableId r) + 1 + getSerializedSize_string (ix_name r) + getVarUInt32Size (of_nat (card (ix_columns
      r))) + sum_list (map (rc_getSerializedSize IndexColumnRecord_class 0) (byId (ix_columns r))) +
      getVarUInt32Size (ix_dataFileSize r) + optional_string_size (ix_description r))
    (\<lambda>version r. encodeVarUInt64 (ix_id r) @ encodeVarUInt32 (ix_type r) @ encodeVarUInt32 (ix_tableId
      r) @ flag_bytes (ix_unique r) @ serializeUnchecked_string (ix_name r) @ encodeVarUInt32 (of_nat (card
      (ix_columns r))) @ concat (map (rc_serializeUnchecked IndexColumnRecord_class 0) (byId (ix_columns r))) @
      encodeVarUInt32 (ix_dataFileSize r) @ optional_string_bytes (ix_description r))
    (\<lambda>version. p_bind p_var64 (\<lambda>id. p_bind p_var32 (\<lambda>type. p_bind p_var32
      (\<lambda>tableId. p_bind p_flag (\<lambda>unique. p_bind p_string (\<lambda>name. p_bind (p_records (same ic_id) IndexColumnRecord_class) (\<lambda>columns.
      p_bind p_var32 (\<lambda>dataFileSize. p_bind p_optional_string (\<lambda>description. p_return
      \<lparr>ix_id = id, ix_type = type, ix_tableId = tableId, ix_unique = unique, ix_name = name, ix_columns =
      columns, ix_dataFileSize = dataFileSize, ix_description =
      description\<rparr>)))))))))"

record TableRecord =
  tb_id :: uint32
  tb_type :: uint32
  tb_name :: bytes
  tb_firstUserTrid :: uint64
  tb_currentColumnSetId :: uint64
  tb_description :: "bytes option"

definition TableRecord_class :: "TableRecord registry_class" where
  "TableRecord_class = registry_class
    [0xBE, 0x67, 0xCE, 0x29, 0x04, 0x85, 0x4D, 0x3C, 0x88, 0x5D, 0xFD, 0x2F, 0xE7, 0x99, 0xEB, 0x1B] 0
    (\<lambda>version r. getVarUInt32Size (tb_id r) + getVarUInt32Size (tb_type r) + getSerializedSize_string
      (tb_name r) + getVarUInt64Size (tb_firstUserTrid r) + getVarUInt64Size (tb_currentColumnSetId r) +
      optional_string_size (tb_description r))
    (\<lambda>version r. encodeVarUInt32 (tb_id r) @ encodeVarUInt32 (tb_type r) @ serializeUnchecked_string
      (tb_name r) @ encodeVarUInt64 (tb_firstUserTrid r) @ encodeVarUInt64 (tb_currentColumnSetId r) @
      optional_string_bytes (tb_description r))
    (\<lambda>version. p_bind p_var32 (\<lambda>id. p_bind p_var32 (\<lambda>type. p_bind p_string
      (\<lambda>name. p_bind p_var64 (\<lambda>firstUserTrid. p_bind p_var64 (\<lambda>currentColumnSetId.
      p_bind p_optional_string (\<lambda>description. p_return \<lparr>tb_id = id, tb_type = type, tb_name =
      name, tb_firstUserTrid = firstUserTrid, tb_currentColumnSetId = currentColumnSetId, tb_description =
      description\<rparr>)))))))"

record UserAccessKeyRecord =
  uak_id :: uint64
  uak_userId :: uint32
  uak_name :: bytes
  uak_text :: bytes
  uak_description :: "bytes option"
  uak_active :: bool

definition UserAccessKeyRecord_class :: "UserAccessKeyRecord registry_class" where
  "UserAccessKeyRecord_class = registry_class
    [0x9E, 0x75, 0xE8, 0xE0, 0x3E, 0x32, 0x4A, 0x2B, 0xA0, 0x11, 0x6B, 0x68, 0x9B, 0x21, 0x3C, 0x61] 0
    (\<lambda>version r. getVarUInt64Size (uak_id r) + getVarUInt32Size (uak_userId r) +
      getSerializedSize_string (uak_name r) + getSerializedSize_string (uak_text r) + optional_string_size
      (uak_description r) + 1)
    (\<lambda>version r. encodeVarUInt64 (uak_id r) @ encodeVarUInt32 (uak_userId r) @ serializeUnchecked_string
      (uak_name r) @ serializeUnchecked_string (uak_text r) @ optional_string_bytes (uak_description r) @
      flag_bytes (uak_active r))
    (\<lambda>version. p_bind p_var64 (\<lambda>id. p_bind p_var32 (\<lambda>userId. p_bind p_string
      (\<lambda>name. p_bind p_string (\<lambda>text. p_bind p_optional_string (\<lambda>description. p_bind
      p_flag (\<lambda>active. p_return \<lparr>uak_id = id, uak_userId = userId, uak_name = name, uak_text =
      text, uak_description = description, uak_active = active\<rparr>)))))))"

record UserPermissionRecord =
  up_id :: uint64
  up_userId :: uint32
  up_databaseId :: uint32
  up_objectType :: uint32
  up_objectId :: uint64
  up_permissions :: uint64
  up_grantOptions :: uint64

definition UserPermissionRecord_class :: "UserPermissionRecord registry_class" where
  "UserPermissionRecord_class = registry_class
    [0x56, 0x0F, 0xF7, 0x56, 0xA6, 0x8D, 0x4E, 0x8B, 0xA3, 0xB9, 0x21, 0x3E, 0x4E, 0x80, 0xF8, 0x08] 0
    (\<lambda>version r. getVarUInt64Size (up_id r) + getVarUInt32Size (up_userId r) + getVarUInt32Size
      (up_databaseId r) + getVarUInt32Size (up_objectType r) + getVarUInt64Size (up_objectId r) +
      getVarUInt64Size (up_permissions r) + getVarUInt64Size (up_grantOptions r))
    (\<lambda>version r. encodeVarUInt64 (up_id r) @ encodeVarUInt32 (up_userId r) @ encodeVarUInt32
      (up_databaseId r) @ encodeVarUInt32 (up_objectType r) @ encodeVarUInt64 (up_objectId r) @ encodeVarUInt64
      (up_permissions r) @ encodeVarUInt64 (up_grantOptions r))
    (\<lambda>version. p_bind p_var64 (\<lambda>id. p_bind p_var32 (\<lambda>userId. p_bind p_var32
      (\<lambda>databaseId. p_bind p_var32 (\<lambda>objectType. p_bind p_var64 (\<lambda>objectId. p_bind
      p_var64 (\<lambda>permissions. p_bind p_var64 (\<lambda>grantOptions. p_return \<lparr>up_id = id,
      up_userId = userId, up_databaseId = databaseId, up_objectType = objectType, up_objectId = objectId,
      up_permissions = permissions, up_grantOptions = grantOptions\<rparr>))))))))"

record UserTokenRecord =
  ut_id :: uint64
  ut_userId :: uint32
  ut_name :: bytes
  ut_value :: bytes
  ut_expirationTimestamp :: "uint64 option"
  ut_description :: "bytes option"

definition UserTokenRecord_class :: "UserTokenRecord registry_class" where
  "UserTokenRecord_class = registry_class
    [0xD1, 0x1D, 0xE3, 0x71, 0x26, 0x0E, 0x4A, 0x36, 0x97, 0x1C, 0x5C, 0xAB, 0x1C, 0xBC, 0xA3, 0xB7] 0
    (\<lambda>version r. getVarUInt64Size (ut_id r) + getVarUInt32Size (ut_userId r) + getSerializedSize_string
      (ut_name r) + getSerializedSize_binary (ut_value r) + optional_int64_size (ut_expirationTimestamp r) +
      optional_string_size (ut_description r))
    (\<lambda>version r. encodeVarUInt64 (ut_id r) @ encodeVarUInt32 (ut_userId r) @ serializeUnchecked_string
      (ut_name r) @ serializeUnchecked_binary (ut_value r) @ optional_int64_bytes (ut_expirationTimestamp r) @
      optional_string_bytes (ut_description r))
    (\<lambda>version. p_bind p_var64 (\<lambda>id. p_bind p_var32 (\<lambda>userId. p_bind p_string
      (\<lambda>name. p_bind p_binary_value (\<lambda>value. p_bind p_optional_int64
      (\<lambda>expirationTimestamp. p_bind p_optional_string (\<lambda>description. p_return \<lparr>ut_id =
      id, ut_userId = userId, ut_name = name, ut_value = value, ut_expirationTimestamp = expirationTimestamp,
      ut_description = description\<rparr>)))))))"

text \<open>The hash of a constraint definition, with the hash function of the library as a parameter. It is not
  stored, and \<open>deserialize\<close> leaves the member as the default constructor has set it.\<close>

definition kHashSeed :: uint64 where "kHashSeed = 0x3FF6A09E667F3BCD"

definition computeHash :: "(bytes \<Rightarrow> uint64 \<Rightarrow> uint64) \<Rightarrow> uint32 \<Rightarrow> bytes \<Rightarrow> uint64" where
  "computeHash xxh64 constraintType binaryValue =
    (let h = xxh64 (pbeEncodeUInt32 constraintType @ pbeEncodeUInt32 (of_nat (length binaryValue))) kHashSeed in
     if binaryValue = [] then h else xxh64 binaryValue h)"

record ConstraintDefinitionRecord =
  ctd_id :: uint64
  ctd_type :: uint32
  ctd_expression :: bytes
  ctd_hash :: uint64

definition ConstraintDefinitionRecord_class :: "(bytes \<Rightarrow> uint64 \<Rightarrow> uint64) \<Rightarrow> ConstraintDefinitionRecord registry_class" where
  "ConstraintDefinitionRecord_class xxh64 = registry_class
    [0x20, 0x77, 0xE0, 0x2B, 0x16, 0x8A, 0x48, 0xAB, 0x9A, 0x66, 0x80, 0xF0, 0xEF, 0xFC, 0x40, 0x31] 0
    (\<lambda>version r. getVarUInt64Size (ctd_id r) + getVarUInt32Size (ctd_type r) + getSerializedSize_binary (ctd_expression r))
    (\<lambda>version r. encodeVarUInt64 (ctd_id r) @ encodeVarUInt32 (ctd_type r) @ serializeUnchecked_binary (ctd_expression r))
    (\<lambda>version. p_bind p_var64 (\<lambda>id. p_bind p_var32 (\<lambda>type. p_bind p_binary_value (\<lambda>expression.
      p_return \<lparr>ctd_id = id, ctd_type = type, ctd_expression = expression, ctd_hash = computeHash xxh64 0 []\<rparr>))))"

text \<open>A user with its keys, tokens and permissions. Tokens are written since version 1, permissions since
  version 2; the object that is read into has empty registries.\<close>

record UserRecord =
  ur_id :: uint32
  ur_name :: bytes
  ur_realName :: "bytes option"
  ur_description :: "bytes option"
  ur_active :: bool
  ur_accessKeys :: "UserAccessKeyRecord set"
  ur_tokens :: "UserTokenRecord set"
  ur_permissions :: "UserPermissionRecord set"

abbreviation access_key_conflict :: "UserAccessKeyRecord \<Rightarrow> UserAccessKeyRecord \<Rightarrow> bool" where
  "access_key_conflict x y \<equiv> same uak_id x y \<or> same uak_name x y"

abbreviation token_conflict :: "UserTokenRecord \<Rightarrow> UserTokenRecord \<Rightarrow> bool" where
  "token_conflict x y \<equiv> same ut_id x y \<or> same ut_name x y \<or> same ut_value x y"

definition UserRecord_class :: "(UserAccessKeyRecord set \<Rightarrow> UserAccessKeyRecord list) \<Rightarrow> (UserTokenRecord set \<Rightarrow> UserTokenRecord list) \<Rightarrow>
    (UserPermissionRecord set \<Rightarrow> UserPermissionRecord list) \<Rightarrow> UserRecord registry_class" where
  "UserRecord_class accessKeysById tokensById permissionsById = registry_class
    [0x4F, 0x19, 0x50, 0xD5, 0x01, 0xEA, 0x45, 0x7F, 0x94, 0x5E, 0xB7, 0x04, 0x89, 0x4A, 0x70, 0xB9] 2
    (\<lambda>version r. getVarUInt32Size (ur_id r) + getSerializedSize_string (ur_name r) +
      optional_string_size (ur_realName r) + optional_string_size (ur_description r) + 1 +
      getVarUInt32Size (of_nat (card (ur_accessKeys r))) +
      sum_list (map (rc_getSerializedSize UserAccessKeyRecord_class 0) (accessKeysById (ur_accessKeys r))) +
      (if version \<ge> 1 then getVarUInt32Size (of_nat (card (ur_tokens r))) +
         sum_list (map (rc_getSerializedSize UserTokenRecord_class 0) (tokensById (ur_tokens r))) else 0) +
      (if version \<ge> 2 then getVarUInt32Size (of_nat (card (ur_permissions r))) +
         sum_list (map (rc_getSerializedSize UserPermissionRecord_class 0) (permissionsById (ur_permissions r))) else 0))
    (\<lambda>version r. encodeVarUInt32 (ur_id r) @ serializeUnchecked_string (ur_name r) @
      optional_string_bytes (ur_realName r) @ optional_string_bytes (ur_description r) @ flag_bytes (ur_active r) @
      encodeVarUInt32 (of_nat (card (ur_accessKeys r))) @
      concat (map (rc_serializeUnchecked UserAccessKeyRecord_class 0) (accessKeysById (ur_accessKeys r))) @
      (if version \<ge> 1 then encodeVarUInt32 (of_nat (card (ur_tokens r))) @
         concat (map (rc_serializeUnchecked UserTokenRecord_class 0) (tokensById (ur_tokens r))) else []) @
      (if version \<ge> 2 then encodeVarUInt32 (of_nat (card (ur_permissions r))) @
         concat (map (rc_serializeUnchecked UserPermissionRecord_class 0) (permissionsById (ur_permissions r))) else []))
    (\<lambda>version. p_bind p_var32 (\<lambda>id. p_bind p_string (\<lambda>name. p_bind p_optional_string (\<lambda>realName.
      p_bind p_optional_string (\<lambda>description. p_bind p_flag (\<lambda>active.
      p_bind (p_records access_key_conflict UserAccessKeyRecord_class) (\<lambda>accessKeys.
      p_bind (if version \<ge> 1 then p_records token_conflict UserTokenRecord_class else p_return {}) (\<lambda>tokens.
      p_bind (if version \<ge> 2 then p_records (same up_id) UserPermissionRecord_class else p_return {}) (\<lambda>permissions.
      p_return \<lparr>ur_id = id, ur_name = name, ur_realName = realName, ur_description = description, ur_active = active,
        ur_accessKeys = accessKeys, ur_tokens = tokens, ur_permissions = permissions\<rparr>)))))))))"

text \<open>The check at the start of the program: no two classes have the same UUID.\<close>

definition class_uuids :: "bytes list" where
  "class_uuids = [s_classUuid ColumnDefinitionConstraintRecord_class, s_classUuid (ColumnDefinitionRecord_class (\<lambda>_. [])),
    s_classUuid ColumnRecord_class, s_classUuid ColumnSetColumnRecord_class, s_classUuid (ColumnSetRecord_class (\<lambda>_. [])),
    s_classUuid (ConstraintDefinitionRecord_class (\<lambda>_ _. 0)), s_classUuid ConstraintRecord_class,
    s_classUuid DatabaseRecord_class, s_classUuid IndexColumnRecord_class, s_classUuid (IndexRecord_class (\<lambda>_. [])),
    s_classUuid TableRecord_class, s_classUuid UserAccessKeyRecord_class, s_classUuid UserPermissionRecord_class,
    s_classUuid (UserRecord_class (\<lambda>_. []) (\<lambda>_. []) (\<lambda>_. [])), s_classUuid UserTokenRecord_class,
    s_classUuid CipherKeyRecord_class]"

fun check_uuids :: "bytes list \<Rightarrow> bytes set \<Rightarrow> bool" where
  "check_uuids [] uuids = True"
| "check_uuids (u # us) uuids = (if u \<in> uuids then False else check_uuids us (insert u uuids))"

definition checkRegistryRecordUuids :: bool where
  "checkRegistryRecordUuids = check_uuids class_uuids {}"

section \<open>Reading back fields\<close>

abbreviation text_ok :: "bytes \<Rightarrow> bool" where
  "text_ok s \<equiv> length s < 2 ^ 64"

abbreviation optional_ok :: "bytes option \<Rightarrow> bool" where
  "optional_ok opt \<equiv> \<forall>s. opt = Some s \<longrightarrow> text_ok s"

lemma p_bind_text [codec_simps]:
  "text_ok s \<Longrightarrow> p_bind p_string f (serializeUnchecked_string s @ rest) = advance (getSerializedSize_string s) (f s rest)"
  "text_ok s \<Longrightarrow> p_bind p_binary_value f (serializeUnchecked_binary s @ rest) = advance (getSerializedSize_binary s) (f s rest)"
  "optional_ok opt \<Longrightarrow> p_bind p_optional_string g (optional_string_bytes opt @ rest) =
    advance (optional_string_size opt) (g opt rest)"
  using optstr.length_ser [of opt]
  by (simp_all add: p_bind_def p_string_def p_binary_value_def p_optional_string_def deserialize_serialize_string
      deserialize_serialize_binary deserialize_serialize_optional)

lemma p_bind_optional_int64 [codec_simps]:
  assumes "varint_tail rest"
  shows "p_bind p_optional_int64 f (optional_int64_bytes opt @ rest) = advance (optional_int64_size opt) (f opt rest)"
proof (cases opt)
  case (Some t)
  have "getVarInt64Size t \<le> kMaxSerializedInt64Size"
    using getVarUIntSize_max(3) by (simp add: getVarInt64Size_def)
  then have "unat (of_nat (getVarInt64Size t) + 1 :: 64 word) = getVarInt64Size t + 1"
    by (simp add: unat_of_nat unat_word_ariths kMaxSerializedInt64Size_def)
  then show ?thesis
    using decodeVarInt_tail(3) [OF assms, of t] svar64.length_ser [of t] Some
    by (simp add: p_bind_def p_optional_int64_def deserializeObject_optional_fundamental_def
        serializeUnchecked_optional_def getSerializedSize_optional_def)
qed (simp add: p_bind_def p_optional_int64_def deserializeObject_optional_fundamental_def
      serializeUnchecked_optional_def getSerializedSize_optional_def)

lemma p_bind_return [codec_simps]: "p_bind (p_return x) f buffer = f x buffer"
  by (simp add: p_bind_def)

lemma p_bind_flag [codec_simps]:
  "p_bind p_flag f (flag_bytes b @ rest) = advance 1 (f b rest)"
  by (simp add: p_bind_def p_flag_def flag_bytes_def p_byte_def)

lemma p_bind_uuid [codec_simps]:
  "length u = 16 \<Longrightarrow> p_bind p_uuid f (u @ rest) = advance 16 (f u rest)"
  by (simp add: p_bind_def p_uuid_def kUuidLength_def)

lemma length_fields [simp]:
  "length (optional_string_bytes opt) = optional_string_size opt"
  "length (optional_int64_bytes t) = optional_int64_size t"
  "length (flag_bytes b) = 1"
  by (simp_all add: serializeUnchecked_optional_def getSerializedSize_optional_def flag_bytes_def svar64.length_ser
      split: option.splits)

lemma fields_nonempty [simp]:
  "optional_string_bytes opt \<noteq> []" "optional_int64_bytes t \<noteq> []" "flag_bytes b \<noteq> []"
  "serializeUnchecked_string s \<noteq> []" "serializeUnchecked_binary s \<noteq> []"
  by (auto simp: serializeUnchecked_optional_def flag_bytes_def serializeUnchecked_string_def
      serializeUnchecked_binary_def split: option.splits)

lemma varint_tail_flag [codec_simps]: "varint_tail (flag_bytes b)"
  by (simp add: varint_tail_def flag_bytes_def)

lemma varint_tail_pair: "varint_tail (a @ b) \<Longrightarrow> varint_tail rest \<Longrightarrow> varint_tail (a @ b @ rest)"
  using varint_tail_append(1) [of "a @ b" rest] by simp

lemmas tail_simps = varint_tail_append varint_tail_pair codec_simps

text \<open>A class reads back what it has written if its fields do. Whatever it has written is longer than any
  group, so that it can be followed and preceded by anything.\<close>

lemma class_codec:
  assumes C: "C = registry_class u k sz ser des" and u: "length u = 16" and v: "v \<le> k"
    and fields: "\<And>x. valid x \<Longrightarrow> length (ser v x) = sz v x"
      "\<And>x rest. valid x \<Longrightarrow> varint_tail rest \<Longrightarrow> varint_tail (ser v x @ rest)"
      "\<And>x rest. valid x \<Longrightarrow> varint_tail rest \<Longrightarrow> des v (ser v x @ rest) = Some (x, sz v x)"
  shows "tail_codec (rc_serializeUnchecked C v) (rc_deserialize C) (rc_getSerializedSize C v) valid"
proof
  fix x rest
  assume x: "valid x"
  show "length (rc_serializeUnchecked C v x) = rc_getSerializedSize C v x"
    using fields(1) [OF x] u by (simp add: C registry_class_def kUuidLength_def)
  show "rc_serializeUnchecked C v x \<noteq> []"
    by (simp add: C registry_class_def)
  show "varint_tail (rc_serializeUnchecked C v x)"
    using u by (simp add: C registry_class_def varint_tail_def)
  assume rest: "varint_tail rest"
  have "class_header u k (u @ encodeVarUInt32 v @ ser v x @ rest) = Some (v, 16 + getVarUInt32Size v)"
    using fields(2) [OF x rest] u v by (simp add: class_header_def codec_simps)
  then show "rc_deserialize C (rc_serializeUnchecked C v x @ rest) = Some (x, rc_getSerializedSize C v x)"
    using fields(3) [OF x rest] u by (simp add: C registry_class_def kUuidLength_def p_bind_def)
qed

lemma class_rejects:
  assumes "u \<noteq> u'" and "length u = 16" and "length u' = 16"
  shows "rc_deserialize (registry_class u k sz ser des) (rc_serializeUnchecked (registry_class u' k' sz' ser' des') v r @ rest) = None"
  using assms by (simp add: registry_class_def class_header_def p_bind_def p_uuid_def kUuidLength_def)

text \<open>Reading a registry back, whatever the order in which it was written.\<close>

definition registry_ok :: "('r \<Rightarrow> bool) \<Rightarrow> ('r \<Rightarrow> 'r \<Rightarrow> bool) \<Rightarrow> ('r set \<Rightarrow> 'r list) \<Rightarrow> 'r set \<Rightarrow> bool" where
  "registry_ok valid conflict order R \<longleftrightarrow> (\<forall>x \<in> R. valid x) \<and> distinct (order R) \<and> set (order R) = R \<and>
    (\<forall>x \<in> R. \<forall>y \<in> R. conflict x y \<longrightarrow> x = y) \<and> card R < 2 ^ 32"

lemma registry_fold:
  assumes "\<forall>x \<in> R \<union> set rs. \<forall>y \<in> R \<union> set rs. conflict x y \<longrightarrow> x = y"
  shows "fold (registry_insert conflict) rs R = R \<union> set rs"
  using assms
proof (induction rs arbitrary: R)
  case (Cons r rs)
  have "registry_insert conflict r R = insert r R"
    using Cons.prems by (auto simp: registry_insert_def)
  then show ?case
    using Cons.IH [of "insert r R"] Cons.prems by simp
qed simp

lemma registry_codec:
  assumes "tail_codec (rc_serializeUnchecked C 0) (rc_deserialize C) (rc_getSerializedSize C 0) valid"
    and ok: "registry_ok valid conflict order R"
  shows "length (concat (map (rc_serializeUnchecked C 0) (order R))) = sum_list (map (rc_getSerializedSize C 0) (order R))"
    and "varint_tail rest \<Longrightarrow> varint_tail (concat (map (rc_serializeUnchecked C 0) (order R)) @ rest)"
    and "varint_tail rest \<Longrightarrow> p_bind (p_records conflict C) f
        (encodeVarUInt32 (of_nat (card R)) @ concat (map (rc_serializeUnchecked C 0) (order R)) @ rest) =
      advance (getVarUInt32Size (of_nat (card R)) + sum_list (map (rc_getSerializedSize C 0) (order R))) (f R rest)"
proof -
  let ?n = "sum_list (map (rc_getSerializedSize C 0) (order R))"
  have R: "\<forall>x \<in> set (order R). valid x" "length (order R) = card R" "card R < 2 ^ 32"
    using ok by (auto simp: registry_ok_def distinct_card [symmetric])
  show size: "length (concat (map (rc_serializeUnchecked C 0) (order R))) = ?n"
    using tail_codec.axioms(1) [OF assms(1), THEN codec.length_ser] R(1)
    by (simp add: length_concat comp_def cong: map_cong)
  assume rest: "varint_tail rest"
  show tail: "varint_tail (concat (map (rc_serializeUnchecked C 0) (order R)) @ rest)"
    using tail_codec.varint_tail_concat [OF assms(1) R(1) rest] .
  have "unat (of_nat (card R) :: uint32) = length (order R)"
    using R(2,3) by (simp add: unat_of_nat)
  moreover have "registry_of conflict (order R) = R"
    using registry_fold [of "{}" "order R" conflict] ok by (simp add: registry_of_def registry_ok_def)
  ultimately have "p_records conflict C
      (encodeVarUInt32 (of_nat (card R)) @ concat (map (rc_serializeUnchecked C 0) (order R)) @ rest) =
      Some (R, getVarUInt32Size (of_nat (card R)) + ?n)"
    using tail by (simp add: p_records_def codec_simps tail_codec.p_bind_seq [OF assms(1) R(1) rest refl])
  then show "p_bind (p_records conflict C) f
      (encodeVarUInt32 (of_nat (card R)) @ concat (map (rc_serializeUnchecked C 0) (order R)) @ rest) =
      advance (getVarUInt32Size (of_nat (card R)) + ?n) (f R rest)"
    using size by (simp add: p_bind_def)
qed

section \<open>Reading back records\<close>

text \<open>A description at the end of a record must not look like an unfinished group to the reader of the
  number before it: it is long enough, or its last byte is an ASCII character.\<close>

definition described :: "bytes option \<Rightarrow> bool" where
  "described opt \<longleftrightarrow> optional_ok opt \<and> varint_tail (optional_string_bytes opt)"

interpretation cdc: tail_codec "rc_serializeUnchecked ColumnDefinitionConstraintRecord_class 0"
  "rc_deserialize ColumnDefinitionConstraintRecord_class" "rc_getSerializedSize ColumnDefinitionConstraintRecord_class 0" "\<lambda>_. True"
  by (rule class_codec [OF ColumnDefinitionConstraintRecord_class_def]) (simp_all add: tail_simps)

interpretation csc: tail_codec "rc_serializeUnchecked ColumnSetColumnRecord_class 0"
  "rc_deserialize ColumnSetColumnRecord_class" "rc_getSerializedSize ColumnSetColumnRecord_class 0" "\<lambda>_. True"
  by (rule class_codec [OF ColumnSetColumnRecord_class_def]) (simp_all add: tail_simps)

interpretation ic: tail_codec "rc_serializeUnchecked IndexColumnRecord_class 0"
  "rc_deserialize IndexColumnRecord_class" "rc_getSerializedSize IndexColumnRecord_class 0" "\<lambda>_. True"
  by (rule class_codec [OF IndexColumnRecord_class_def]) (simp_all add: tail_simps)

interpretation up: tail_codec "rc_serializeUnchecked UserPermissionRecord_class 0"
  "rc_deserialize UserPermissionRecord_class" "rc_getSerializedSize UserPermissionRecord_class 0" "\<lambda>_. True"
  by (rule class_codec [OF UserPermissionRecord_class_def]) (simp_all add: tail_simps)

definition ck_ok :: "CipherKeyRecord \<Rightarrow> bool" where
  "ck_ok r \<longleftrightarrow> text_ok (ck_cipherId r) \<and> text_ok (ck_key r) \<and>
    varint_tail (serializeUnchecked_string (ck_cipherId r) @ serializeUnchecked_binary (ck_key r))"

interpretation ck: tail_codec "rc_serializeUnchecked CipherKeyRecord_class 0"
  "rc_deserialize CipherKeyRecord_class" "rc_getSerializedSize CipherKeyRecord_class 0" "ck_ok"
  by (rule class_codec [OF CipherKeyRecord_class_def]) (simp_all add: ck_ok_def described_def tail_simps)

definition co_ok :: "ColumnRecord \<Rightarrow> bool" where
  "co_ok r \<longleftrightarrow> text_ok (co_name r) \<and> described (co_description r)"

interpretation co: tail_codec "rc_serializeUnchecked ColumnRecord_class 0"
  "rc_deserialize ColumnRecord_class" "rc_getSerializedSize ColumnRecord_class 0" "co_ok"
  by (rule class_codec [OF ColumnRecord_class_def]) (simp_all add: co_ok_def described_def tail_simps)

definition ct_ok :: "ConstraintRecord \<Rightarrow> bool" where
  "ct_ok r \<longleftrightarrow> text_ok (ct_name r) \<and> described (ct_description r)"

interpretation ct: tail_codec "rc_serializeUnchecked ConstraintRecord_class 0"
  "rc_deserialize ConstraintRecord_class" "rc_getSerializedSize ConstraintRecord_class 0" "ct_ok"
  by (rule class_codec [OF ConstraintRecord_class_def]) (simp_all add: ct_ok_def described_def tail_simps)

definition db_ok :: "DatabaseRecord \<Rightarrow> bool" where
  "db_ok r \<longleftrightarrow> length (db_uuid r) = 16 \<and> text_ok (db_name r) \<and> text_ok (db_cipherId r) \<and> optional_ok (db_description r)"

interpretation db: tail_codec "rc_serializeUnchecked DatabaseRecord_class 0"
  "rc_deserialize DatabaseRecord_class" "rc_getSerializedSize DatabaseRecord_class 0" "db_ok"
  by (rule class_codec [OF DatabaseRecord_class_def]) (simp_all add: db_ok_def described_def tail_simps)

definition tb_ok :: "TableRecord \<Rightarrow> bool" where
  "tb_ok r \<longleftrightarrow> text_ok (tb_name r) \<and> described (tb_description r)"

interpretation tb: tail_codec "rc_serializeUnchecked TableRecord_class 0"
  "rc_deserialize TableRecord_class" "rc_getSerializedSize TableRecord_class 0" "tb_ok"
  by (rule class_codec [OF TableRecord_class_def]) (simp_all add: tb_ok_def described_def tail_simps)

definition uak_ok :: "UserAccessKeyRecord \<Rightarrow> bool" where
  "uak_ok r \<longleftrightarrow> text_ok (uak_name r) \<and> text_ok (uak_text r) \<and> optional_ok (uak_description r)"

interpretation uak: tail_codec "rc_serializeUnchecked UserAccessKeyRecord_class 0"
  "rc_deserialize UserAccessKeyRecord_class" "rc_getSerializedSize UserAccessKeyRecord_class 0" "uak_ok"
  by (rule class_codec [OF UserAccessKeyRecord_class_def]) (simp_all add: uak_ok_def described_def tail_simps)

definition ut_ok :: "UserTokenRecord \<Rightarrow> bool" where
  "ut_ok r \<longleftrightarrow> text_ok (ut_name r) \<and> text_ok (ut_value r) \<and> described (ut_description r)"

interpretation ut: tail_codec "rc_serializeUnchecked UserTokenRecord_class 0"
  "rc_deserialize UserTokenRecord_class" "rc_getSerializedSize UserTokenRecord_class 0" "ut_ok"
  by (rule class_codec [OF UserTokenRecord_class_def]) (simp_all add: ut_ok_def described_def tail_simps)

lemmas nested_codecs =
  registry_codec [OF cdc.tail_codec_axioms, where conflict = "same cdc_id"]
  registry_codec [OF csc.tail_codec_axioms, where conflict = "same csc_id"]
  registry_codec [OF ic.tail_codec_axioms, where conflict = "same ic_id"]
  registry_codec [OF uak.tail_codec_axioms, where conflict = "\<lambda>x y. access_key_conflict x y"]
  registry_codec [OF ut.tail_codec_axioms, where conflict = "\<lambda>x y. token_conflict x y"]
  registry_codec [OF up.tail_codec_axioms, where conflict = "same up_id"]

interpretation cd: tail_codec "rc_serializeUnchecked (ColumnDefinitionRecord_class byId) 0"
  "rc_deserialize (ColumnDefinitionRecord_class byId)" "rc_getSerializedSize (ColumnDefinitionRecord_class byId) 0"
  "\<lambda>r. registry_ok (\<lambda>_. True) (same cdc_id) byId (cd_constraints r)" for byId
  by (rule class_codec [OF ColumnDefinitionRecord_class_def]) (simp_all add: nested_codecs tail_simps)

interpretation cs: tail_codec "rc_serializeUnchecked (ColumnSetRecord_class byColumnDefinitionId) 0"
  "rc_deserialize (ColumnSetRecord_class byColumnDefinitionId)" "rc_getSerializedSize (ColumnSetRecord_class byColumnDefinitionId) 0"
  "\<lambda>r. registry_ok (\<lambda>_. True) (same csc_id) byColumnDefinitionId (cs_columns r)" for byColumnDefinitionId
  by (rule class_codec [OF ColumnSetRecord_class_def]) (simp_all add: nested_codecs tail_simps)

interpretation ix: tail_codec "rc_serializeUnchecked (IndexRecord_class byId) 0"
  "rc_deserialize (IndexRecord_class byId)" "rc_getSerializedSize (IndexRecord_class byId) 0"
  "\<lambda>r. registry_ok (\<lambda>_. True) (same ic_id) byId (ix_columns r) \<and> text_ok (ix_name r) \<and> described (ix_description r)" for byId
  by (rule class_codec [OF IndexRecord_class_def]) (simp_all add: nested_codecs described_def tail_simps)

interpretation ctd: tail_codec "rc_serializeUnchecked (ConstraintDefinitionRecord_class xxh64) 0"
  "rc_deserialize (ConstraintDefinitionRecord_class xxh64)" "rc_getSerializedSize (ConstraintDefinitionRecord_class xxh64) 0"
  "\<lambda>r. text_ok (ctd_expression r) \<and> varint_tail (serializeUnchecked_binary (ctd_expression r)) \<and>
    ctd_hash r = computeHash xxh64 0 []" for xxh64
  by (rule class_codec [OF ConstraintDefinitionRecord_class_def]) (simp_all add: tail_simps)

definition ur_base :: "(UserAccessKeyRecord set \<Rightarrow> UserAccessKeyRecord list) \<Rightarrow> UserRecord \<Rightarrow> bool" where
  "ur_base ka r \<longleftrightarrow> text_ok (ur_name r) \<and> optional_ok (ur_realName r) \<and> optional_ok (ur_description r) \<and>
    registry_ok uak_ok access_key_conflict ka (ur_accessKeys r)"

definition ur_ok :: "(UserAccessKeyRecord set \<Rightarrow> UserAccessKeyRecord list) \<Rightarrow> (UserTokenRecord set \<Rightarrow> UserTokenRecord list) \<Rightarrow>
    (UserPermissionRecord set \<Rightarrow> UserPermissionRecord list) \<Rightarrow> UserRecord \<Rightarrow> bool" where
  "ur_ok ka to pe r \<longleftrightarrow> ur_base ka r \<and> registry_ok ut_ok token_conflict to (ur_tokens r) \<and>
    registry_ok (\<lambda>_. True) (same up_id) pe (ur_permissions r)"

interpretation ur: tail_codec "rc_serializeUnchecked (UserRecord_class ka to pe) 2"
  "rc_deserialize (UserRecord_class ka to pe)" "rc_getSerializedSize (UserRecord_class ka to pe) 2" "ur_ok ka to pe" for ka to pe
  by (rule class_codec [OF UserRecord_class_def]) (simp_all add: ur_ok_def ur_base_def nested_codecs tail_simps)

text \<open>Older versions leave out tokens and permissions.\<close>

lemma version_1: "\<not> (2 :: uint32) \<le> 1"
  by (simp add: word_le_nat_alt)

lemma user_record_version:
  assumes "(v :: uint32) \<le> 2"
  shows "v = 0 \<or> v = 1 \<or> v = 2"
proof -
  have "unat v \<le> 2"
    using assms by (simp add: word_le_nat_alt)
  then have "unat v = 0 \<or> unat v = 1 \<or> unat v = 2"
    by linarith
  then show ?thesis
    by (auto simp: word_unat_eq_iff)
qed

interpretation ur0: tail_codec "rc_serializeUnchecked (UserRecord_class ka to pe) 0"
  "rc_deserialize (UserRecord_class ka to pe)" "rc_getSerializedSize (UserRecord_class ka to pe) 0"
  "\<lambda>r. ur_base ka r \<and> ur_tokens r = {} \<and> ur_permissions r = {}" for ka to pe
  by (rule class_codec [OF UserRecord_class_def]) (simp_all add: ur_ok_def ur_base_def nested_codecs tail_simps)

interpretation ur1: tail_codec "rc_serializeUnchecked (UserRecord_class ka to pe) 1"
  "rc_deserialize (UserRecord_class ka to pe)" "rc_getSerializedSize (UserRecord_class ka to pe) 1"
  "\<lambda>r. ur_base ka r \<and> registry_ok ut_ok token_conflict to (ur_tokens r) \<and> ur_permissions r = {}" for ka to pe
  by (rule class_codec [OF UserRecord_class_def]) (simp_all add: ur_base_def version_1 nested_codecs tail_simps)

lemma user_record_versions:
  "rc_serializeUnchecked (UserRecord_class ka to pe) 0 r = rc_serializeUnchecked (UserRecord_class ka to pe) 0 (r\<lparr>ur_tokens := {}, ur_permissions := {}\<rparr>)"
  "rc_getSerializedSize (UserRecord_class ka to pe) 0 r = rc_getSerializedSize (UserRecord_class ka to pe) 0 (r\<lparr>ur_tokens := {}, ur_permissions := {}\<rparr>)"
  "rc_serializeUnchecked (UserRecord_class ka to pe) 1 r = rc_serializeUnchecked (UserRecord_class ka to pe) 1 (r\<lparr>ur_permissions := {}\<rparr>)"
  "rc_getSerializedSize (UserRecord_class ka to pe) 1 r = rc_getSerializedSize (UserRecord_class ka to pe) 1 (r\<lparr>ur_permissions := {}\<rparr>)"
  by (simp_all add: UserRecord_class_def registry_class_def version_1)

section \<open>Properties\<close>

definition reads_back :: "'r registry_class \<Rightarrow> 'r \<Rightarrow> bytes \<Rightarrow> bool" where
  "reads_back C r rest \<longleftrightarrow> length (rc_serializeUnchecked C 0 r) = rc_getSerializedSize C 0 r \<and>
    rc_deserialize C (rc_serializeUnchecked C 0 r @ rest) = Some (r, rc_getSerializedSize C 0 r)"


definition sorted_columns :: "ColumnSetColumnRecord set \<Rightarrow> ColumnSetColumnRecord list" where
  "sorted_columns R = (if R = {} then [] else [\<lparr>csc_id = 1, csc_columnSetId = 2, csc_columnDefinitionId = 3, csc_columnId = 4\<rparr>])"



definition sample_permission :: UserPermissionRecord where
  "sample_permission = \<lparr>up_id = 7, up_userId = 5, up_databaseId = 1, up_objectType = 2, up_objectId = 9,
    up_permissions = 1, up_grantOptions = 0\<rparr>"

definition sample_user :: UserRecord where
  "sample_user = \<lparr>ur_id = 5, ur_name = [85], ur_realName = None, ur_description = None, ur_active = True,
    ur_accessKeys = {}, ur_tokens = {}, ur_permissions = {sample_permission}\<rparr>"


text \<open>No two classes share a UUID, and a class rejects what another class has written.\<close>

theorem registry_classes_told_apart:
  assumes "u \<noteq> u'" and "length u = 16" and "length u' = 16"
  shows "checkRegistryRecordUuids \<and> rc_deserialize (registry_class u k sz ser des)
    (rc_serializeUnchecked (registry_class u' k' sz' ser' des') v r @ rest) = None"
proof -
  have checkRegistryRecordUuids
    unfolding checkRegistryRecordUuids_def class_uuids_def ColumnDefinitionConstraintRecord_class_def
      ColumnDefinitionRecord_class_def ColumnRecord_class_def ColumnSetColumnRecord_class_def ColumnSetRecord_class_def
      ConstraintDefinitionRecord_class_def ConstraintRecord_class_def DatabaseRecord_class_def IndexColumnRecord_class_def
      IndexRecord_class_def TableRecord_class_def UserAccessKeyRecord_class_def UserPermissionRecord_class_def
      UserRecord_class_def UserTokenRecord_class_def CipherKeyRecord_class_def
    by (simp add: registry_class_def)
  then show ?thesis
    using class_rejects [OF assms] by simp
qed

theorem registry_classes_told_apart_witness:
  "rc_deserialize UserPermissionRecord_class (rc_serializeUnchecked IndexColumnRecord_class 0
    \<lparr>ic_id = 1, ic_indexId = 2, ic_columnDefinitionId = 3, ic_sortDescending = True\<rparr> @ [0]) = None"
  unfolding UserPermissionRecord_class_def IndexColumnRecord_class_def
  by (rule registry_classes_told_apart [THEN conjunct2]) simp_all


text \<open>The hash of a constraint definition is not restored.\<close>

lemma constraint_definition_hash_stale:
  assumes "text_ok (ctd_expression r)" and "varint_tail (serializeUnchecked_binary (ctd_expression r))" and "varint_tail rest"
  shows "map_option fst (rc_deserialize (ConstraintDefinitionRecord_class xxh64)
    (rc_serializeUnchecked (ConstraintDefinitionRecord_class xxh64) 0 r @ rest)) = Some (r\<lparr>ctd_hash := computeHash xxh64 0 []\<rparr>)"
proof -
  let ?r = "r\<lparr>ctd_hash := computeHash xxh64 0 []\<rparr>"
  have "rc_serializeUnchecked (ConstraintDefinitionRecord_class xxh64) 0 r = rc_serializeUnchecked (ConstraintDefinitionRecord_class xxh64) 0 ?r"
    by (simp add: ConstraintDefinitionRecord_class_def registry_class_def)
  then show ?thesis
    using ctd.des_ser [of ?r xxh64 rest] assms by simp
qed

end
